(* ===== verification/Prelude.thy ===== *)
theory Prelude
  imports Main "HOL-Library.Word"
begin

text \<open>
  Shared vocabulary of the development: machine integers and byte strings, the error
  numbers the code sets, the character classes of the C locale, the formatted-output
  helper, big-endian integers on the wire, and the first-match loop over a fixed array
  that every table of the program uses.

  Conventions used by all theories:
  \<^item> a byte is an \<open>8 word\<close>; a buffer of known length is a list of bytes;
  \<^item> a NUL-terminated string is the list of its bytes before the terminator;
  \<^item> a pointer into a static array is the index of the element;
  \<^item> a call that returns -1 and sets \<open>errno\<close> is a value of type \<open>errno + 'a\<close>;
  \<^item> pointers the callers always pass are values, so the checks of them against NULL
    have no counterpart (a NULL \<open>SSL\<close> handle and a negative descriptor do).
\<close>

unbundle bit_operations_syntax

named_theorems wire_simps \<open>evaluation of the wire formats\<close>
named_theorems const_simps \<open>the numeric constants of the headers\<close>

section \<open>Types\<close>

type_synonym byte = "8 word"
type_synonym bytes = "byte list"
type_synonym u16 = "16 word"
type_synonym u32 = "32 word"
type_synonym u64 = "64 word"

datatype errno =
    EINVAL | EMSGSIZE | ECONNRESET | EPIPE | EBADF | EPROTO | EEXIST | ENOSPC | ENOENT
  | ENOBUFS | ENOMEM | EAGAIN | EIO | EFBIG | ENAMETOOLONG | ENOTDIR | EBADMSG | EACCES
  | ETIMEDOUT | ENOTCONN | Eother nat

type_synonym 'a result = "errno + 'a"

text \<open>
  \<open>errno\<close> after a failed call with value \<open>e\<close> was followed by a best-effort call: the
  later call overwrites it only when it fails itself.
\<close>

definition last_errno :: "errno \<Rightarrow> unit result \<Rightarrow> errno" where
  "last_errno e r = (case r of Inl e' \<Rightarrow> e' | Inr _ \<Rightarrow> e)"

section \<open>Characters and strings\<close>

definition str :: "string \<Rightarrow> bytes" where
  "str s = map of_char s"

lemma str_Nil [simp]: "str [] = []"
  by (simp add: str_def)

lemma str_Cons [simp]: "str (c # s) = of_char c # str s"
  by (simp add: str_def)

lemma length_str [simp]: "length (str s) = length s"
  by (simp add: str_def)

text \<open>\<open>isspace\<close> and \<open>iscntrl\<close> in the C locale, on an \<open>unsigned char\<close>.\<close>

definition isspace :: "byte \<Rightarrow> bool" where
  "isspace b \<longleftrightarrow> b = 32 \<or> (9 \<le> b \<and> b \<le> 13)"

definition iscntrl :: "byte \<Rightarrow> bool" where
  "iscntrl b \<longleftrightarrow> b < 32 \<or> b = 127"

lemma isspace_0 [simp]: "\<not> isspace 0"
  by (simp add: isspace_def)

lemma iscntrl_0 [simp]: "iscntrl 0"
  by (simp add: iscntrl_def)

text \<open>The C string that starts at the beginning of a buffer.\<close>

definition c_string :: "bytes \<Rightarrow> bytes" where
  "c_string buf = takeWhile (\<lambda>b. b \<noteq> 0) buf"

lemma c_string_no_nul: "0 \<notin> set (c_string buf)"
  by (auto simp: c_string_def dest: set_takeWhileD)

lemma c_string_id [simp]: "0 \<notin> set s \<Longrightarrow> c_string s = s"
  by (induction s) (auto simp: c_string_def)

lemma c_string_term [simp]: "0 \<notin> set s \<Longrightarrow> c_string (s @ 0 # r) = s"
  by (induction s) (auto simp: c_string_def)

section \<open>Formatted output\<close>

text \<open>
  \<open>printf\<close>-style templates with \<open>%s\<close> conversions only: each conversion takes the next
  argument. A decimal conversion is rendered beforehand with \<open>decimal\<close>.
\<close>

fun format :: "bytes \<Rightarrow> bytes list \<Rightarrow> bytes" where
  "format [] args = []"
| "format [c] args = [c]"
| "format (c # d # cs) args =
     (if c = 37 \<and> d = 115
      then (case args of [] \<Rightarrow> format cs [] | a # as \<Rightarrow> a @ format cs as)
      else c # format (d # cs) args)"

text \<open>
  \<open>snprintf (buf, cap, ...)\<close> whose full output is \<open>out\<close>: the number it returns and the
  string it leaves in the buffer. All outputs of the program are far below
  \<open>INT_MAX\<close>, so the number is never negative.
\<close>

definition snprintf :: "nat \<Rightarrow> bytes \<Rightarrow> nat \<times> bytes" where
  "snprintf cap out = (length out, take (cap - 1) out)"

fun decimal :: "nat \<Rightarrow> bytes" where
  "decimal n = (if n < 10 then [of_nat (48 + n)] else decimal (n div 10) @ [of_nat (48 + n mod 10)])"

declare decimal.simps [simp del]

lemma length_decimal_le: "n < 10 ^ k \<Longrightarrow> 0 < k \<Longrightarrow> length (decimal n) \<le> k"
proof (induction k arbitrary: n)
  case 0
  then show ?case by simp
next
  case (Suc k)
  show ?case
  proof (cases "n < 10")
    case True
    then show ?thesis by (simp add: decimal.simps [of n])
  next
    case False
    then have k: "0 < k" using Suc.prems by (cases k) auto
    have "n div 10 < 10 ^ k" using Suc.prems(1) by (simp add: less_mult_imp_div_less mult.commute)
    from Suc.IH [OF this k] False show ?thesis by (simp add: decimal.simps [of n])
  qed
qed

lemma decimal_digit: "(of_nat (48 + n mod 10) :: byte) = of_nat (48 + m mod 10) \<Longrightarrow> n mod 10 = m mod 10"
proof -
  have "unat (of_nat (48 + k mod 10) :: byte) = 48 + k mod 10" for k :: nat
    using unat_of_nat [of "48 + k mod 10", where ?'a = 8] by (simp del: of_nat_add)
  then show "(of_nat (48 + n mod 10) :: byte) = of_nat (48 + m mod 10) \<Longrightarrow> n mod 10 = m mod 10"
    by (metis add_left_cancel)
qed

lemma decimal_unfold:
  "decimal n = (if n < 10 then [] else decimal (n div 10)) @ [of_nat (48 + n mod 10)]"
  by (simp add: decimal.simps [of n])

lemma decimal_nonempty [simp]: "decimal n \<noteq> []"
  by (subst decimal_unfold) simp

lemma decimal_inj: "decimal n = decimal m \<longleftrightarrow> n = m"
proof
  show "decimal n = decimal m \<Longrightarrow> n = m"
  proof (induction n arbitrary: m rule: less_induct)
    case (less n)
    have "(if n < 10 then [] else decimal (n div 10)) @ [of_nat (48 + n mod 10)] =
        (if m < 10 then [] else decimal (m div 10)) @ [of_nat (48 + m mod 10)]"
      using less.prems by (simp only: decimal_unfold [symmetric])
    then have parts: "(if n < 10 then [] else decimal (n div 10)) = (if m < 10 then [] else decimal (m div 10))"
      "n mod 10 = m mod 10"
      unfolding append1_eq_conv by (blast dest: decimal_digit)+
    then have low: "n < 10 \<longleftrightarrow> m < 10" by (metis decimal_nonempty)
    show ?case
    proof (cases "n < 10")
      case True
      then show ?thesis using parts(2) low by simp
    next
      case False
      then have "n div 10 = m div 10" using less.IH [of "n div 10" "m div 10"] parts(1) low by simp
      then show ?thesis using parts(2) by (metis div_mult_mod_eq)
    qed
  qed
qed simp

lemma length_decimal_u32: "length (decimal (unat (x :: u32))) \<le> 10"
proof (rule length_decimal_le)
  show "unat x < 10 ^ 10" using unsigned_less [of x, where ?'a = nat] by simp
qed simp

section \<open>Big-endian integers\<close>

text \<open>
  \<open>memcpy\<close> of \<open>htons\<close>/\<open>htonl\<close> of a value writes its bytes most significant first,
  whatever the order of the host; the readers undo it. A read of a list that is too short
  (which the callers exclude) gives 0.
\<close>

definition be16 :: "u16 \<Rightarrow> bytes" where
  "be16 v = [ucast (drop_bit 8 v), ucast v]"

definition be32 :: "u32 \<Rightarrow> bytes" where
  "be32 v = [ucast (drop_bit 24 v), ucast (drop_bit 16 v), ucast (drop_bit 8 v), ucast v]"

fun of_be16 :: "bytes \<Rightarrow> u16" where
  "of_be16 (a # b # _) = push_bit 8 (ucast a) OR ucast b"
| "of_be16 _ = 0"

fun of_be32 :: "bytes \<Rightarrow> u32" where
  "of_be32 (a # b # c # d # _) =
     push_bit 24 (ucast a) OR push_bit 16 (ucast b) OR push_bit 8 (ucast c) OR ucast d"
| "of_be32 _ = 0"

lemma length_be [simp]: "length (be16 v) = 2" "length (be32 w) = 4"
  by (simp_all add: be16_def be32_def)

lemma of_be16_be16 [simp]: "of_be16 (be16 v @ r) = v"
  unfolding be16_def by (rule bit_word_eqI) (auto simp: bit_simps)

lemma of_be32_be32 [simp]: "of_be32 (be32 v @ r) = v"
proof (rule bit_word_eqI)
  fix n
  assume "n < LENGTH(32)"
  then consider "n < 8" | "8 \<le> n \<and> n < 16" | "16 \<le> n \<and> n < 24" | "24 \<le> n \<and> n < 32" by fastforce
  then show "bit (of_be32 (be32 v @ r)) n = bit v n"
    by cases (auto simp: be32_def bit_simps)
qed

lemma bit_byte_high [simp]: "8 \<le> n \<Longrightarrow> \<not> bit (b :: byte) n"
  by (auto dest: bit_imp_le_length)

lemma be16_of_be16: "length bs = 2 \<Longrightarrow> be16 (of_be16 bs) = bs"
  by (cases bs rule: of_be16.cases)
     (auto simp: be16_def bit_simps intro!: bit_word_eqI)

lemma be32_of_be32: "length bs = 4 \<Longrightarrow> be32 (of_be32 bs) = bs"
  by (cases bs rule: of_be32.cases)
     (auto simp: be32_def bit_simps intro!: bit_word_eqI)

section \<open>Arrays\<close>

text \<open>
  An array of fixed size, and \<open>memcpy\<close> into it and reads out of it: \<open>None\<close> when the range is not
  inside the array. A fresh array holds zeros; in C its bytes are not initialised, and the
  code reads only what it has written.
\<close>

definition fresh_array :: "nat \<Rightarrow> bytes" where
  "fresh_array n = replicate n 0"

definition memcpy :: "bytes \<Rightarrow> nat \<Rightarrow> bytes \<Rightarrow> bytes option" where
  "memcpy buf offset bs =
     (if length buf < offset + length bs then None
      else Some (take offset buf @ bs @ drop (offset + length bs) buf))"

definition read_bytes :: "bytes \<Rightarrow> nat \<Rightarrow> nat \<Rightarrow> bytes option" where
  "read_bytes buf offset n = (if length buf < offset + n then None else Some (take n (drop offset buf)))"

lemma length_fresh_array [simp]: "length (fresh_array n) = n"
  by (simp add: fresh_array_def)

lemma drop_fresh_array [simp]: "drop k (fresh_array n) = fresh_array (n - k)"
  by (simp add: fresh_array_def)

lemma memcpy_inside:
  "offset + length bs \<le> length buf \<Longrightarrow> memcpy buf offset bs = Some (take offset buf @ bs @ drop (offset + length bs) buf)"
  by (simp add: memcpy_def)

lemma read_inside: "offset + n \<le> length buf \<Longrightarrow> read_bytes buf offset n = Some (take n (drop offset buf))"
  by (simp add: read_bytes_def)

lemma take_min_length [simp]: "take (min (length xs) n) xs = take n xs"
  by (simp add: min_def)

lemmas array_simps = memcpy_inside read_inside

section \<open>Counters\<close>

lemma word_inc_unat: "(x :: 'a::len word) \<noteq> -1 \<Longrightarrow> unat (x + 1) = Suc (unat x)"
  using max_word_wrap [of x] unatSuc [of x] by (auto simp: add.commute)

lemma word_inc_less: "(x :: 'a::len word) \<noteq> -1 \<Longrightarrow> y \<le> x \<Longrightarrow> y < x + 1"
  by (simp add: word_less_nat_alt word_le_nat_alt word_inc_unat)

end
