(* ===== verification/Slot_Table.thy ===== *)
theory Slot_Table
  imports Prelude
begin

text \<open>
  Fixed arrays of slots with an \<open>active\<close> flag: the registry of clients, the table of file
  routes and the table of incoming files all search such an array with a loop that
  returns the first matching slot. \<open>find_slot\<close> is that loop. The locale \<open>slot_table\<close> is
  the contract of a table whose active slots carry a key: seen as a map from keys to
  slots, filling a free slot, rewriting a slot and clearing one are the usual map updates.
\<close>

section \<open>The first-match loop\<close>

primrec find_slot :: "('e \<Rightarrow> bool) \<Rightarrow> 'e list \<Rightarrow> nat option" where
  "find_slot P [] = None"
| "find_slot P (x # xs) = (if P x then Some 0 else map_option Suc (find_slot P xs))"

lemma find_slot_None: "find_slot P xs = None \<longleftrightarrow> (\<forall>x\<in>set xs. \<not> P x)"
  by (induction xs) auto

lemma find_slot_Some:
  "find_slot P xs = Some i \<longleftrightarrow> i < length xs \<and> P (xs ! i) \<and> (\<forall>j<i. \<not> P (xs ! j))"
proof (induction xs arbitrary: i)
  case Nil
  then show ?case by simp
next
  case (Cons x xs)
  show ?case
  proof (cases i)
    case 0
    then show ?thesis by (cases "find_slot P xs") auto
  next
    case (Suc k)
    then show ?thesis using Cons.IH [of k] by (auto simp: less_Suc_eq_0_disj)
  qed
qed

lemma find_slotD:
  assumes "find_slot P xs = Some i"
  shows "i < length xs" and "P (xs ! i)" and "xs ! i \<in> set xs"
  using assms by (auto simp: find_slot_Some)

lemma find_slot_cong:
  "(\<And>x. x \<in> set xs \<Longrightarrow> P x = Q x) \<Longrightarrow> find_slot P xs = find_slot Q xs"
  by (induction xs) auto

lemma find_slot_replicate [simp]:
  "find_slot P (replicate n x) = (if n = 0 \<or> \<not> P x then None else Some 0)"
  by (induction n) auto

lemma find_slot_append:
  "find_slot P (xs @ ys) =
     (case find_slot P xs of Some i \<Rightarrow> Some i | None \<Rightarrow> map_option ((+) (length xs)) (find_slot P ys))"
proof (induction xs)
  case Nil
  then show ?case by (cases "find_slot P ys") auto
next
  case (Cons x xs)
  then show ?case by (cases "find_slot P ys") (auto split: option.splits)
qed

text \<open>A match that is known to be the only one is the one the loop finds.\<close>

lemma find_slot_unique:
  assumes "i < length xs" and "P (xs ! i)" and "\<And>j. j < length xs \<Longrightarrow> P (xs ! j) \<Longrightarrow> j = i"
  shows "find_slot P xs = Some i"
proof -
  have "\<not> P (xs ! j)" if "j < i" for j
    using assms(1) assms(3) [of j] that by auto
  with assms(1,2) show ?thesis by (simp add: find_slot_Some)
qed

lemma set_update_cases:
  "x \<in> set (xs[i := e]) \<Longrightarrow> x = e \<or> (\<exists>j<length xs. j \<noteq> i \<and> x = xs ! j)"
  by (metis in_set_conv_nth length_list_update nth_list_update_eq nth_list_update_neq)

lemma ex_slot_update:
  "i < length xs \<Longrightarrow>
   (\<exists>j<length (xs[i := e]). xs[i := e] ! j = v \<and> Q) \<longleftrightarrow>
     (v = e \<and> Q) \<or> (\<exists>j<length xs. j \<noteq> i \<and> xs ! j = v \<and> Q)"
  by (metis length_list_update nth_list_update_eq nth_list_update_neq)

section \<open>Tables of keyed slots\<close>

text \<open>
  \<open>slot_lookup active key xs\<close> is the table as a map; \<open>slot_unique\<close> says that no two active
  slots carry the same key.
\<close>

definition slot_lookup :: "('e \<Rightarrow> bool) \<Rightarrow> ('e \<Rightarrow> 'k) \<Rightarrow> 'e list \<Rightarrow> 'k \<Rightarrow> 'e option" where
  "slot_lookup active key xs k = map_option ((!) xs) (find_slot (\<lambda>e. active e \<and> key e = k) xs)"

definition slot_unique :: "('e \<Rightarrow> bool) \<Rightarrow> ('e \<Rightarrow> 'k) \<Rightarrow> 'e list \<Rightarrow> bool" where
  "slot_unique active key xs \<longleftrightarrow>
     (\<forall>i<length xs. \<forall>j<length xs.
        active (xs ! i) \<longrightarrow> active (xs ! j) \<longrightarrow> key (xs ! i) = key (xs ! j) \<longrightarrow> i = j)"

locale slot_table =
  fixes active :: "'e \<Rightarrow> bool"
    and key :: "'e \<Rightarrow> 'k"
    and blank :: 'e
  assumes blank_inactive: "\<not> active blank"
begin

lemma uniqueD:
  "slot_unique active key xs \<Longrightarrow> i < length xs \<Longrightarrow> j < length xs \<Longrightarrow> active (xs ! i) \<Longrightarrow>
   active (xs ! j) \<Longrightarrow> key (xs ! i) = key (xs ! j) \<Longrightarrow> i = j"
  by (auto simp: slot_unique_def)

lemma lookup_Some:
  assumes "slot_unique active key xs"
  shows "slot_lookup active key xs k = Some e \<longleftrightarrow>
           (\<exists>i<length xs. xs ! i = e \<and> active e \<and> key e = k)" (is "?l \<longleftrightarrow> ?r")
proof
  assume ?l
  then show ?r by (auto simp: slot_lookup_def find_slot_Some)
next
  assume ?r
  then obtain i where i: "i < length xs" "xs ! i = e" "active e" "key e = k" by blast
  then have "find_slot (\<lambda>e. active e \<and> key e = k) xs = Some i"
    by (intro find_slot_unique) (auto intro: uniqueD [OF assms])
  with i show ?l by (simp add: slot_lookup_def)
qed

lemma lookup_None:
  "slot_lookup active key xs k = None \<longleftrightarrow> (\<forall>i<length xs. active (xs ! i) \<longrightarrow> key (xs ! i) \<noteq> k)"
  by (auto simp: slot_lookup_def find_slot_None all_set_conv_all_nth)

lemma lookup_eqI:
  assumes u: "slot_unique active key xs"
    and "\<And>e. (\<exists>i<length xs. xs ! i = e \<and> active e \<and> key e = k) \<longleftrightarrow> v = Some e"
  shows "slot_lookup active key xs k = v"
  using lookup_Some [OF u, of k] assms(2) by (cases v; cases "slot_lookup active key xs k") auto

lemma lookup_blank_table: "slot_lookup active key (replicate n blank) = Map.empty"
  by (auto simp: slot_lookup_def blank_inactive)

lemma unique_blank_table: "slot_unique active key (replicate n blank)"
  by (auto simp: slot_unique_def blank_inactive)

text \<open>Writing a slot keeps keys unique when the new content is inactive or its key is new.\<close>

lemma unique_update:
  assumes "slot_unique active key xs"
    and "active e \<Longrightarrow> (\<And>j. j < length xs \<Longrightarrow> j \<noteq> i \<Longrightarrow> active (xs ! j) \<Longrightarrow> key (xs ! j) \<noteq> key e)"
  shows "slot_unique active key (xs[i := e])"
  unfolding slot_unique_def
proof (intro allI impI)
  fix a b
  assume ab: "a < length (xs[i := e])" "b < length (xs[i := e])"
    and act: "active (xs[i := e] ! a)" "active (xs[i := e] ! b)"
    and k: "key (xs[i := e] ! a) = key (xs[i := e] ! b)"
  show "a = b"
  proof (cases "a = i \<or> b = i")
    case True
    then show ?thesis using ab act k assms(2) by (auto simp: nth_list_update split: if_splits) metis+
  next
    case False
    then show ?thesis using ab act k uniqueD [OF assms(1), of a b] by auto
  qed
qed

lemma unique_same_key:
  assumes u: "slot_unique active key xs" and i: "i < length xs" "active (xs ! i)"
    and e: "active e \<Longrightarrow> key e = key (xs ! i)"
  shows "slot_unique active key (xs[i := e])"
proof (rule unique_update [OF u])
  fix j
  assume "active e" "j < length xs" "j \<noteq> i" "active (xs ! j)"
  then show "key (xs ! j) \<noteq> key e" using uniqueD [OF u, of j i] i e by metis
qed

lemma unique_new_key:
  assumes u: "slot_unique active key xs" and "slot_lookup active key xs (key e) = None"
  shows "slot_unique active key (xs[i := e])"
  using assms(2) by (intro unique_update [OF u]) (simp add: lookup_None)

lemma unique_inactive:
  "slot_unique active key xs \<Longrightarrow> \<not> active e \<Longrightarrow> slot_unique active key (xs[i := e])"
  by (rule unique_update) auto

text \<open>What the map looks like after a write.\<close>

lemma lookup_fill:
  assumes u: "slot_unique active key xs" and i: "i < length xs" "\<not> active (xs ! i)"
    and e: "active e" and new: "slot_lookup active key xs (key e) = None"
  shows "slot_lookup active key (xs[i := e]) = (slot_lookup active key xs)(key e \<mapsto> e)"
proof (rule ext)
  fix k
  show "slot_lookup active key (xs[i := e]) k = ((slot_lookup active key xs)(key e \<mapsto> e)) k"
    by (rule lookup_eqI [OF unique_new_key [OF u new]])
       (unfold ex_slot_update [OF i(1)], use i e new in \<open>auto simp: lookup_Some [OF u] lookup_None\<close>)
qed

lemma lookup_rewrite:
  assumes u: "slot_unique active key xs" and i: "i < length xs" "active (xs ! i)"
    and e: "active e" "key e = key (xs ! i)"
  shows "slot_lookup active key (xs[i := e]) = (slot_lookup active key xs)(key e \<mapsto> e)"
proof (rule ext)
  fix k
  have only: "j = i" if "j < length xs" "active (xs ! j)" "key (xs ! j) = key (xs ! i)" for j
    using uniqueD [OF u, of j i] i that by auto
  show "slot_lookup active key (xs[i := e]) k = ((slot_lookup active key xs)(key e \<mapsto> e)) k"
    by (rule lookup_eqI [OF unique_same_key [OF u i e(2)]])
       (unfold ex_slot_update [OF i(1)], use i e only in \<open>auto simp: lookup_Some [OF u]\<close>)
qed

lemma lookup_clear:
  assumes u: "slot_unique active key xs" and i: "i < length xs" "active (xs ! i)"
    and e: "\<not> active e"
  shows "slot_lookup active key (xs[i := e]) = (slot_lookup active key xs)(key (xs ! i) := None)"
proof (rule ext)
  fix k
  have only: "j = i" if "j < length xs" "active (xs ! j)" "key (xs ! j) = key (xs ! i)" for j
    using uniqueD [OF u, of j i] i that by auto
  show "slot_lookup active key (xs[i := e]) k =
        ((slot_lookup active key xs)(key (xs ! i) := None)) k"
    by (rule lookup_eqI [OF unique_inactive [OF u e]])
       (unfold ex_slot_update [OF i(1)], use i e only in \<open>auto simp: lookup_Some [OF u]\<close>)
qed

text \<open>A pass over the whole table that may clear slots but gives none a new key.\<close>

lemma unique_pass:
  assumes "slot_unique active key xs"
    and "\<And>e. e \<in> set xs \<Longrightarrow> active (g e) \<Longrightarrow> active e \<and> key (g e) = key e"
  shows "slot_unique active key (map g xs)"
  using assms by (simp add: slot_unique_def)

lemma lookup_pass:
  assumes u: "slot_unique active key xs"
    and g: "\<And>e. e \<in> set xs \<Longrightarrow> active (g e) \<Longrightarrow> active e \<and> key (g e) = key e"
  shows "slot_lookup active key (map g xs) k =
    (case slot_lookup active key xs k of None \<Rightarrow> None | Some e \<Rightarrow> if active (g e) then Some (g e) else None)"
proof (rule lookup_eqI [OF unique_pass [OF u g]])
  fix e
  show "(\<exists>i<length (map g xs). map g xs ! i = e \<and> active e \<and> key e = k) \<longleftrightarrow>
    (case slot_lookup active key xs k of None \<Rightarrow> None | Some e \<Rightarrow> if active (g e) then Some (g e) else None) = Some e"
  proof (cases "slot_lookup active key xs k")
    case None
    then have "\<forall>i<length xs. active (xs ! i) \<longrightarrow> key (xs ! i) \<noteq> k" by (simp add: lookup_None)
    then show ?thesis using g nth_mem by (auto simp: None)
  next
    case (Some d)
    then obtain j where j: "j < length xs" "xs ! j = d" "active d" "key d = k" by (auto simp: lookup_Some [OF u])
    have only: "i = j" if "i < length xs" "active (g (xs ! i))" "key (g (xs ! i)) = k" for i
      using that g [of "xs ! i"] uniqueD [OF u, of i j] j by auto
    have "(\<exists>i<length xs. g (xs ! i) = e \<and> active e \<and> key e = k) \<longleftrightarrow> g d = e \<and> active e \<and> key e = k"
      using only j by metis
    then show ?thesis using Some j g [of d] nth_mem [OF j(1)] by auto
  qed
qed auto

text \<open>
  The active slots are in bijection with the keys, so the table is full exactly when it
  holds as many keys as it has slots.
\<close>

lemma dom_lookup: "dom (slot_lookup active key xs) = key ` {e \<in> set xs. active e}"
proof -
  have "slot_lookup active key xs k \<noteq> None \<longleftrightarrow> (\<exists>e\<in>set xs. active e \<and> key e = k)" for k
    by (auto simp: slot_lookup_def find_slot_None)
  then show ?thesis by (auto simp: dom_def image_iff)
qed

lemma finite_dom_lookup: "finite (dom (slot_lookup active key xs))"
  by (simp add: dom_lookup)

lemma full_iff:
  assumes u: "slot_unique active key xs"
  shows "find_slot (\<lambda>e. \<not> active e) xs = None \<longleftrightarrow> card (dom (slot_lookup active key xs)) = length xs"
proof -
  let ?A = "{i. i < length xs \<and> active (xs ! i)}"
  have "dom (slot_lookup active key xs) = (\<lambda>i. key (xs ! i)) ` ?A"
    by (auto simp: dom_lookup in_set_conv_nth)
  moreover have "inj_on (\<lambda>i. key (xs ! i)) ?A"
    by (auto simp: inj_on_def intro: uniqueD [OF u])
  ultimately have "card (dom (slot_lookup active key xs)) = card ?A"
    by (simp add: card_image)
  moreover have "card ?A = length xs \<longleftrightarrow> ?A = {..<length xs}"
  proof
    assume "card ?A = length xs"
    then show "?A = {..<length xs}" by (intro card_subset_eq) auto
  next
    assume "?A = {..<length xs}"
    then show "card ?A = length xs" by (simp only: card_lessThan)
  qed
  moreover have "?A = {..<length xs} \<longleftrightarrow> find_slot (\<lambda>e. \<not> active e) xs = None"
    by (auto simp: find_slot_None all_set_conv_all_nth)
  ultimately show ?thesis by simp
qed

end

end
