(* ===== verification/Common.thy ===== *)
theory Common
  imports Prelude "HOL-Library.Monad_Syntax"
begin

text \<open>
  \<open>common.h\<close>, \<open>common.c\<close> and the \<open>Connection\<close> of \<open>network.h\<close>: sizes, frame types, the two
  blocking transfer loops over TLS, and the length-prefixed messages and frames built on
  them.

  OpenSSL is not modelled. What its calls will answer is data of the model: a connection
  carries the bytes the peer has in flight (\<open>tls_in\<close>), the bytes accepted for sending so
  far (\<open>tls_out\<close>) and two scripts of future answers. A successful read or write moves at
  least one and at most the requested number of bytes, as documented; the script chooses
  how many. A script that runs out means that the call is still blocked, and the model
  returns \<open>None\<close>.
\<close>

section \<open>Constants and frame types\<close>

definition BUFFER_SIZE :: nat where "BUFFER_SIZE = 1024"
definition MESSAGE_MAX_SIZE :: nat where "MESSAGE_MAX_SIZE = 64 * 1024"
definition FRAME_MAX_SIZE :: nat where "FRAME_MAX_SIZE = MESSAGE_MAX_SIZE + 256"
definition USERNAME_SIZE :: nat where "USERNAME_SIZE = 32"
definition FILE_CHUNK_SIZE :: nat where "FILE_CHUNK_SIZE = 900"
definition CHAT_PUBLIC_KEY_SIZE :: nat where "CHAT_PUBLIC_KEY_SIZE = 32"
definition CHAT_NONCE_SIZE :: nat where "CHAT_NONCE_SIZE = 24"
definition CHAT_MAC_SIZE :: nat where "CHAT_MAC_SIZE = 16"
definition CHAT_OVERHEAD :: nat where
  "CHAT_OVERHEAD = 1 + CHAT_NONCE_SIZE + CHAT_PUBLIC_KEY_SIZE + CHAT_MAC_SIZE"
definition CHAT_MAX_MESSAGE_SIZE :: nat where "CHAT_MAX_MESSAGE_SIZE = MESSAGE_MAX_SIZE"

lemmas size_consts [const_simps] =
  BUFFER_SIZE_def MESSAGE_MAX_SIZE_def FRAME_MAX_SIZE_def USERNAME_SIZE_def FILE_CHUNK_SIZE_def
  CHAT_PUBLIC_KEY_SIZE_def CHAT_NONCE_SIZE_def CHAT_MAC_SIZE_def CHAT_OVERHEAD_def
  CHAT_MAX_MESSAGE_SIZE_def

text \<open>
  A C enumeration can hold any value of its integer type; \<open>FrameUnknown\<close> is a value that is
  none of the enumerators.
\<close>

datatype FrameType =
    FRAME_FILE_BEGIN | FRAME_FILE_CHUNK | FRAME_FILE_END | FRAME_FILE_ERROR | FRAME_TEXT
  | FRAME_REQUEST_PK | FRAME_PEER_PK | FRAME_CIPHERTEXT | FRAME_REGISTER_PK
  | FrameUnknown byte

fun frame_byte :: "FrameType \<Rightarrow> byte" where
  "frame_byte FRAME_FILE_BEGIN = 0"
| "frame_byte FRAME_FILE_CHUNK = 1"
| "frame_byte FRAME_FILE_END = 2"
| "frame_byte FRAME_FILE_ERROR = 3"
| "frame_byte FRAME_TEXT = 4"
| "frame_byte FRAME_REQUEST_PK = 5"
| "frame_byte FRAME_PEER_PK = 6"
| "frame_byte FRAME_CIPHERTEXT = 7"
| "frame_byte FRAME_REGISTER_PK = 8"
| "frame_byte (FrameUnknown b) = b"

definition FrameType_of :: "byte \<Rightarrow> FrameType" where
  "FrameType_of b =
     (if b = 0 then FRAME_FILE_BEGIN else if b = 1 then FRAME_FILE_CHUNK
      else if b = 2 then FRAME_FILE_END else if b = 3 then FRAME_FILE_ERROR
      else if b = 4 then FRAME_TEXT else if b = 5 then FRAME_REQUEST_PK
      else if b = 6 then FRAME_PEER_PK else if b = 7 then FRAME_CIPHERTEXT
      else if b = 8 then FRAME_REGISTER_PK else FrameUnknown b)"

fun is_valid_frame_type :: "FrameType \<Rightarrow> bool" where
  "is_valid_frame_type (FrameUnknown b) = False"
| "is_valid_frame_type _ = True"

lemma frame_byte_FrameType_of [simp]: "frame_byte (FrameType_of b) = b"
  by (simp add: FrameType_of_def)

lemma FrameType_of_frame_byte [simp]:
  "is_valid_frame_type ty \<Longrightarrow> FrameType_of (frame_byte ty) = ty"
  by (cases ty) (simp_all add: FrameType_of_def)

section \<open>Connections and the TLS parameter\<close>

record Connection =
  socket_fd :: int
  ssl :: "nat option"
  tls_io_failed :: bool

datatype ssl_error =
  SSL_ERROR_WANT_READ | SSL_ERROR_WANT_WRITE | SSL_ERROR_ZERO_RETURN | SSL_ERROR_SYSCALL | SSL_ERROR_SSL

text \<open>What a descriptor is polled for.\<close>

datatype poll_event = POLL_NONE | POLLIN | POLLOUT

text \<open>How the retried \<open>poll\<close> of \<open>send_all\<close> ends once it is not interrupted.\<close>

datatype poll_answer = PollReady | PollFailed errno | PollNval

datatype write_answer = WriteOk nat | WriteErr ssl_error "errno option" poll_answer
datatype read_answer = ReadOk nat | ReadErr ssl_error "errno option"

record Tls =
  conn :: Connection
  tls_in :: bytes
  tls_reads :: "read_answer list"
  tls_out :: bytes
  tls_writes :: "write_answer list"

text \<open>\<open>SSL_read_ex\<close>/\<open>SSL_write_ex\<close> of \<open>n\<close> bytes with answer \<open>k\<close> move this many of them.\<close>

definition tls_amount :: "nat \<Rightarrow> nat \<Rightarrow> nat" where
  "tls_amount k n = min (Suc k) n"

lemma tls_amount_bounds: "0 < n \<Longrightarrow> 0 < tls_amount k n" "tls_amount k n \<le> n"
  by (simp_all add: tls_amount_def)

section \<open>send_all and recv_all\<close>

definition wants_io :: "ssl_error \<Rightarrow> bool" where
  "wants_io e \<longleftrightarrow> e = SSL_ERROR_WANT_READ \<or> e = SSL_ERROR_WANT_WRITE"

text \<open>The error of a failed TLS call: what the system call left, or a generic reset.\<close>

definition tls_errno :: "ssl_error \<Rightarrow> errno option \<Rightarrow> errno" where
  "tls_errno e saved =
     (case saved of Some x \<Rightarrow> if e = SSL_ERROR_SYSCALL then x else ECONNRESET | None \<Rightarrow> ECONNRESET)"

definition fail_io :: "Tls \<Rightarrow> Tls" where
  "fail_io t = t\<lparr>conn := (conn t)\<lparr>tls_io_failed := True\<rparr>\<rparr>"

fun send_loop :: "write_answer list \<Rightarrow> Tls \<Rightarrow> bytes \<Rightarrow> (unit result \<times> Tls) option" where
  "send_loop ws t [] = Some (Inr (), t\<lparr>tls_writes := ws\<rparr>)"
| "send_loop [] t (b # bs) = None"
| "send_loop (WriteOk k # ws) t (b # bs) =
     (let n = tls_amount k (length (b # bs))
      in send_loop ws (t\<lparr>tls_out := tls_out t @ take n (b # bs)\<rparr>) (drop n (b # bs)))"
| "send_loop (WriteErr e saved p # ws) t (b # bs) =
     (if wants_io e
      then (case p of
              PollReady \<Rightarrow> send_loop ws t (b # bs)
            | PollFailed x \<Rightarrow> Some (Inl x, (fail_io t)\<lparr>tls_writes := ws\<rparr>)
            | PollNval \<Rightarrow> Some (Inl EBADF, (fail_io t)\<lparr>tls_writes := ws\<rparr>))
      else if e = SSL_ERROR_ZERO_RETURN then Some (Inl EPIPE, t\<lparr>tls_writes := ws\<rparr>)
      else Some (Inl (tls_errno e saved), (fail_io t)\<lparr>tls_writes := ws\<rparr>))"

definition connection_unusable :: "Connection \<Rightarrow> bool" where
  "connection_unusable c \<longleftrightarrow> ssl c = None \<or> socket_fd c < 0"

definition send_all :: "Tls \<Rightarrow> bytes \<Rightarrow> (nat result \<times> Tls) option" where
  "send_all t bs =
     (if connection_unusable (conn t) then Some (Inl EINVAL, t)
      else if tls_io_failed (conn t) then Some (Inl ECONNRESET, t)
      else map_option (\<lambda>(r, t'). (map_sum id (\<lambda>_. length bs) r, t')) (send_loop (tls_writes t) t bs))"

text \<open>
  The read loop: \<open>need\<close> bytes are still missing, \<open>acc\<close> holds what has been read. A
  successful read with nothing in flight cannot happen; the script entry is skipped.
\<close>

fun recv_loop :: "read_answer list \<Rightarrow> Tls \<Rightarrow> nat \<Rightarrow> bytes \<Rightarrow> (bytes result \<times> Tls) option" where
  "recv_loop rs t 0 acc = Some (Inr acc, t\<lparr>tls_reads := rs\<rparr>)"
| "recv_loop [] t (Suc m) acc = None"
| "recv_loop (ReadOk k # rs) t (Suc m) acc =
     (let n = tls_amount k (min (Suc m) (length (tls_in t)))
      in recv_loop rs (t\<lparr>tls_in := drop n (tls_in t)\<rparr>) (Suc m - n) (acc @ take n (tls_in t)))"
| "recv_loop (ReadErr e saved # rs) t (Suc m) acc =
     (if e = SSL_ERROR_ZERO_RETURN then Some (Inr acc, t\<lparr>tls_reads := rs\<rparr>)
      else if wants_io e
      then (if saved = Some EAGAIN
            then Some (Inl EAGAIN,
                   (if e = SSL_ERROR_WANT_WRITE then fail_io t else t)\<lparr>tls_reads := rs\<rparr>)
            else recv_loop rs t (Suc m) acc)
      else Some (Inl (tls_errno e saved), (fail_io t)\<lparr>tls_reads := rs\<rparr>))"

definition recv_all :: "Tls \<Rightarrow> nat \<Rightarrow> (bytes result \<times> Tls) option" where
  "recv_all t n =
     (if connection_unusable (conn t) then Some (Inl EINVAL, t)
      else if tls_io_failed (conn t) then Some (Inl ECONNRESET, t)
      else recv_loop (tls_reads t) t n [])"

section \<open>Length-prefixed messages and frames\<close>

text \<open>Sequencing of sends: the first failure ends the sequence.\<close>

fun send_parts :: "Tls \<Rightarrow> bytes list \<Rightarrow> (unit result \<times> Tls) option" where
  "send_parts t [] = Some (Inr (), t)"
| "send_parts t (p # ps) =
     do { (r, t') \<leftarrow> send_all t p;
          case r of Inl e \<Rightarrow> Some (Inl e, t') | Inr _ \<Rightarrow> send_parts t' ps }"

definition send_message :: "Tls \<Rightarrow> bytes \<Rightarrow> (nat result \<times> Tls) option" where
  "send_message t message =
     (if length message = 0 then Some (Inl EINVAL, t)
      else if MESSAGE_MAX_SIZE < length message then Some (Inl EMSGSIZE, t)
      else do { (r, t') \<leftarrow> send_parts t [be32 (of_nat (length message)), message];
                Some (map_sum id (\<lambda>_. length message) r, t') })"

definition send_frame :: "Tls \<Rightarrow> FrameType \<Rightarrow> bytes \<Rightarrow> (nat result \<times> Tls) option" where
  "send_frame t type payload =
     (if \<not> is_valid_frame_type type then Some (Inl EINVAL, t)
      else if FRAME_MAX_SIZE - 1 < length payload then Some (Inl EMSGSIZE, t)
      else let frame_length = 1 + length payload
           in do { (r, t') \<leftarrow> send_parts t
                     ([be32 (of_nat frame_length), [frame_byte type]] @
                      (if length payload \<noteq> 0 then [payload] else []));
                   Some (map_sum id (\<lambda>_. frame_length) r, t') })"

text \<open>
  Both receivers read a four-byte length and then that many bytes. \<open>Inr []\<close> is the return
  value 0: the peer closed the connection between two messages.
\<close>

definition receive_prefixed ::
  "Tls \<Rightarrow> (nat \<Rightarrow> bool) \<Rightarrow> (bytes \<Rightarrow> bytes result) \<Rightarrow> (bytes result \<times> Tls) option" where
  "receive_prefixed t acceptable finish =
     do { (header, t1) \<leftarrow> recv_all t 4;
          case header of
            Inl e \<Rightarrow> Some (Inl e, t1)
          | Inr h \<Rightarrow>
              if length h = 0 then Some (Inr [], t1)
              else if length h \<noteq> 4 then Some (Inl ECONNRESET, t1)
              else let len = unat (of_be32 h)
                   in if len = 0 \<or> \<not> acceptable len then Some (Inl EMSGSIZE, t1)
                      else do { (body, t2) \<leftarrow> recv_all t1 len;
                                case body of
                                  Inl e \<Rightarrow> Some (Inl e, t2)
                                | Inr b \<Rightarrow> if length b \<noteq> len then Some (Inl ECONNRESET, t2)
                                           else Some (finish b, t2) } }"

definition receive_message :: "Tls \<Rightarrow> nat \<Rightarrow> (bytes result \<times> Tls) option" where
  "receive_message t capacity =
     (if capacity < 2 then Some (Inl EINVAL, t)
      else receive_prefixed t (\<lambda>len. len \<le> MESSAGE_MAX_SIZE \<and> len < capacity) Inr)"

definition receive_frame :: "Tls \<Rightarrow> nat \<Rightarrow> (bytes result \<times> Tls) option" where
  "receive_frame t capacity =
     (if capacity = 0 then Some (Inl EINVAL, t)
      else receive_prefixed t (\<lambda>len. len \<le> FRAME_MAX_SIZE \<and> len \<le> capacity)
             (\<lambda>b. if is_valid_frame_type (FrameType_of (b ! 0)) then Inr b else Inl EPROTO))"

text \<open>\<open>format_message\<close>: the text in the buffer, or -1 when it does not fit.\<close>

definition format_message :: "nat \<Rightarrow> bytes \<Rightarrow> bytes list \<Rightarrow> bytes option" where
  "format_message capacity fmt args =
     (let (written, text) = snprintf capacity (format fmt args)
      in if capacity \<le> written then None else Some text)"

section \<open>Receive timeouts\<close>

text \<open>
  The option \<open>SO_RCVTIMEO\<close> of every socket. A failing \<open>setsockopt\<close> is only reported; all zero
  means that a receiver waits for ever.
\<close>

definition LOGIN_TIMEOUT_SEC :: nat where "LOGIN_TIMEOUT_SEC = 30"

record timeval =
  tv_sec :: nat
  tv_usec :: nat

type_synonym timeouts = "int \<Rightarrow> timeval"

definition set_timeout_for_socket :: "unit result \<Rightarrow> int \<Rightarrow> timeouts \<Rightarrow> timeouts" where
  "set_timeout_for_socket setsockopt fd opts =
     (case setsockopt of Inl _ \<Rightarrow> opts | Inr _ \<Rightarrow> opts(fd := \<lparr>tv_sec = LOGIN_TIMEOUT_SEC, tv_usec = 0\<rparr>))"

definition unset_timeout_for_socket :: "unit result \<Rightarrow> int \<Rightarrow> timeouts \<Rightarrow> timeouts" where
  "unset_timeout_for_socket setsockopt fd opts =
     (case setsockopt of Inl _ \<Rightarrow> opts | Inr _ \<Rightarrow> opts(fd := \<lparr>tv_sec = 0, tv_usec = 0\<rparr>))"

section \<open>What a call leaves of the connection\<close>

text \<open>
  A call keeps the descriptor and the TLS object; one that succeeds also keeps the failure flag.
\<close>

definition same_connection :: "'a result \<Rightarrow> Tls \<Rightarrow> Tls \<Rightarrow> bool" where
  "same_connection r t t' \<longleftrightarrow> socket_fd (conn t') = socket_fd (conn t) \<and> ssl (conn t') = ssl (conn t) \<and>
     (\<forall>v. r = Inr v \<longrightarrow> conn t' = conn t)"

lemma same_connection_trans: "conn t1 = conn t \<Longrightarrow> same_connection r t1 t' \<Longrightarrow> same_connection r t t'"
  by (simp add: same_connection_def)

lemma same_connection_map [simp]: "same_connection (map_sum id f r) t t' \<longleftrightarrow> same_connection r t t'"
  by (cases r) (auto simp: same_connection_def)

lemma same_connection_refl [simp]: "same_connection r t t"
  by (simp add: same_connection_def)

lemma send_loop_connection: "send_loop ws t bs = Some (r, t') \<Longrightarrow> same_connection r t t'"
  by (induction ws t bs rule: send_loop.induct)
     (auto simp: same_connection_def fail_io_def Let_def split: if_splits poll_answer.splits)

lemma send_all_connection: "send_all t bs = Some (r, t') \<Longrightarrow> same_connection r t t'"
  by (auto simp: send_all_def split: if_splits dest!: send_loop_connection)

lemma send_parts_connection: "send_parts t ps = Some (r, t') \<Longrightarrow> same_connection r t t'"
proof (induction ps arbitrary: t)
  case (Cons p ps)
  then obtain q t1 where q: "send_all t p = Some (q, t1)" by (auto simp: bind_eq_Some_conv)
  note c = send_all_connection [OF q]
  show ?case
  proof (cases q)
    case (Inr n)
    then show ?thesis using c Cons.IH [of t1] Cons.prems q by (auto simp: same_connection_def)
  qed (use c Cons.prems q in \<open>auto simp: same_connection_def\<close>)
qed (simp add: same_connection_def)

lemma send_message_connection: "send_message t m = Some (r, t') \<Longrightarrow> same_connection r t t'"
  by (auto simp: send_message_def bind_eq_Some_conv simp del: send_parts.simps split: if_splits
      dest!: send_parts_connection)

lemma send_frame_connection: "send_frame t type payload = Some (r, t') \<Longrightarrow> same_connection r t t'"
  by (auto simp: send_frame_def bind_eq_Some_conv Let_def simp del: send_parts.simps split: if_splits
      dest!: send_parts_connection)

lemma recv_loop_connection: "recv_loop rs t n acc = Some (r, t') \<Longrightarrow> same_connection r t t'"
  by (induction rs t n acc rule: recv_loop.induct)
     (auto simp: same_connection_def fail_io_def Let_def split: if_splits)

lemma recv_all_connection: "recv_all t n = Some (r, t') \<Longrightarrow> same_connection r t t'"
  by (auto simp: recv_all_def split: if_splits dest!: recv_loop_connection)

lemma receive_prefixed_connection:
  assumes "receive_prefixed t acceptable finish = Some (r, t')"
  shows "same_connection r t t'"
proof -
  obtain h t1 where h: "recv_all t 4 = Some (h, t1)"
    using assms by (auto simp: receive_prefixed_def bind_eq_Some_conv)
  note c = recv_all_connection [OF h]
  show ?thesis
  proof (cases h)
    case (Inr bs)
    show ?thesis
    proof (cases "t' = t1")
      case True
      then show ?thesis using c Inr by (simp add: same_connection_def)
    next
      case False
      then obtain b t2 where b: "recv_all t1 (unat (of_be32 bs)) = Some (b, t2)"
        using assms h Inr by (cases "recv_all t1 (unat (of_be32 bs))") (auto simp: receive_prefixed_def Let_def split: if_splits)
      show ?thesis using False assms h c Inr b recv_all_connection [OF b]
        by (cases b) (auto simp: receive_prefixed_def Let_def same_connection_def split: if_splits)
    qed
  qed (use assms h c in \<open>auto simp: receive_prefixed_def\<close>)
qed

lemma receive_message_connection: "receive_message t n = Some (r, t') \<Longrightarrow> same_connection r t t'"
  by (auto simp: receive_message_def same_connection_def split: if_splits dest!: receive_prefixed_connection)

lemma receive_frame_connection: "receive_frame t n = Some (r, t') \<Longrightarrow> same_connection r t t'"
  by (auto simp: receive_frame_def same_connection_def split: if_splits dest!: receive_prefixed_connection)

section \<open>What the sending side puts on the wire\<close>

text \<open>The envelope of one packet, as the protocol documents it.\<close>

definition frame_bytes :: "FrameType \<Rightarrow> bytes \<Rightarrow> bytes" where
  "frame_bytes type payload = be32 (of_nat (Suc (length payload))) @ frame_byte type # payload"

lemma send_loop_writes:
  "send_loop ws t bs = Some (r, t') \<Longrightarrow>
   \<exists>k\<le>length bs. tls_out t' = tls_out t @ take k bs \<and> (r = Inr () \<longrightarrow> k = length bs \<and> conn t' = conn t)
     \<and> tls_in t' = tls_in t \<and> tls_reads t' = tls_reads t"
proof (induction ws t bs rule: send_loop.induct)
  case (3 k ws t b bs)
  let ?n = "tls_amount k (length (b # bs))"
  obtain j where "j \<le> length (drop ?n (b # bs))"
    and "tls_out t' = tls_out t @ take ?n (b # bs) @ take j (drop ?n (b # bs))"
    and "r = Inr () \<longrightarrow> j = length (drop ?n (b # bs)) \<and> conn t' = conn t"
    and "tls_in t' = tls_in t" "tls_reads t' = tls_reads t"
    using "3.IH" [OF refl] "3.prems" by (auto simp: Let_def)
  moreover have "?n \<le> length (b # bs)" by (rule tls_amount_bounds)
  ultimately show ?case
    by (intro exI [of _ "?n + j"]) (auto simp: take_add simp del: take_append)
next
  case (4 e saved p ws t b bs)
  show ?case
  proof (cases "wants_io e \<and> p = PollReady")
    case True
    then show ?thesis using 4 by auto
  next
    case False
    then show ?thesis using "4.prems"
      by (auto intro!: exI [of _ 0] simp: fail_io_def split: if_splits poll_answer.splits)
  qed
qed auto

lemma send_all_writes:
  assumes "send_all t bs = Some (r, t')"
  shows "\<exists>k\<le>length bs. tls_out t' = tls_out t @ take k bs \<and>
           (\<forall>n. r = Inr n \<longrightarrow> k = length bs \<and> n = length bs \<and> conn t' = conn t)
           \<and> tls_in t' = tls_in t \<and> tls_reads t' = tls_reads t"
proof (cases "connection_unusable (conn t) \<or> tls_io_failed (conn t)")
  case True
  then show ?thesis using assms by (auto simp: send_all_def intro!: exI [of _ 0] split: if_splits)
next
  case False
  then obtain q where q: "send_loop (tls_writes t) t bs = Some (q, t')"
    and r: "r = map_sum id (\<lambda>_. length bs) q"
    using assms by (auto simp: send_all_def)
  from send_loop_writes [OF q] r show ?thesis by (cases q) auto
qed

lemma send_parts_writes:
  "send_parts t ps = Some (r, t') \<Longrightarrow>
   \<exists>k\<le>length (concat ps). tls_out t' = tls_out t @ take k (concat ps) \<and>
     (r = Inr () \<longrightarrow> k = length (concat ps) \<and> conn t' = conn t)
     \<and> tls_in t' = tls_in t \<and> tls_reads t' = tls_reads t"
proof (induction ps arbitrary: t)
  case Nil
  then show ?case by auto
next
  case (Cons p ps)
  then obtain q t1 where q: "send_all t p = Some (q, t1)"
    and rest: "(case q of Inl e \<Rightarrow> Some (Inl e, t1) | Inr _ \<Rightarrow> send_parts t1 ps) = Some (r, t')"
    by (auto split: Option.bind_splits)
  from send_all_writes [OF q] obtain k where k: "k \<le> length p" "tls_out t1 = tls_out t @ take k p"
    "\<And>n. q = Inr n \<Longrightarrow> k = length p \<and> conn t1 = conn t" "tls_in t1 = tls_in t" "tls_reads t1 = tls_reads t"
    by blast
  show ?case
  proof (cases q)
    case (Inl e)
    then show ?thesis using k rest by (intro exI [of _ k]) auto
  next
    case (Inr n)
    then obtain j where "j \<le> length (concat ps)" "tls_out t' = tls_out t1 @ take j (concat ps)"
      "r = Inr () \<longrightarrow> j = length (concat ps) \<and> conn t' = conn t1" "tls_in t' = tls_in t1"
      "tls_reads t' = tls_reads t1"
      using Cons.IH [of t1] rest by auto
    then show ?thesis using k(2,4,5) k(3) [OF Inr] by (intro exI [of _ "length p + j"]) auto
  qed
qed

lemma send_frame_writes:
  assumes "send_frame t type payload = Some (r, t')"
  shows "case r of
           Inl _ \<Rightarrow> \<exists>k. tls_out t' = tls_out t @ take k (frame_bytes type payload)
         | Inr n \<Rightarrow> n = 1 + length payload \<and> tls_out t' = tls_out t @ frame_bytes type payload"
proof (cases "is_valid_frame_type type \<and> \<not> FRAME_MAX_SIZE - 1 < length payload")
  case False
  then show ?thesis using assms
    by (auto simp: send_frame_def const_simps split: if_splits intro: exI [of _ 0])
next
  case True
  let ?ps = "[be32 (of_nat (1 + length payload)), [frame_byte type]] @
             (if length payload \<noteq> 0 then [payload] else [])"
  have concat: "concat ?ps = frame_bytes type payload" by (simp add: frame_bytes_def)
  from True assms obtain q where q: "send_parts t ?ps = Some (q, t')"
    and r: "r = map_sum id (\<lambda>_. 1 + length payload) q"
    by (auto simp: send_frame_def Let_def split: Option.bind_splits simp del: send_parts.simps)
  from send_parts_writes [OF q] show ?thesis unfolding concat r by (cases q) auto
qed

text \<open>
  A frame that is sent puts its envelope on the wire and nothing else; a send that
  fails leaves a prefix of the envelope there, so a stream never carries bytes of two
  frames mixed.
\<close>

lemma send_frame_wire:
  assumes "send_frame t type payload = Some (r, t')"
  shows "case r of
           Inl _ \<Rightarrow> \<exists>k. tls_out t' = tls_out t @ take k (frame_bytes type payload)
         | Inr n \<Rightarrow> n = 1 + length payload \<and> tls_out t' = tls_out t @ frame_bytes type payload"
  by (rule send_frame_writes [OF assms])

definition example_tls :: Tls where
  "example_tls = \<lparr>conn = \<lparr>socket_fd = 3, ssl = Some 0, tls_io_failed = False\<rparr>,
     tls_in = [0, 0, 0, 2, 4, 65, 99], tls_reads = [ReadOk 2, ReadOk 9, ReadOk 0, ReadOk 0],
     tls_out = [], tls_writes = [WriteOk 1, WriteOk 5, WriteOk 0, WriteOk 3]\<rparr>"

lemma example_tls_send:
  "send_frame example_tls FRAME_TEXT [65] =
     Some (Inr 2, example_tls\<lparr>tls_out := [0, 0, 0, 2, 4, 65], tls_writes := []\<rparr>)"
  by (simp add: send_frame_def send_all_def example_tls_def connection_unusable_def tls_amount_def
      const_simps be32_def)

lemma send_frame_wire_example:
  "(2 :: nat) = 1 + length [65 :: byte] \<and>
   [0, 0, 0, 2, 4, 65] = tls_out example_tls @ frame_bytes FRAME_TEXT [65]"
  using send_frame_wire [OF example_tls_send] by simp

section \<open>What the receiving side takes from the wire\<close>

lemma recv_loop_consumes:
  "recv_loop rs t n acc = Some (Inr b, t') \<Longrightarrow>
   \<exists>d. b = acc @ d \<and> tls_in t = d @ tls_in t' \<and> length d \<le> n"
proof (induction rs t n acc rule: recv_loop.induct)
  case (3 k rs t m acc)
  let ?n = "tls_amount k (min (Suc m) (length (tls_in t)))"
  obtain d where "b = (acc @ take ?n (tls_in t)) @ d" "drop ?n (tls_in t) = d @ tls_in t'"
    "length d \<le> Suc m - ?n"
    using "3.IH" [OF refl] "3.prems" by (auto simp: Let_def)
  moreover have "?n \<le> Suc m" "length (take ?n (tls_in t)) \<le> ?n"
    using tls_amount_bounds(2) [of k "min (Suc m) (length (tls_in t))"] by auto
  ultimately show ?case
    by (intro exI [of _ "take ?n (tls_in t) @ d"])
       (metis add_le_mono append.assoc append_take_drop_id le_add_diff_inverse length_append)
next
  case (4 e saved rs t m acc)
  then show ?case by (auto split: if_splits)
qed auto

lemma recv_loop_ok:
  "0 < n \<Longrightarrow> recv_loop (ReadOk k # rs) t n acc =
     (let a = tls_amount k (min n (length (tls_in t)))
      in recv_loop rs (t\<lparr>tls_in := drop a (tls_in t)\<rparr>) (n - a) (acc @ take a (tls_in t)))"
  by (cases n) simp_all

lemma recv_all_consumes:
  "recv_all t n = Some (Inr b, t') \<Longrightarrow> tls_in t = b @ tls_in t' \<and> length b \<le> n"
  by (auto simp: recv_all_def split: if_splits dest!: recv_loop_consumes)

text \<open>
  However the bytes in flight are cut into TLS records, a read of \<open>n\<close> available bytes
  returns exactly these, after at most \<open>n\<close> successful calls.
\<close>

lemma recv_loop_delivers:
  "n \<le> length (tls_in t) \<Longrightarrow> n \<le> length ks \<Longrightarrow>
   \<exists>ks'. length ks - n \<le> length ks' \<and>
     recv_loop (map ReadOk ks @ rs) t n acc =
       Some (Inr (acc @ take n (tls_in t)),
             t\<lparr>tls_in := drop n (tls_in t), tls_reads := map ReadOk ks' @ rs\<rparr>)"
proof (induction ks arbitrary: n t acc)
  case Nil
  then show ?case by (auto intro: exI [of _ "[]"])
next
  case (Cons k ks)
  show ?case
  proof (cases n)
    case 0
    then show ?thesis by (auto intro!: exI [of _ "k # ks"])
  next
    case (Suc m)
    let ?a = "tls_amount k n" and ?t = "t\<lparr>tls_in := drop (tls_amount k n) (tls_in t)\<rparr>"
    have a: "0 < ?a" "?a \<le> n" using Suc by (simp_all add: tls_amount_def)
    have min: "min n (length (tls_in t)) = n" using Cons.prems(1) by simp
    have "n - ?a \<le> length (tls_in ?t)" "n - ?a \<le> length ks" using Cons.prems a by auto
    from Cons.IH [OF this, of "acc @ take ?a (tls_in t)"] obtain ks' where
      ks': "length ks - (n - ?a) \<le> length ks'"
        "recv_loop (map ReadOk ks @ rs) ?t (n - ?a) (acc @ take ?a (tls_in t)) =
         Some (Inr ((acc @ take ?a (tls_in t)) @ take (n - ?a) (drop ?a (tls_in t))),
               t\<lparr>tls_in := drop (n - ?a) (drop ?a (tls_in t)), tls_reads := map ReadOk ks' @ rs\<rparr>)"
      by auto
    have "take ?a (tls_in t) @ take (n - ?a) (drop ?a (tls_in t)) = take n (tls_in t)"
      using a(2) by (metis le_add_diff_inverse take_add)
    with ks' a min Suc show ?thesis by (intro exI [of _ ks']) (auto simp: Let_def)
  qed
qed

definition tls_usable :: "Connection \<Rightarrow> bool" where
  "tls_usable c \<longleftrightarrow> \<not> connection_unusable c \<and> \<not> tls_io_failed c"

lemma recv_all_delivers:
  assumes "tls_usable (conn t)" "tls_reads t = map ReadOk ks @ rs" "n \<le> length (tls_in t)" "n \<le> length ks"
  shows "\<exists>ks'. length ks - n \<le> length ks' \<and>
     recv_all t n =
       Some (Inr (take n (tls_in t)), t\<lparr>tls_in := drop n (tls_in t), tls_reads := map ReadOk ks' @ rs\<rparr>)"
  using recv_loop_delivers [OF assms(3,4), of rs "[]"] assms(1,2)
  by (simp add: recv_all_def tls_usable_def)

lemma receive_prefixed_delivers:
  assumes t: "tls_usable (conn t)" "tls_reads t = map ReadOk ks @ rs"
    and stream: "tls_in t = be32 (of_nat (length b)) @ b @ rest"
    and len: "0 < length b" "length b < 2 ^ 32" "acceptable (length b)" "4 + length b \<le> length ks"
  shows "\<exists>t'. receive_prefixed t acceptable finish = Some (finish b, t') \<and> tls_in t' = rest"
proof -
  have "4 \<le> length (tls_in t)" "4 \<le> length ks" using stream len by auto
  from recv_all_delivers [OF t this] obtain ks' where ks': "length ks - 4 \<le> length ks'"
    and h: "recv_all t 4 = Some (Inr (be32 (of_nat (length b))),
              t\<lparr>tls_in := b @ rest, tls_reads := map ReadOk ks' @ rs\<rparr>)"
    (is "_ = Some (_, ?t1)")
    by (auto simp: stream)
  have "\<exists>ks''. recv_all ?t1 (length b) = Some (Inr b, ?t1\<lparr>tls_in := rest, tls_reads := map ReadOk ks'' @ rs\<rparr>)"
  proof -
    have "length b \<le> length ks'" using ks' len by linarith
    then show ?thesis using recv_all_delivers [of ?t1 ks' rs "length b"] t by auto
  qed
  moreover have "unat (of_be32 (be32 (of_nat (length b)))) = length b"
    using len(2) of_be32_be32 [of "of_nat (length b)" "[]"] by (simp add: unat_of_nat)
  ultimately show ?thesis using len h by (auto simp: receive_prefixed_def Let_def)
qed

lemma receive_prefixed_sound:
  assumes "receive_prefixed t acceptable finish = Some (Inr b, t')" and "b \<noteq> []"
  shows "\<exists>d. finish d = Inr b \<and> 0 < length d \<and> acceptable (length d) \<and>
             tls_in t = be32 (of_nat (length d)) @ d @ tls_in t'"
proof -
  from assms obtain h t1 d where h: "recv_all t 4 = Some (Inr h, t1)" "length h = 4"
    and d: "recv_all t1 (unat (of_be32 h)) = Some (Inr d, t')"
      "length d = unat (of_be32 h)" "finish d = Inr b"
    and ok: "unat (of_be32 h) \<noteq> 0" "acceptable (unat (of_be32 h))"
    by (auto simp: receive_prefixed_def Let_def split: Option.bind_splits sum.splits if_splits)
  have "h = be32 (of_nat (length d))"
    using be32_of_be32 [OF h(2)] d(2) by simp
  then show ?thesis
    using d ok recv_all_consumes [OF h(1)] recv_all_consumes [OF d(1)] by (intro exI [of _ d]) auto
qed

text \<open>
  C31. Every frame \<open>receive_frame\<close> returns is the next envelope of the stream: a length that
  is non-zero, at most \<open>FRAME_MAX_SIZE\<close> and within the caller's buffer, then exactly that
  many bytes, the first of which is a valid frame type.
\<close>

theorem receive_frame_sound:
  assumes "receive_frame t capacity = Some (Inr frame, t')" and "frame \<noteq> []"
  shows "tls_in t = be32 (of_nat (length frame)) @ frame @ tls_in t' \<and>
         length frame \<le> FRAME_MAX_SIZE \<and> length frame \<le> capacity \<and>
         is_valid_frame_type (FrameType_of (frame ! 0))"
proof -
  have "capacity \<noteq> 0" using assms(1) by (auto simp: receive_frame_def split: if_splits)
  with assms(1) have "receive_prefixed t (\<lambda>len. len \<le> FRAME_MAX_SIZE \<and> len \<le> capacity)
      (\<lambda>b. if is_valid_frame_type (FrameType_of (b ! 0)) then Inr b else Inl EPROTO)
      = Some (Inr frame, t')"
    by (simp add: receive_frame_def)
  from receive_prefixed_sound [OF this assms(2)] show ?thesis by (auto split: if_splits)
qed

lemma example_tls_receive:
  "receive_frame example_tls 10 = Some (Inr [4, 65], example_tls\<lparr>tls_in := [99], tls_reads := []\<rparr>)"
  by (simp add: receive_frame_def receive_prefixed_def example_tls_def recv_all_def recv_loop_ok
      connection_unusable_def tls_amount_def const_simps FrameType_of_def)

theorem receive_frame_sound_witness:
  "tls_in example_tls = be32 (of_nat (length [4, 65 :: byte])) @ [4, 65] @ [99] \<and>
   length [4, 65 :: byte] \<le> FRAME_MAX_SIZE"
  using receive_frame_sound [OF example_tls_receive] by simp

text \<open>
  C9. A frame one side sends is the frame the other side receives, however TLS cuts the
  stream into records and whatever follows in the stream.
\<close>

theorem frame_roundtrip:
  assumes sent: "send_frame s type payload = Some (Inr n, s')" "tls_out s = []"
    and r: "tls_usable (conn r)" "tls_in r = tls_out s' @ rest" "tls_reads r = map ReadOk ks @ rs"
    and size: "n \<le> capacity" "4 + n \<le> length ks"
  shows "\<exists>r'. receive_frame r capacity = Some (Inr (frame_byte type # payload), r') \<and> tls_in r' = rest"
proof -
  from sent(1) have ok: "is_valid_frame_type type" "length payload < FRAME_MAX_SIZE"
    by (auto simp: send_frame_def const_simps split: if_splits)
  from send_frame_writes [OF sent(1)] sent(2)
  have n: "n = Suc (length payload)" and out: "tls_out s' = frame_bytes type payload" by auto
  let ?b = "frame_byte type # payload"
  let ?f = "\<lambda>b. if is_valid_frame_type (FrameType_of (b ! 0)) then Inr b else (Inl EPROTO :: bytes result)"
  have "\<exists>r'. receive_prefixed r (\<lambda>len. len \<le> FRAME_MAX_SIZE \<and> len \<le> capacity) ?f
          = Some (?f ?b, r') \<and> tls_in r' = rest"
    by (rule receive_prefixed_delivers [OF r(1,3)])
       (use r(2) out ok(2) n size in \<open>auto simp: frame_bytes_def const_simps\<close>)
  then show ?thesis using ok n size by (auto simp: receive_frame_def)
qed

theorem frame_roundtrip_witness:
  "\<exists>r'. receive_frame (example_tls\<lparr>tls_in := [0, 0, 0, 2, 4, 65, 7], tls_reads := map ReadOk [2, 0, 0, 1, 0, 0]\<rparr>) 64 =
          Some (Inr (frame_byte FRAME_TEXT # [65]), r') \<and> tls_in r' = [7]"
  by (rule frame_roundtrip [OF example_tls_send, where ks = "[2, 0, 0, 1, 0, 0]" and rs = "[]"])
     (simp_all add: example_tls_def tls_usable_def connection_unusable_def)

end
