(* ===== verification/Server_Messages.thy ===== *)
theory Server_Messages
  imports Common
begin

text \<open>
  \<open>server_messages.c\<close>: the message templates, and what the used ones expand to. A line
  feed at the end of a template is the byte 10.
\<close>

definition MSG_USER_NOT_FOUND :: bytes where
  "MSG_USER_NOT_FOUND = str ''User %s not found'' @ [10]"

definition MSG_UNKNOWN_COMMAND :: bytes where
  "MSG_UNKNOWN_COMMAND = str ''Unknown command: %s'' @ [10]"

definition MSG_INVALID_COMMAND :: bytes where
  "MSG_INVALID_COMMAND = str ''Invalid command format: %s'' @ [10]"

definition MSG_INVALID_USERNAME :: bytes where
  "MSG_INVALID_USERNAME = str ''Invalid username: %s'' @ [10]"

definition MSG_USERNAME_TAKEN :: bytes where
  "MSG_USERNAME_TAKEN = str ''Username %s is already taken'' @ [10]"

definition MSG_WELCOME :: bytes where
  "MSG_WELCOME = str ''Welcome to CipherChat, %s!'' @ [10]"

definition MSG_BROADCAST :: bytes where
  "MSG_BROADCAST = str ''Broadcast from %s: %s'' @ [10]"

definition MSG_PRIVATE_MESSAGE :: bytes where
  "MSG_PRIVATE_MESSAGE = str ''Private message from %s: %s'' @ [10]"

definition MSG_CLIENT_DISCONNECTED :: bytes where
  "MSG_CLIENT_DISCONNECTED = str ''Client %s disconnected'' @ [10]"

definition MSG_SERVER_SHUTDOWN :: bytes where
  "MSG_SERVER_SHUTDOWN = str ''Server is shutting down'' @ [10]"

definition MSG_CLIENT_CONNECTED :: bytes where
  "MSG_CLIENT_CONNECTED = str ''Client %s connected'' @ [10]"

definition MSG_CLIENT_LIST :: bytes where
  "MSG_CLIENT_LIST = str ''Connected clients:''"

definition MSG_TIMEOUT :: bytes where
  "MSG_TIMEOUT = str ''Connection timed out'' @ [10]"

definition MSG_CONNECTION_CLOSED :: bytes where
  "MSG_CONNECTION_CLOSED = str ''Connection closed by peer'' @ [10]"

definition MSG_LOGIN_FAILED :: bytes where
  "MSG_LOGIN_FAILED = str ''Login failed: %s'' @ [10]"

definition MSG_LOGIN_SUCCESS :: bytes where
  "MSG_LOGIN_SUCCESS = str ''Login successful: %s'' @ [10]"

definition MSG_LOGOUT_SUCCESS :: bytes where
  "MSG_LOGOUT_SUCCESS = str ''Logout successful: %s'' @ [10]"

definition MSG_LOGOUT_FAILED :: bytes where
  "MSG_LOGOUT_FAILED = str ''Logout failed: %s'' @ [10]"

definition MSG_INVALID_MESSAGE :: bytes where
  "MSG_INVALID_MESSAGE = str ''Invalid message format: %s'' @ [10]"

definition MSG_MESSAGE_TOO_LONG :: bytes where
  "MSG_MESSAGE_TOO_LONG = str ''Message too long: %s'' @ [10]"

definition MSG_SERVER_ERROR :: bytes where
  "MSG_SERVER_ERROR = str ''Server error: %s'' @ [10]"

definition MSG_CLIENT_ERROR :: bytes where
  "MSG_CLIENT_ERROR = str ''Client error: %s'' @ [10]"

definition MSG_UNKNOWN_ERROR :: bytes where
  "MSG_UNKNOWN_ERROR = str ''Unknown error: %s'' @ [10]"

definition MSG_COMMAND_NOT_IMPLEMENTED :: bytes where
  "MSG_COMMAND_NOT_IMPLEMENTED = str ''Command not implemented: %s'' @ [10]"

definition MSG_COMMAND_EXECUTION_FAILED :: bytes where
  "MSG_COMMAND_EXECUTION_FAILED = str ''Command execution failed: %s'' @ [10]"

definition HELP_MESSAGE :: bytes where
  "HELP_MESSAGE =
     str ''Available commands:'' @ [10] @
     str ''  /msg <username> <message>  Send a private message'' @ [10] @
     str ''  /broadcast <message>       Send a message to everyone'' @ [10] @
     str ''  /file <username> <path>    Send a file privately'' @ [10] @
     str ''  /list                      List connected users'' @ [10] @
     str ''  /help                      Display this help'' @ [10] @
     str ''  /quit                      Disconnect from the server'' @ [10]"

section \<open>Expansions\<close>

lemma format_plain: "37 \<notin> set s \<Longrightarrow> format s args = s"
  by (induction s args rule: format.induct) auto

lemma format_user_not_found [simp]:
  "format MSG_USER_NOT_FOUND [u] = str ''User '' @ u @ str '' not found'' @ [10]"
  by (simp add: MSG_USER_NOT_FOUND_def)

lemma format_unknown_command [simp]:
  "format MSG_UNKNOWN_COMMAND [c] = str ''Unknown command: '' @ c @ [10]"
  by (simp add: MSG_UNKNOWN_COMMAND_def)

lemma format_invalid_command [simp]:
  "format MSG_INVALID_COMMAND [c] = str ''Invalid command format: '' @ c @ [10]"
  by (simp add: MSG_INVALID_COMMAND_def)

lemma format_welcome [simp]:
  "format MSG_WELCOME [u] = str ''Welcome to CipherChat, '' @ u @ str ''!'' @ [10]"
  by (simp add: MSG_WELCOME_def)

lemma format_broadcast [simp]:
  "format MSG_BROADCAST [u, m] = str ''Broadcast from '' @ u @ str '': '' @ m @ [10]"
  by (simp add: MSG_BROADCAST_def)

lemma format_private_message [simp]:
  "format MSG_PRIVATE_MESSAGE [u, m] = str ''Private message from '' @ u @ str '': '' @ m @ [10]"
  by (simp add: MSG_PRIVATE_MESSAGE_def)

lemma help_message_nonempty [simp]: "HELP_MESSAGE \<noteq> []" "length HELP_MESSAGE < 1024"
  by (simp_all add: HELP_MESSAGE_def)

end
