(* ===== verification/Client_Manager.thy ===== *)
theory Client_Manager
  imports Slot_Table Server_Messages
begin

text \<open>
  \<open>client_manager.h\<close> and \<open>client_manager.c\<close>: the registry of logged-in clients, their
  public keys and their bounded queues of outgoing frames.

  \<^item> \<open>Registry\<close> holds the static state of the file: the array \<open>clients\<close> and the counter
    \<open>next_client_id\<close>. Every C function takes \<open>clients_mutex\<close> around its work (the two that
    send to several clients take it once per access); a definition is one such section, and
    the interleaving of threads is an arbitrary sequence of them.
  \<^item> The linked list of outgoing frames is the list of its elements, in order; \<open>Outgoing_List\<close> has
    the pointers.
  \<^item> The operating system is a parameter: \<open>Os\<close> says how the next allocation and the next
    \<open>eventfd\<close> calls end. The \<open>eventfd_write\<close> loop repeats interrupted calls; its entry is
    the error it ends with, other than \<open>EAGAIN\<close>, which the counter of the descriptor
    decides.
\<close>

section \<open>State\<close>

definition MAX_CLIENTS :: nat where "MAX_CLIENTS = 100"
definition MAX_OUTGOING_FRAMES :: nat where "MAX_OUTGOING_FRAMES = 128"

lemmas registry_consts [const_simps] = MAX_CLIENTS_def MAX_OUTGOING_FRAMES_def

type_synonym ClientId = u64

abbreviation INVALID_CLIENT_ID :: ClientId where "INVALID_CLIENT_ID \<equiv> 0"

record OutgoingFrame =
  of_type :: FrameType
  of_payload :: bytes

record Client =
  c_connection :: Connection
  c_wake_fd :: int
  c_username :: bytes
  c_active :: bool
  c_ready :: bool
  c_id :: ClientId
  c_public_key :: bytes
  c_has_public_key :: bool
  c_outgoing :: "OutgoingFrame list"
  c_outgoing_count :: nat
  c_outgoing_failed :: bool

record Os =
  os_malloc :: "nat \<Rightarrow> bool"
  os_eventfd :: "nat \<Rightarrow> int result"
  os_eventfd_write :: "nat \<Rightarrow> errno option"
  os_clock :: nat
  os_counter :: "int \<Rightarrow> nat"

record Registry =
  clients :: "Client list"
  next_client_id :: ClientId
  os :: Os

definition no_connection :: Connection where
  "no_connection = \<lparr>socket_fd = -1, ssl = None, tls_io_failed = False\<rparr>"

definition blank_client :: Client where
  "blank_client = \<lparr>c_connection = no_connection, c_wake_fd = -1, c_username = [], c_active = False,
     c_ready = False, c_id = INVALID_CLIENT_ID, c_public_key = replicate CHAT_PUBLIC_KEY_SIZE 0,
     c_has_public_key = False, c_outgoing = [], c_outgoing_count = 0, c_outgoing_failed = False\<rparr>"

section \<open>The operating system calls\<close>

definition tick :: "Registry \<Rightarrow> Registry" where
  "tick reg = reg\<lparr>os := (os reg)\<lparr>os_clock := Suc (os_clock (os reg))\<rparr>\<rparr>"

definition malloc :: "Registry \<Rightarrow> bool \<times> Registry" where
  "malloc reg = (os_malloc (os reg) (os_clock (os reg)), tick reg)"

definition eventfd :: "Registry \<Rightarrow> int result \<times> Registry" where
  "eventfd reg =
     (case os_eventfd (os reg) (os_clock (os reg)) of
        Inl e \<Rightarrow> (Inl e, tick reg)
      | Inr fd \<Rightarrow> (Inr fd, (tick reg)\<lparr>os := (os (tick reg))\<lparr>os_counter := (os_counter (os reg))(fd := 0)\<rparr>\<rparr>))"

datatype wake_answer = Woken | WakePending | WakeFailed errno

text \<open>\<open>eventfd_write (fd, 1)\<close>: the largest counter value is \<open>2^64 - 2\<close>; at it the call gives \<open>EAGAIN\<close>.\<close>

definition eventfd_write :: "int \<Rightarrow> Registry \<Rightarrow> wake_answer \<times> Registry" where
  "eventfd_write fd reg =
     (case os_eventfd_write (os reg) (os_clock (os reg)) of
        Some e \<Rightarrow> (WakeFailed e, tick reg)
      | None \<Rightarrow>
          if 2 ^ 64 - 2 \<le> os_counter (os reg) fd then (WakePending, tick reg)
          else (Woken, (tick reg)\<lparr>os := (os (tick reg))
                  \<lparr>os_counter := (os_counter (os reg))(fd := Suc (os_counter (os reg) fd))\<rparr>\<rparr>))"

section \<open>Registration\<close>

definition username_is_valid :: "bytes \<Rightarrow> bool" where
  "username_is_valid username \<longleftrightarrow>
     \<not> (length username = 0 \<or> USERNAME_SIZE \<le> length username) \<and>
     list_all (\<lambda>character. \<not> (iscntrl character \<or> isspace character)) username"

definition allocate_client_id :: "Registry \<Rightarrow> ClientId \<times> Registry" where
  "allocate_client_id reg =
     (let client_id = next_client_id reg; reg1 = reg\<lparr>next_client_id := client_id + 1\<rparr>
      in if client_id = INVALID_CLIENT_ID
         then (next_client_id reg1, reg1\<lparr>next_client_id := next_client_id reg1 + 1\<rparr>)
         else (client_id, reg1))"

definition init_clients :: "Registry \<Rightarrow> Registry" where
  "init_clients reg =
     reg\<lparr>clients := map (\<lambda>c. c\<lparr>c_connection := no_connection, c_wake_fd := -1, c_username := [],
           c_active := False, c_ready := False, c_id := INVALID_CLIENT_ID, c_has_public_key := False,
           c_outgoing := [], c_outgoing_count := 0, c_outgoing_failed := False\<rparr>) (clients reg),
         next_client_id := 1\<rparr>"

text \<open>The static storage of the file when the program starts: all bytes zero, the counter 1.\<close>

definition static_client :: Client where
  "static_client = \<lparr>c_connection = \<lparr>socket_fd = 0, ssl = None, tls_io_failed = False\<rparr>, c_wake_fd = 0,
     c_username = [], c_active = False, c_ready = False, c_id = 0,
     c_public_key = replicate CHAT_PUBLIC_KEY_SIZE 0, c_has_public_key = False, c_outgoing = [],
     c_outgoing_count = 0, c_outgoing_failed = False\<rparr>"

definition static_registry :: "Os \<Rightarrow> Registry" where
  "static_registry oracle =
     \<lparr>clients = replicate MAX_CLIENTS static_client, next_client_id = 1, os = oracle\<rparr>"

text \<open>
  The one pass of \<open>add_client\<close> over the array: \<open>None\<close> when the name is taken, otherwise the
  first free index, if any.
\<close>

fun scan_clients :: "bytes \<Rightarrow> Client list \<Rightarrow> nat \<Rightarrow> nat option \<Rightarrow> nat option option" where
  "scan_clients username [] i free_index = Some free_index"
| "scan_clients username (c # cs) i free_index =
     (if c_active c \<and> c_username c = username then None
      else scan_clients username cs (Suc i)
             (if \<not> c_active c \<and> free_index = None then Some i else free_index))"

definition add_client :: "Registry \<Rightarrow> Connection \<Rightarrow> bytes \<Rightarrow> Registry \<times> nat result" where
  "add_client reg connection username =
     (if socket_fd connection < 0 \<or> ssl connection = None \<or> \<not> username_is_valid username
      then (reg, Inl EINVAL)
      else case scan_clients username (clients reg) 0 None of
             None \<Rightarrow> (reg, Inl EEXIST)
           | Some None \<Rightarrow> (reg, Inl ENOSPC)
           | Some (Some free_index) \<Rightarrow>
               (case eventfd reg of
                  (Inl e, reg1) \<Rightarrow> (reg1, Inl e)
                | (Inr wake_fd, reg1) \<Rightarrow>
                    let (client_id, reg2) = allocate_client_id reg1;
                        c = clients reg2 ! free_index
                    in (reg2\<lparr>clients := (clients reg2)[free_index :=
                          c\<lparr>c_wake_fd := wake_fd, c_outgoing_failed := False, c_connection := connection,
                            c_active := True, c_ready := False, c_id := client_id,
                            c_has_public_key := False, c_username := username\<rparr>]\<rparr>,
                        Inr free_index)))"

definition activate_client :: "Registry \<Rightarrow> int \<Rightarrow> Registry \<times> unit result" where
  "activate_client reg index =
     (if index < 0 \<or> int MAX_CLIENTS \<le> index then (reg, Inl EINVAL)
      else let i = nat index; c = clients reg ! i
           in if \<not> c_active c then (reg, Inl ENOENT)
              else (reg\<lparr>clients := (clients reg)[i := c\<lparr>c_ready := True\<rparr>]\<rparr>, Inr ()))"

text \<open>
  \<open>remove_client\<close> empties the slot under the lock; what it then releases outside the lock
  (descriptor, queued frames, connection) is the second result.
\<close>

definition remove_client ::
  "Registry \<Rightarrow> int \<Rightarrow> Registry \<times> (int \<times> OutgoingFrame list \<times> Connection) option" where
  "remove_client reg index =
     (if index < 0 \<or> int MAX_CLIENTS \<le> index then (reg, None)
      else let i = nat index; c = clients reg ! i
           in if \<not> c_active c then (reg, None)
              else (reg\<lparr>clients := (clients reg)[i :=
                      c\<lparr>c_wake_fd := -1, c_connection := no_connection, c_username := [], c_active := False,
                        c_ready := False, c_id := INVALID_CLIENT_ID, c_has_public_key := False,
                        c_public_key := replicate CHAT_PUBLIC_KEY_SIZE 0, c_outgoing := [],
                        c_outgoing_count := 0, c_outgoing_failed := False\<rparr>]\<rparr>,
                    Some (c_wake_fd c, c_outgoing c, c_connection c)))"

definition get_client_id :: "Registry \<Rightarrow> int \<Rightarrow> ClientId" where
  "get_client_id reg index =
     (if index < 0 \<or> int MAX_CLIENTS \<le> index then INVALID_CLIENT_ID
      else let c = clients reg ! nat index in if c_active c then c_id c else INVALID_CLIENT_ID)"

definition find_client_id :: "Registry \<Rightarrow> bytes \<Rightarrow> ClientId" where
  "find_client_id reg username =
     (case find_slot (\<lambda>c. c_active c \<and> c_ready c \<and> c_username c = username) (clients reg) of
        Some i \<Rightarrow> c_id (clients reg ! i)
      | None \<Rightarrow> INVALID_CLIENT_ID)"

section \<open>Public keys\<close>

definition register_client_public_key :: "Registry \<Rightarrow> ClientId \<Rightarrow> bytes \<Rightarrow> Registry \<times> unit result" where
  "register_client_public_key reg client_id key =
     (case find_slot (\<lambda>c. c_active c \<and> c_ready c \<and> c_id c = client_id) (clients reg) of
        None \<Rightarrow> (reg, Inl ENOENT)
      | Some i \<Rightarrow>
          let c = clients reg ! i
          in if c_has_public_key c \<and> c_public_key c \<noteq> take CHAT_PUBLIC_KEY_SIZE key
             then (reg, Inl EINVAL)
             else (reg\<lparr>clients := (clients reg)[i :=
                     c\<lparr>c_public_key := take CHAT_PUBLIC_KEY_SIZE key, c_has_public_key := True\<rparr>]\<rparr>, Inr ()))"

definition get_client_public_key :: "Registry \<Rightarrow> ClientId \<Rightarrow> bytes result" where
  "get_client_public_key reg client_id =
     (case find_slot (\<lambda>c. c_active c \<and> c_ready c \<and> c_id c = client_id \<and> c_has_public_key c) (clients reg) of
        None \<Rightarrow> Inl ENOENT
      | Some i \<Rightarrow> Inr (c_public_key (clients reg ! i)))"

section \<open>Outgoing queues\<close>

definition queue_frame_to_client_id ::
  "Registry \<Rightarrow> ClientId \<Rightarrow> FrameType \<Rightarrow> bytes \<Rightarrow> Registry \<times> unit result" where
  "queue_frame_to_client_id reg client_id type payload =
     (if client_id = INVALID_CLIENT_ID \<or> \<not> is_valid_frame_type type then (reg, Inl EINVAL)
      else if FRAME_MAX_SIZE - 1 < length payload then (reg, Inl EMSGSIZE)
      else let (allocated, reg1) = malloc reg
      in if \<not> allocated then (reg1, Inl ENOMEM)
      else case find_slot (\<lambda>c. \<not> (\<not> c_active c \<or> \<not> c_ready c \<or> c_id c \<noteq> client_id)) (clients reg1) of
        None \<Rightarrow> (reg1, Inl ENOENT)
      | Some i \<Rightarrow>
          let c = clients reg1 ! i; (notified, reg2) = eventfd_write (c_wake_fd c) reg1
          in case notified of
               WakeFailed e \<Rightarrow> (reg2, Inl e)
             | _ \<Rightarrow>
                 if MAX_OUTGOING_FRAMES \<le> c_outgoing_count c
                 then (reg2\<lparr>clients := (clients reg2)[i := c\<lparr>c_outgoing_failed := True, c_ready := False\<rparr>]\<rparr>,
                       Inl ENOBUFS)
                 else (reg2\<lparr>clients := (clients reg2)[i :=
                          c\<lparr>c_outgoing := c_outgoing c @ [\<lparr>of_type = type, of_payload = payload\<rparr>],
                            c_outgoing_count := Suc (c_outgoing_count c)\<rparr>]\<rparr>, Inr ()))"

definition send_frame_to_client_id ::
  "Registry \<Rightarrow> ClientId \<Rightarrow> FrameType \<Rightarrow> bytes \<Rightarrow> Registry \<times> unit result" where
  "send_frame_to_client_id reg client_id type payload = queue_frame_to_client_id reg client_id type payload"

definition take_outgoing_frame :: "Registry \<Rightarrow> ClientId \<Rightarrow> Registry \<times> OutgoingFrame option result" where
  "take_outgoing_frame reg client_id =
     (if client_id = INVALID_CLIENT_ID then (reg, Inl EINVAL)
      else case find_slot (\<lambda>c. \<not> (\<not> c_active c \<or> c_id c \<noteq> client_id)) (clients reg) of
        None \<Rightarrow> (reg, Inl ENOENT)
      | Some i \<Rightarrow>
          let c = clients reg ! i
          in if c_outgoing_failed c then (reg, Inl ENOBUFS)
             else case c_outgoing c of
                    [] \<Rightarrow> (reg, Inr None)
                  | f # fs \<Rightarrow>
                      (reg\<lparr>clients := (clients reg)[i :=
                         c\<lparr>c_outgoing := fs, c_outgoing_count := c_outgoing_count c - 1\<rparr>]\<rparr>, Inr (Some f)))"

definition get_client_wake_fd :: "Registry \<Rightarrow> ClientId \<Rightarrow> int result" where
  "get_client_wake_fd reg client_id =
     (case find_slot (\<lambda>c. c_active c \<and> c_id c = client_id) (clients reg) of
        None \<Rightarrow> Inl ENOENT
      | Some i \<Rightarrow> Inr (c_wake_fd (clients reg ! i)))"

definition client_output_status :: "Registry \<Rightarrow> ClientId \<Rightarrow> unit result" where
  "client_output_status reg client_id =
     (case find_slot (\<lambda>c. c_active c \<and> c_id c = client_id) (clients reg) of
        None \<Rightarrow> Inl ENOENT
      | Some i \<Rightarrow> if c_outgoing_failed (clients reg ! i) then Inl ENOBUFS else Inr ())"

section \<open>Text messages\<close>

definition send_text_to_client_id :: "Registry \<Rightarrow> ClientId \<Rightarrow> bytes \<Rightarrow> Registry \<times> unit result" where
  "send_text_to_client_id reg client_id message =
     (if message = [] then (reg, Inl EINVAL)
      else send_frame_to_client_id reg client_id FRAME_TEXT message)"

text \<open>
  The pattern of four functions: format into a \<open>BUFFER_SIZE\<close> buffer and send the text only
  if it fits.
\<close>

definition send_formatted :: "Registry \<Rightarrow> ClientId \<Rightarrow> bytes \<Rightarrow> Registry" where
  "send_formatted reg client_id out =
     (let (written, text) = snprintf BUFFER_SIZE out
      in if 0 < written \<and> written < BUFFER_SIZE then fst (send_text_to_client_id reg client_id text) else reg)"

definition send_message_to_client :: "Registry \<Rightarrow> bytes \<Rightarrow> bytes \<Rightarrow> ClientId \<Rightarrow> Registry" where
  "send_message_to_client reg username message sender_id =
     (let recipient_id = find_client_id reg username;
          (reg1, sent) = (if recipient_id \<noteq> INVALID_CLIENT_ID
                          then send_text_to_client_id reg recipient_id message
                          else (reg, Inl ENOENT))
      in if sent = Inr () then reg1
         else send_formatted reg1 sender_id (format MSG_USER_NOT_FOUND [username]))"

fun send_text_to_each :: "Registry \<Rightarrow> bytes \<Rightarrow> ClientId list \<Rightarrow> Registry" where
  "send_text_to_each reg message [] = reg"
| "send_text_to_each reg message (r # rs) =
     send_text_to_each (fst (send_text_to_client_id reg r message)) message rs"

definition broadcast_recipients :: "Registry \<Rightarrow> ClientId \<Rightarrow> ClientId list" where
  "broadcast_recipients reg sender_id =
     map c_id (filter (\<lambda>c. c_active c \<and> c_ready c \<and> c_id c \<noteq> sender_id) (clients reg))"

definition send_message_to_all_clients :: "Registry \<Rightarrow> bytes \<Rightarrow> ClientId \<Rightarrow> Registry" where
  "send_message_to_all_clients reg message sender_id =
     (if message = [] then reg
      else send_text_to_each reg message (broadcast_recipients reg sender_id))"

text \<open>
  The loop of \<open>log_connected_clients\<close>; \<open>client_list\<close> is the text in the buffer. The first
  name that does not fit ends the loop, but \<open>snprintf\<close> has stored the part that fits.
\<close>

fun append_names :: "Client list \<Rightarrow> bytes \<Rightarrow> bytes" where
  "append_names [] client_list = client_list"
| "append_names (c # cs) client_list =
     (if \<not> c_active c \<or> \<not> c_ready c then append_names cs client_list
      else let remaining = BUFFER_SIZE - length client_list;
               (written, text) = snprintf remaining (10 # c_username c)
           in if remaining \<le> written then client_list @ text
              else append_names cs (client_list @ text))"

definition log_connected_clients :: "Registry \<Rightarrow> ClientId \<Rightarrow> Registry" where
  "log_connected_clients reg client_id =
     fst (send_text_to_client_id reg client_id (append_names (clients reg) MSG_CLIENT_LIST))"

definition send_help :: "Registry \<Rightarrow> ClientId \<Rightarrow> Registry" where
  "send_help reg client_id = fst (send_text_to_client_id reg client_id HELP_MESSAGE)"

definition send_unknown_command :: "Registry \<Rightarrow> ClientId \<Rightarrow> bytes \<Rightarrow> Registry" where
  "send_unknown_command reg client_id command =
     send_formatted reg client_id (format MSG_UNKNOWN_COMMAND [command])"

definition send_invalid_command :: "Registry \<Rightarrow> ClientId \<Rightarrow> bytes \<Rightarrow> Registry" where
  "send_invalid_command reg client_id command =
     send_formatted reg client_id (format MSG_INVALID_COMMAND [command])"

section \<open>Framing lemmas for the operating system calls\<close>

lemma tick_simps [simp]: "clients (tick reg) = clients reg" "next_client_id (tick reg) = next_client_id reg"
  by (simp_all add: tick_def)

lemma malloc_frame: "malloc reg = (b, reg') \<Longrightarrow> clients reg' = clients reg \<and> next_client_id reg' = next_client_id reg"
  by (auto simp: malloc_def)

lemma eventfd_frame: "eventfd reg = (r, reg') \<Longrightarrow> clients reg' = clients reg \<and> next_client_id reg' = next_client_id reg"
  by (auto simp: eventfd_def split: sum.splits)

lemma eventfd_write_frame:
  assumes "eventfd_write fd reg = (r, reg')"
  shows "clients reg' = clients reg" "next_client_id reg' = next_client_id reg"
    and "r = Woken \<or> r = WakePending \<Longrightarrow> 0 < os_counter (os reg') fd"
  using assms by (auto simp: eventfd_write_def tick_def split: option.splits if_splits)

lemma allocate_client_id_eq:
  "next_client_id reg \<noteq> 0 \<Longrightarrow>
   allocate_client_id reg = (next_client_id reg, reg\<lparr>next_client_id := next_client_id reg + 1\<rparr>)"
  by (simp add: allocate_client_id_def Let_def)

lemma scan_clients_eq:
  "scan_clients u cs i free =
     (if find_slot (\<lambda>c. c_active c \<and> c_username c = u) cs \<noteq> None then None
      else Some (case free of Some j \<Rightarrow> Some j
                 | None \<Rightarrow> map_option ((+) i) (find_slot (\<lambda>c. \<not> c_active c) cs)))"
  by (induction u cs i free rule: scan_clients.induct)
     (auto simp: option.map_comp comp_def fun_eq_iff intro!: option.map_cong0 split: option.splits)

section \<open>Invariant\<close>

text \<open>
  Slot-wise: a free slot is blank; a used slot has a non-zero identifier below the next one
  to be issued, a valid name and an open connection; its count is the length of its queue,
  which is bounded and holds frames that fit an envelope; a registered key has 32 bytes.
  Table-wise: no two used slots share a name or an identifier.
\<close>

definition frame_ok :: "OutgoingFrame \<Rightarrow> bool" where
  "frame_ok f \<longleftrightarrow> is_valid_frame_type (of_type f) \<and> length (of_payload f) \<le> FRAME_MAX_SIZE - 1"

definition client_ok :: "ClientId \<Rightarrow> Client \<Rightarrow> bool" where
  "client_ok next c \<longleftrightarrow>
     (\<not> c_active c \<longrightarrow> c = blank_client) \<and>
     (c_active c \<longrightarrow>
        c_id c \<noteq> 0 \<and> c_id c < next \<and> username_is_valid (c_username c) \<and>
        0 \<le> socket_fd (c_connection c) \<and> ssl (c_connection c) \<noteq> None) \<and>
     c_outgoing_count c = length (c_outgoing c) \<and> c_outgoing_count c \<le> MAX_OUTGOING_FRAMES \<and>
     list_all frame_ok (c_outgoing c) \<and>
     (c_has_public_key c \<longrightarrow> length (c_public_key c) = CHAT_PUBLIC_KEY_SIZE)"

definition registry_inv :: "Registry \<Rightarrow> bool" where
  "registry_inv reg \<longleftrightarrow>
     length (clients reg) = MAX_CLIENTS \<and> next_client_id reg \<noteq> 0 \<and>
     slot_unique c_active c_username (clients reg) \<and> slot_unique c_active c_id (clients reg) \<and>
     list_all (client_ok (next_client_id reg)) (clients reg)"

interpretation by_name: slot_table c_active c_username blank_client
  by unfold_locales (simp add: blank_client_def)

interpretation by_id: slot_table c_active c_id blank_client
  by unfold_locales (simp add: blank_client_def)

lemma blank_client_ok [simp]: "client_ok next blank_client"
  by (simp add: client_ok_def blank_client_def)

lemma blank_client_simps [simp]:
  "\<not> c_active blank_client" "\<not> c_ready blank_client" "c_outgoing blank_client = []"
  by (simp_all add: blank_client_def)

lemma registry_inv_cong:
  "clients reg' = clients reg \<Longrightarrow> next_client_id reg' = next_client_id reg \<Longrightarrow> registry_inv reg' = registry_inv reg"
  by (simp add: registry_inv_def)

lemma registry_inv_nth:
  assumes "registry_inv reg" "i < length (clients reg)"
  shows "client_ok (next_client_id reg) (clients reg ! i)"
  using assms by (simp add: registry_inv_def list_all_length)

lemma list_all_update: "list_all P xs \<Longrightarrow> P x \<Longrightarrow> list_all P (xs[i := x])"
  by (induction xs arbitrary: i) (auto split: nat.splits)

text \<open>Rewriting a used slot without changing who it belongs to keeps the invariant.\<close>

lemma registry_inv_rewrite:
  assumes inv: "registry_inv reg" and i: "i < length (clients reg)" "c_active (clients reg ! i)"
    and same: "c_active c" "c_id c = c_id (clients reg ! i)" "c_username c = c_username (clients reg ! i)"
    and ok: "client_ok (next_client_id reg) c"
    and reg': "clients reg' = (clients reg)[i := c]" "next_client_id reg' = next_client_id reg"
  shows "registry_inv reg'"
  using assms
  by (auto simp: registry_inv_def intro: by_name.unique_same_key by_id.unique_same_key list_all_update)

lemma registry_inv_clear:
  assumes "registry_inv reg" "clients reg' = (clients reg)[i := blank_client]" "next_client_id reg' = next_client_id reg"
  shows "registry_inv reg'"
  using assms by (auto simp: registry_inv_def intro: by_name.unique_inactive by_id.unique_inactive list_all_update)

lemma init_clients_static:
  "init_clients (static_registry oracle) =
     \<lparr>clients = replicate MAX_CLIENTS blank_client, next_client_id = 1, os = oracle\<rparr>"
  by (simp add: init_clients_def static_registry_def static_client_def blank_client_def)

lemma init_clients_inv: "registry_inv (init_clients (static_registry oracle))"
  by (simp add: registry_inv_def init_clients_static by_name.unique_blank_table by_id.unique_blank_table
      list_all_length)

section \<open>What each operation does to the table\<close>

lemma find_by_id:
  assumes inv: "registry_inv reg" and i: "i < length (clients reg)" "c_active (clients reg ! i)" "Q (clients reg ! i)"
  shows "find_slot (\<lambda>c. c_active c \<and> Q c \<and> c_id c = c_id (clients reg ! i)) (clients reg) = Some i"
  using inv i by (intro find_slot_unique) (auto simp: registry_inv_def intro: by_id.uniqueD)

text \<open>The three ways a call to queue a frame ends.\<close>

lemma queue_frame_cases:
  assumes "queue_frame_to_client_id reg client_id type payload = (reg', r)"
  obtains (rejected) e where "r = Inl e" "clients reg' = clients reg" "next_client_id reg' = next_client_id reg"
  | (overflow) i where "i < length (clients reg)" "c_active (clients reg ! i)" "c_ready (clients reg ! i)"
      "c_id (clients reg ! i) = client_id" "r = Inl ENOBUFS"
      "MAX_OUTGOING_FRAMES \<le> c_outgoing_count (clients reg ! i)"
      "clients reg' = (clients reg)[i := (clients reg ! i)\<lparr>c_outgoing_failed := True, c_ready := False\<rparr>]"
      "next_client_id reg' = next_client_id reg"
  | (queued) i where "i < length (clients reg)" "c_active (clients reg ! i)" "c_ready (clients reg ! i)"
      "c_id (clients reg ! i) = client_id" "client_id \<noteq> 0" "r = Inr ()"
      "c_outgoing_count (clients reg ! i) < MAX_OUTGOING_FRAMES"
      "is_valid_frame_type type" "length payload \<le> FRAME_MAX_SIZE - 1"
      "clients reg' = (clients reg)[i := (clients reg ! i)
         \<lparr>c_outgoing := c_outgoing (clients reg ! i) @ [\<lparr>of_type = type, of_payload = payload\<rparr>],
           c_outgoing_count := Suc (c_outgoing_count (clients reg ! i))\<rparr>]"
      "next_client_id reg' = next_client_id reg" "0 < os_counter (os reg') (c_wake_fd (clients reg ! i))"
proof -
  obtain ok reg1 where m: "malloc reg = (ok, reg1)" by fastforce
  note m' = malloc_frame [OF m]
  consider (early) "client_id = 0 \<or> \<not> is_valid_frame_type type \<or> FRAME_MAX_SIZE - 1 < length payload \<or> \<not> ok \<or>
      find_slot (\<lambda>c. \<not> (\<not> c_active c \<or> \<not> c_ready c \<or> c_id c \<noteq> client_id)) (clients reg) = None"
    | (found) i where "client_id \<noteq> 0" "is_valid_frame_type type" "\<not> FRAME_MAX_SIZE - 1 < length payload" "ok"
      "find_slot (\<lambda>c. \<not> (\<not> c_active c \<or> \<not> c_ready c \<or> c_id c \<noteq> client_id)) (clients reg) = Some i"
    by (cases "find_slot (\<lambda>c. \<not> (\<not> c_active c \<or> \<not> c_ready c \<or> c_id c \<noteq> client_id)) (clients reg)") auto
  then show thesis
  proof cases
    case early
    then show ?thesis using assms m m' by (intro rejected [of "projl r"])
      (auto simp: queue_frame_to_client_id_def split: if_splits)
  next
    case (found i)
    obtain w reg2 where w: "eventfd_write (c_wake_fd (clients reg ! i)) reg1 = (w, reg2)" by fastforce
    note w' = eventfd_write_frame [OF w]
    note i = find_slotD [OF found(5)]
    note eq = assms [unfolded queue_frame_to_client_id_def, simplified found m Let_def prod.case m', simplified w Let_def]
    show ?thesis
    proof (cases "\<exists>e. w = WakeFailed e")
      case True
      then show ?thesis using eq found m' w w' by (intro rejected [of "projl r"]) (auto simp: Let_def)
    next
      case False
      then have woken: "w = Woken \<or> w = WakePending" by (cases w) auto
      show ?thesis
      proof (cases "MAX_OUTGOING_FRAMES \<le> c_outgoing_count (clients reg ! i)")
        case True
        then show ?thesis using eq found m' w w' i woken by (intro overflow [of i]) auto
      next
        case False
        then show ?thesis using eq found m' w w' i woken by (intro queued [of i]) auto
      qed
    qed
  qed
qed

lemma queue_frame_inv:
  assumes inv: "registry_inv reg" and q: "queue_frame_to_client_id reg client_id type payload = (reg', r)"
  shows "registry_inv reg'"
  using q
proof (cases rule: queue_frame_cases)
  case (rejected e)
  then show ?thesis using inv registry_inv_cong by blast
next
  case (overflow i)
  show ?thesis
    by (rule registry_inv_rewrite [OF inv _ _ _ _ _ _ overflow(7,8)])
       (use overflow registry_inv_nth [OF inv overflow(1)] in \<open>auto simp: client_ok_def\<close>)
next
  case (queued i)
  show ?thesis
    by (rule registry_inv_rewrite [OF inv _ _ _ _ _ _ queued(10,11)])
       (use queued registry_inv_nth [OF inv queued(1)] in \<open>auto simp: client_ok_def frame_ok_def\<close>)
qed

lemma take_frame_cases:
  assumes "take_outgoing_frame reg client_id = (reg', r)"
  obtains (unchanged) "reg' = reg" "\<And>f. r \<noteq> Inr (Some f)"
  | (taken) i f fs where "i < length (clients reg)" "c_active (clients reg ! i)"
      "c_id (clients reg ! i) = client_id" "client_id \<noteq> 0" "\<not> c_outgoing_failed (clients reg ! i)"
      "r = Inr (Some f)" "c_outgoing (clients reg ! i) = f # fs"
      "reg' = reg\<lparr>clients := (clients reg)[i := (clients reg ! i)
         \<lparr>c_outgoing := fs, c_outgoing_count := c_outgoing_count (clients reg ! i) - 1\<rparr>]\<rparr>"
proof (cases "client_id = 0 \<or> find_slot (\<lambda>c. \<not> (\<not> c_active c \<or> c_id c \<noteq> client_id)) (clients reg) = None")
  case True
  then show ?thesis using assms by (intro unchanged) (auto simp: take_outgoing_frame_def split: if_splits)
next
  case False
  then obtain i where i: "find_slot (\<lambda>c. \<not> (\<not> c_active c \<or> c_id c \<noteq> client_id)) (clients reg) = Some i"
    and id: "client_id \<noteq> 0" by auto
  note eq = assms [unfolded take_outgoing_frame_def, simplified i id option.case Let_def]
  show ?thesis
  proof (cases "c_outgoing_failed (clients reg ! i) \<or> c_outgoing (clients reg ! i) = []")
    case True
    then show ?thesis using eq id by (intro unchanged) (auto split: if_splits)
  next
    case False
    then obtain f fs where "c_outgoing (clients reg ! i) = f # fs" by (cases "c_outgoing (clients reg ! i)") auto
    then show ?thesis using eq id False find_slotD [OF i] by (intro taken [of i f fs]) auto
  qed
qed

lemma take_frame_fits:
  assumes inv: "registry_inv reg" and t: "take_outgoing_frame reg client_id = (reg', Inr (Some f))"
  shows "length (of_payload f) < FRAME_MAX_SIZE"
  using t
proof (cases rule: take_frame_cases)
  case (taken i g fs)
  then show ?thesis using registry_inv_nth [OF inv taken(1)] by (auto simp: client_ok_def frame_ok_def const_simps)
qed auto

lemma public_key_size:
  assumes "registry_inv reg" "get_client_public_key reg client_id = Inr key"
  shows "length key = CHAT_PUBLIC_KEY_SIZE"
proof -
  obtain i where i: "find_slot (\<lambda>c. c_active c \<and> c_ready c \<and> c_id c = client_id \<and> c_has_public_key c) (clients reg) = Some i"
    "key = c_public_key (clients reg ! i)"
    using assms(2) by (auto simp: get_client_public_key_def split: option.splits)
  show ?thesis using find_slotD [OF i(1)] registry_inv_nth [OF assms(1), of i] i(2) by (simp add: client_ok_def)
qed

lemma take_frame_inv:
  assumes inv: "registry_inv reg" and t: "take_outgoing_frame reg client_id = (reg', r)"
  shows "registry_inv reg'"
  using t
proof (cases rule: take_frame_cases)
  case (taken i f fs)
  show ?thesis
    by (rule registry_inv_rewrite [OF inv taken(1,2)])
       (use taken registry_inv_nth [OF inv taken(1)] in \<open>auto simp: client_ok_def\<close>)
qed (use inv in simp)

lemma add_client_cases:
  assumes "add_client reg connection username = (reg', r)"
  obtains (refused) e where "r = Inl e" "clients reg' = clients reg" "next_client_id reg' = next_client_id reg"
  | (added) i wake_fd where "r = Inr i" "i < length (clients reg)" "\<not> c_active (clients reg ! i)"
      "username_is_valid username" "0 \<le> socket_fd connection" "ssl connection \<noteq> None"
      "slot_lookup c_active c_username (clients reg) username = None"
      "clients reg' = (clients reg)[i := (clients reg ! i)\<lparr>c_wake_fd := wake_fd, c_outgoing_failed := False,
         c_connection := connection, c_active := True, c_ready := False,
         c_id := fst (allocate_client_id reg), c_has_public_key := False, c_username := username\<rparr>]"
      "next_client_id reg' = next_client_id (snd (allocate_client_id reg))"
      "os_eventfd (os reg) (os_clock (os reg)) = Inr wake_fd"
proof (cases "socket_fd connection < 0 \<or> ssl connection = None \<or> \<not> username_is_valid username \<or>
    find_slot (\<lambda>c. c_active c \<and> c_username c = username) (clients reg) \<noteq> None \<or>
    find_slot (\<lambda>c. \<not> c_active c) (clients reg) = None")
  case True
  then show ?thesis using assms
    by (intro refused [of "projl r"]) (auto simp: add_client_def scan_clients_eq split: if_splits)
next
  case False
  then obtain i where i: "find_slot (\<lambda>c. \<not> c_active c) (clients reg) = Some i" by blast
  obtain w reg1 where w: "eventfd reg = (w, reg1)" by fastforce
  note w' = eventfd_frame [OF w]
  have a: "fst (allocate_client_id reg1) = fst (allocate_client_id reg)"
    "clients (snd (allocate_client_id reg1)) = clients reg"
    "next_client_id (snd (allocate_client_id reg1)) = next_client_id (snd (allocate_client_id reg))"
    using w' by (simp_all add: allocate_client_id_def Let_def)
  have eq: "(reg', r) = (case w of Inl e \<Rightarrow> (reg1, Inl e) | Inr wake_fd \<Rightarrow>
      let (client_id, reg2) = allocate_client_id reg1; c = clients reg2 ! i
      in (reg2\<lparr>clients := (clients reg2)[i := c\<lparr>c_wake_fd := wake_fd, c_outgoing_failed := False,
            c_connection := connection, c_active := True, c_ready := False, c_id := client_id,
            c_has_public_key := False, c_username := username\<rparr>]\<rparr>, Inr i))"
    using assms False i w by (auto simp: add_client_def scan_clients_eq split: sum.splits)
  show ?thesis
  proof (cases w)
    case (Inl e)
    then show ?thesis using eq w' by (intro refused [of e]) auto
  next
    case (Inr fd)
    have "os_eventfd (os reg) (os_clock (os reg)) = Inr fd"
      using w Inr by (auto simp: eventfd_def split: sum.splits)
    then show ?thesis using eq False a find_slotD [OF i] w' Inr
      by (intro added [of i fd]) (auto simp: slot_lookup_def case_prod_beta Let_def)
  qed
qed

lemma add_client_inv:
  assumes inv: "registry_inv reg" and a: "add_client reg connection username = (reg', r)"
    and nowrap: "next_client_id reg \<noteq> -1"
  shows "registry_inv reg'"
  using a
proof (cases rule: add_client_cases)
  case (refused e)
  then show ?thesis using inv registry_inv_cong by blast
next
  case (added i fd)
  let ?n = "next_client_id reg"
  have n: "?n \<noteq> 0" "fst (allocate_client_id reg) = ?n" "next_client_id reg' = ?n + 1"
    using inv added by (simp_all add: registry_inv_def allocate_client_id_eq)
  have new: "?n + 1 \<noteq> 0" using nowrap max_word_wrap by blast
  have old: "client_ok (?n + 1) c" if "client_ok ?n c" for c
    using that word_inc_less [OF nowrap] by (auto simp: client_ok_def)
  have fresh: "slot_lookup c_active c_id (clients reg) ?n = None"
    unfolding by_id.lookup_None
  proof (intro allI impI)
    fix j
    assume "j < length (clients reg)" "c_active (clients reg ! j)"
    then show "c_id (clients reg ! j) \<noteq> ?n"
      using registry_inv_nth [OF inv, of j] by (auto simp: client_ok_def)
  qed
  have blank: "clients reg ! i = blank_client"
    using registry_inv_nth [OF inv added(2)] added(3) by (auto simp: client_ok_def)
  have "client_ok (?n + 1) (blank_client\<lparr>c_wake_fd := fd, c_outgoing_failed := False, c_connection := connection,
      c_active := True, c_ready := False, c_id := ?n, c_has_public_key := False, c_username := username\<rparr>)"
    using n added word_inc_less [OF nowrap] by (auto simp: client_ok_def blank_client_def)
  then show ?thesis using inv added n new old fresh blank
    by (auto simp: registry_inv_def intro!: by_name.unique_new_key by_id.unique_new_key list_all_update
        elim: list.pred_mono_strong)
qed

lemma activate_client_cases:
  assumes "activate_client reg index = (reg', r)" "length (clients reg) = MAX_CLIENTS"
  obtains (refused) e where "r = Inl e" "reg' = reg"
  | (activated) "nat index < length (clients reg)" "c_active (clients reg ! nat index)" "r = Inr ()"
      "reg' = reg\<lparr>clients := (clients reg)[nat index := (clients reg ! nat index)\<lparr>c_ready := True\<rparr>]\<rparr>"
proof (cases "index < 0 \<or> int MAX_CLIENTS \<le> index \<or> \<not> c_active (clients reg ! nat index)")
  case True
  then have "(\<exists>e. r = Inl e) \<and> reg' = reg" using assms(1) by (auto simp: activate_client_def Let_def split: if_splits)
  then show ?thesis using refused by blast
next
  case False
  then show ?thesis using assms by (intro activated) (auto simp: activate_client_def Let_def)
qed

lemma activate_client_inv:
  assumes inv: "registry_inv reg" and a: "activate_client reg index = (reg', r)"
  shows "registry_inv reg'"
proof -
  have "length (clients reg) = MAX_CLIENTS" using inv by (simp add: registry_inv_def)
  with a show ?thesis
  proof (cases rule: activate_client_cases)
    case activated
    show ?thesis
      by (rule registry_inv_rewrite [OF inv activated(1,2), of "(clients reg ! nat index)\<lparr>c_ready := True\<rparr>"])
         (use activated registry_inv_nth [OF inv activated(1)] in \<open>auto simp: client_ok_def\<close>)
  qed (use inv in simp)
qed

lemma remove_client_eq:
  "remove_client reg index =
     (if index < 0 \<or> int MAX_CLIENTS \<le> index \<or> \<not> c_active (clients reg ! nat index) then (reg, None)
      else let c = clients reg ! nat index
           in (reg\<lparr>clients := (clients reg)[nat index := blank_client]\<rparr>,
               Some (c_wake_fd c, c_outgoing c, c_connection c)))"
  by (cases "clients reg ! nat index") (simp add: remove_client_def Let_def blank_client_def)

lemma remove_client_cases:
  assumes "remove_client reg index = (reg', r)" "length (clients reg) = MAX_CLIENTS"
  obtains (nobody) "r = None" "reg' = reg"
  | (removed) "nat index < length (clients reg)" "c_active (clients reg ! nat index)" "get_client_id reg index = c_id (clients reg ! nat index)"
      "r = Some (c_wake_fd (clients reg ! nat index), c_outgoing (clients reg ! nat index), c_connection (clients reg ! nat index))"
      "reg' = reg\<lparr>clients := (clients reg)[nat index := blank_client]\<rparr>"
proof (cases "index < 0 \<or> int MAX_CLIENTS \<le> index \<or> \<not> c_active (clients reg ! nat index)")
  case True
  then show ?thesis using assms(1) by (intro nobody) (auto simp: remove_client_eq)
next
  case False
  then show ?thesis using assms by (intro removed) (auto simp: remove_client_eq get_client_id_def Let_def)
qed

lemma remove_client_inv:
  "registry_inv reg \<Longrightarrow> remove_client reg index = (reg', r) \<Longrightarrow> registry_inv reg'"
  by (auto simp: remove_client_eq Let_def intro: registry_inv_clear split: if_splits)

lemma register_key_cases:
  assumes "register_client_public_key reg client_id key = (reg', r)"
  obtains (refused) e where "r = Inl e" "reg' = reg"
  | (stored) i where "i < length (clients reg)" "c_active (clients reg ! i)" "c_ready (clients reg ! i)"
      "c_id (clients reg ! i) = client_id" "r = Inr ()"
      "c_has_public_key (clients reg ! i) \<longrightarrow> c_public_key (clients reg ! i) = take CHAT_PUBLIC_KEY_SIZE key"
      "reg' = reg\<lparr>clients := (clients reg)[i := (clients reg ! i)
         \<lparr>c_public_key := take CHAT_PUBLIC_KEY_SIZE key, c_has_public_key := True\<rparr>]\<rparr>"
proof (cases "find_slot (\<lambda>c. c_active c \<and> c_ready c \<and> c_id c = client_id) (clients reg)")
  case None
  then show ?thesis using assms by (intro refused [of ENOENT]) (auto simp: register_client_public_key_def)
next
  case (Some i)
  note eq = assms [unfolded register_client_public_key_def, simplified Some option.case Let_def]
  show ?thesis
  proof (cases "c_has_public_key (clients reg ! i) \<and> c_public_key (clients reg ! i) \<noteq> take CHAT_PUBLIC_KEY_SIZE key")
    case True
    then show ?thesis using eq by (intro refused [of EINVAL]) auto
  next
    case False
    then show ?thesis using eq find_slotD [OF Some] by (intro stored [of i]) auto
  qed
qed

lemma register_key_inv:
  assumes inv: "registry_inv reg" and k: "register_client_public_key reg client_id key = (reg', r)"
    and len: "CHAT_PUBLIC_KEY_SIZE \<le> length key"
  shows "registry_inv reg'"
  using k
proof (cases rule: register_key_cases)
  case (stored i)
  show ?thesis
    by (rule registry_inv_rewrite [OF inv stored(1,2)])
       (use stored len registry_inv_nth [OF inv stored(1)] in \<open>auto simp: client_ok_def\<close>)
qed (use inv in simp)

end
