(* ===== verification/File_Routes.thy ===== *)
theory File_Routes
  imports Client_Manager
begin

text \<open>
  \<open>server_file_routes.h\<close> and \<open>server_file_routes.c\<close>: the table of file transfers in
  progress. A route is keyed by the sender and the sender's transfer number; it forwards to a
  recipient under an outbound number of the server's own, or is a tombstone that swallows
  the rest of a transfer that failed. Every operation runs under \<open>routes_mutex\<close> and is one
  definition here. The abstract view \<open>route_map\<close> is the map from keys to routes.
\<close>

section \<open>State\<close>

definition FILE_ROUTE_CAPACITY :: nat where "FILE_ROUTE_CAPACITY = MAX_CLIENTS * 4"

record FileRouteEndpoint =
  ep_target_id :: ClientId
  ep_outbound_transfer_id :: u32

datatype FileRouteAddResult =
    FILE_ROUTE_ADD_READY | FILE_ROUTE_ADD_DISCARD | FILE_ROUTE_ADD_DUPLICATE | FILE_ROUTE_ADD_FULL
  | FILE_ROUTE_ADD_ID_UNAVAILABLE

datatype FileRouteChunkResult =
    FILE_ROUTE_CHUNK_READY | FILE_ROUTE_CHUNK_DISCARD | FILE_ROUTE_CHUNK_MISSING | FILE_ROUTE_CHUNK_OVERRUN

datatype FileRouteFinishResult =
    FILE_ROUTE_FINISH_READY | FILE_ROUTE_FINISH_DISCARD | FILE_ROUTE_FINISH_MISSING | FILE_ROUTE_FINISH_INCOMPLETE

datatype FileRouteAbortActionType = FILE_ROUTE_ABORT_SEND_ERROR | FILE_ROUTE_ABORT_NOTIFY_SENDER

record FileRouteAbortAction =
  aa_type :: FileRouteAbortActionType
  aa_client_id :: ClientId
  aa_outbound_transfer_id :: u32

record FileRoute =
  r_active :: bool
  r_discard :: bool
  r_sender_id :: ClientId
  r_target_id :: ClientId
  r_source_transfer_id :: u32
  r_outbound_transfer_id :: u32
  r_expected_size :: u64
  r_forwarded_size :: u64

record RouteTable =
  routes :: "FileRoute list"
  next_outbound_transfer_id :: u32

text \<open>A route after \<open>memset\<close> to zero.\<close>

definition zero_route :: FileRoute where
  "zero_route = \<lparr>r_active = False, r_discard = False, r_sender_id = 0, r_target_id = 0, r_source_transfer_id = 0,
     r_outbound_transfer_id = 0, r_expected_size = 0, r_forwarded_size = 0\<rparr>"

section \<open>Operations\<close>

definition clear_endpoint :: FileRouteEndpoint where
  "clear_endpoint = \<lparr>ep_target_id = INVALID_CLIENT_ID, ep_outbound_transfer_id = 0\<rparr>"

definition copy_endpoint :: "FileRoute \<Rightarrow> FileRouteEndpoint" where
  "copy_endpoint route =
     \<lparr>ep_target_id = r_target_id route, ep_outbound_transfer_id = r_outbound_transfer_id route\<rparr>"

definition find_route_locked :: "RouteTable \<Rightarrow> ClientId \<Rightarrow> u32 \<Rightarrow> nat option" where
  "find_route_locked t sender_id source_transfer_id =
     find_slot (\<lambda>r. r_active r \<and> r_sender_id r = sender_id \<and> r_source_transfer_id r = source_transfer_id) (routes t)"

definition find_free_route_locked :: "RouteTable \<Rightarrow> nat option" where
  "find_free_route_locked t = find_slot (\<lambda>r. \<not> r_active r) (routes t)"

definition outbound_in_use :: "FileRoute list \<Rightarrow> u32 \<Rightarrow> bool" where
  "outbound_in_use rs candidate \<longleftrightarrow>
     list_ex (\<lambda>r. r_active r \<and> \<not> r_discard r \<and> r_outbound_transfer_id r = candidate) rs"

text \<open>The loop with the given number of attempts left, on the counter; result and new counter.\<close>

fun allocate_outbound_loop :: "nat \<Rightarrow> FileRoute list \<Rightarrow> u32 \<Rightarrow> u32 \<times> u32" where
  "allocate_outbound_loop 0 rs n = (0, n)"
| "allocate_outbound_loop (Suc attempts) rs n =
     (let (candidate, n1) = (n, n + 1);
          (candidate, n1) = (if candidate = 0 then (n1, n1 + 1) else (candidate, n1))
      in if outbound_in_use rs candidate then allocate_outbound_loop attempts rs n1 else (candidate, n1))"

definition allocate_outbound_id_locked :: "RouteTable \<Rightarrow> u32 \<times> RouteTable" where
  "allocate_outbound_id_locked t =
     (let (candidate, n) = allocate_outbound_loop (Suc FILE_ROUTE_CAPACITY) (routes t) (next_outbound_transfer_id t)
      in (candidate, t\<lparr>next_outbound_transfer_id := n\<rparr>))"

definition make_discard_route :: "ClientId \<Rightarrow> u32 \<Rightarrow> FileRoute" where
  "make_discard_route sender_id source_transfer_id =
     zero_route\<lparr>r_active := True, r_discard := True, r_sender_id := sender_id,
       r_target_id := INVALID_CLIENT_ID, r_source_transfer_id := source_transfer_id\<rparr>"

abbreviation set_route :: "RouteTable \<Rightarrow> nat \<Rightarrow> FileRoute \<Rightarrow> RouteTable" where
  "set_route t i r \<equiv> t\<lparr>routes := (routes t)[i := r]\<rparr>"

definition file_routes_init :: "RouteTable \<Rightarrow> RouteTable" where
  "file_routes_init t = t\<lparr>routes := replicate (length (routes t)) zero_route, next_outbound_transfer_id := 1\<rparr>"

text \<open>Results in order: the table, the status, \<open>*endpoint\<close> and \<open>*replaced\<close>.\<close>

definition file_routes_add ::
  "RouteTable \<Rightarrow> ClientId \<Rightarrow> u32 \<Rightarrow> ClientId \<Rightarrow> u64 \<Rightarrow> bool \<Rightarrow>
   RouteTable \<times> FileRouteAddResult \<times> FileRouteEndpoint \<times> FileRouteEndpoint" where
  "file_routes_add t sender_id source_transfer_id target_id expected_size discard =
     (case find_route_locked t sender_id source_transfer_id of
        Some i \<Rightarrow>
          let replaced = (if \<not> r_discard (routes t ! i) then copy_endpoint (routes t ! i) else clear_endpoint)
          in (set_route t i (make_discard_route sender_id source_transfer_id), FILE_ROUTE_ADD_DUPLICATE,
              clear_endpoint, replaced)
      | None \<Rightarrow>
          case find_free_route_locked t of
            None \<Rightarrow> (t, FILE_ROUTE_ADD_FULL, clear_endpoint, clear_endpoint)
          | Some i \<Rightarrow>
              if discard
              then (set_route t i (make_discard_route sender_id source_transfer_id), FILE_ROUTE_ADD_DISCARD,
                    clear_endpoint, clear_endpoint)
              else let (outbound_transfer_id, t1) = allocate_outbound_id_locked t
                   in if outbound_transfer_id = 0
                      then (t1, FILE_ROUTE_ADD_ID_UNAVAILABLE, clear_endpoint, clear_endpoint)
                      else let route = zero_route\<lparr>r_active := True, r_sender_id := sender_id,
                                 r_target_id := target_id, r_source_transfer_id := source_transfer_id,
                                 r_outbound_transfer_id := outbound_transfer_id,
                                 r_expected_size := expected_size\<rparr>
                           in (set_route t1 i route, FILE_ROUTE_ADD_READY, copy_endpoint route, clear_endpoint))"

definition add_tombstone :: "RouteTable \<Rightarrow> ClientId \<Rightarrow> u32 \<Rightarrow> RouteTable" where
  "add_tombstone t sender_id source_transfer_id =
     (case find_free_route_locked t of
        None \<Rightarrow> t
      | Some i \<Rightarrow> set_route t i (make_discard_route sender_id source_transfer_id))"

definition file_routes_quarantine ::
  "RouteTable \<Rightarrow> ClientId \<Rightarrow> u32 \<Rightarrow> bool \<Rightarrow> RouteTable \<times> bool \<times> FileRouteEndpoint" where
  "file_routes_quarantine t sender_id source_transfer_id keep_discard =
     (case find_route_locked t sender_id source_transfer_id of
        Some i \<Rightarrow>
          let was_forwarding = (\<not> r_discard (routes t ! i));
              previous = (if was_forwarding then copy_endpoint (routes t ! i) else clear_endpoint)
          in (set_route t i (if keep_discard then make_discard_route sender_id source_transfer_id else zero_route),
              was_forwarding, previous)
      | None \<Rightarrow>
          (if keep_discard then add_tombstone t sender_id source_transfer_id else t, False, clear_endpoint))"

definition file_routes_accept_chunk ::
  "RouteTable \<Rightarrow> ClientId \<Rightarrow> u32 \<Rightarrow> nat \<Rightarrow> RouteTable \<times> FileRouteChunkResult \<times> FileRouteEndpoint" where
  "file_routes_accept_chunk t sender_id source_transfer_id chunk_length =
     (case find_route_locked t sender_id source_transfer_id of
        None \<Rightarrow> (add_tombstone t sender_id source_transfer_id, FILE_ROUTE_CHUNK_MISSING, clear_endpoint)
      | Some i \<Rightarrow>
          let route = routes t ! i
          in if r_discard route then (t, FILE_ROUTE_CHUNK_DISCARD, clear_endpoint)
             else if r_expected_size route < r_forwarded_size route \<or>
                     r_expected_size route - r_forwarded_size route < of_nat chunk_length
             then (set_route t i (make_discard_route sender_id source_transfer_id), FILE_ROUTE_CHUNK_OVERRUN,
                   copy_endpoint route)
             else (set_route t i (route\<lparr>r_forwarded_size := r_forwarded_size route + of_nat chunk_length\<rparr>),
                   FILE_ROUTE_CHUNK_READY, copy_endpoint route))"

definition file_routes_mark_forward_failed :: "RouteTable \<Rightarrow> ClientId \<Rightarrow> u32 \<Rightarrow> u32 \<Rightarrow> RouteTable \<times> bool" where
  "file_routes_mark_forward_failed t sender_id source_transfer_id outbound_transfer_id =
     (case find_route_locked t sender_id source_transfer_id of
        Some i \<Rightarrow>
          if \<not> r_discard (routes t ! i) \<and> r_outbound_transfer_id (routes t ! i) = outbound_transfer_id
          then (set_route t i (make_discard_route sender_id source_transfer_id), True)
          else (t, False)
      | None \<Rightarrow> (t, False))"

definition file_routes_finish ::
  "RouteTable \<Rightarrow> ClientId \<Rightarrow> u32 \<Rightarrow> bool \<Rightarrow> RouteTable \<times> FileRouteFinishResult \<times> FileRouteEndpoint" where
  "file_routes_finish t sender_id source_transfer_id validate_size =
     (case find_route_locked t sender_id source_transfer_id of
        None \<Rightarrow> (t, FILE_ROUTE_FINISH_MISSING, clear_endpoint)
      | Some i \<Rightarrow>
          let route = routes t ! i
          in if r_discard route then (set_route t i zero_route, FILE_ROUTE_FINISH_DISCARD, clear_endpoint)
             else (set_route t i zero_route,
                   if validate_size \<and> r_forwarded_size route \<noteq> r_expected_size route
                   then FILE_ROUTE_FINISH_INCOMPLETE else FILE_ROUTE_FINISH_READY,
                   copy_endpoint route))"

text \<open>
  The body of the loop of \<open>file_routes_abort_client\<close> on one route: the route it leaves and
  the action it wants to report; the loop drops actions beyond the caller's capacity.
\<close>

definition abort_route :: "ClientId \<Rightarrow> FileRoute \<Rightarrow> FileRoute \<times> FileRouteAbortAction option" where
  "abort_route client_id route =
     (if \<not> r_active route \<or> (r_sender_id route \<noteq> client_id \<and> r_target_id route \<noteq> client_id) then (route, None)
      else if \<not> r_discard route \<and> r_sender_id route = client_id \<and> r_target_id route \<noteq> INVALID_CLIENT_ID \<and>
              r_target_id route \<noteq> client_id
      then (zero_route, Some \<lparr>aa_type = FILE_ROUTE_ABORT_SEND_ERROR, aa_client_id = r_target_id route,
              aa_outbound_transfer_id = r_outbound_transfer_id route\<rparr>)
      else if \<not> r_discard route \<and> r_target_id route = client_id \<and> r_sender_id route \<noteq> INVALID_CLIENT_ID \<and>
              r_sender_id route \<noteq> client_id
      then (make_discard_route (r_sender_id route) (r_source_transfer_id route),
            Some \<lparr>aa_type = FILE_ROUTE_ABORT_NOTIFY_SENDER, aa_client_id = r_sender_id route,
              aa_outbound_transfer_id = 0\<rparr>)
      else (zero_route, None))"

fun abort_loop :: "ClientId \<Rightarrow> nat \<Rightarrow> nat \<Rightarrow> FileRoute list \<Rightarrow> FileRoute list \<times> FileRouteAbortAction list" where
  "abort_loop client_id capacity count [] = ([], [])"
| "abort_loop client_id capacity count (r # rs) =
     (let (r', action) = abort_route client_id r;
          written = (case action of Some a \<Rightarrow> if count < capacity then [a] else [] | None \<Rightarrow> []);
          (rs', actions) = abort_loop client_id capacity (count + length written) rs
      in (r' # rs', written @ actions))"

definition file_routes_abort_client ::
  "RouteTable \<Rightarrow> ClientId \<Rightarrow> nat \<Rightarrow> RouteTable \<times> FileRouteAbortAction list" where
  "file_routes_abort_client t client_id action_capacity =
     (if client_id = INVALID_CLIENT_ID then (t, [])
      else let (rs, actions) = abort_loop client_id action_capacity 0 (routes t) in (t\<lparr>routes := rs\<rparr>, actions))"

section \<open>Allocation of outbound numbers\<close>

text \<open>
  The candidates tried from counter \<open>n\<close> run through the non-zero numbers cyclically, so 401
  of them are distinct, and at most 400 are in use: the loop always finds one.
\<close>

definition nz :: "u32 \<Rightarrow> u32" where
  "nz n = (if n = 0 then 1 else n)"

definition candidate :: "u32 \<Rightarrow> nat \<Rightarrow> u32" where
  "candidate n j = of_nat ((unat (nz n) - 1 + j) mod (2 ^ 32 - 1) + 1)"

lemma allocate_outbound_step:
  "allocate_outbound_loop (Suc k) rs n =
     (if outbound_in_use rs (nz n) then allocate_outbound_loop k rs (nz n + 1) else (nz n, nz n + 1))"
  by (simp add: nz_def Let_def)

lemma nz_nonzero [simp]: "nz n \<noteq> 0"
  by (simp add: nz_def)

lemma u32_less: "unat (n :: u32) < 4294967296"
  using unsigned_less [of n, where ?'a = nat] by simp

lemma nz_pos: "0 < unat (nz n)" "unat (nz n) < 4294967296"
  using u32_less [of "nz n"] by (simp_all add: unat_gt_0)

lemma unat_of_nat_u32: "x < 4294967296 \<Longrightarrow> unat (of_nat x :: u32) = x"
  by (simp add: unsigned_of_nat take_bit_nat_eq_self)

lemma candidate_0: "candidate n 0 = nz n"
  using nz_pos [of n] by (simp add: candidate_def)

lemma nz_succ: "unat (nz (nz n + 1)) - Suc 0 = unat (nz n) mod 4294967295"
proof (cases "nz n = -1")
  case True
  moreover have "unat (-1 :: u32) = 4294967295" by (simp add: unsigned_minus_1_eq_mask mask_eq_exp_minus_1)
  ultimately show ?thesis by (simp add: nz_def)
next
  case False
  then have s: "unat (nz n + 1) = Suc (unat (nz n))" by (rule word_inc_unat)
  then have "nz (nz n + 1) = nz n + 1" by (auto simp: nz_def)
  moreover have "unat (nz n) < 4294967295" using s u32_less [of "nz n + 1"] by simp
  ultimately show ?thesis using s by simp
qed

lemma candidate_Suc: "candidate (nz n + 1) j = candidate n (Suc j)"
proof -
  have "(unat (nz n) mod 4294967295 + j) mod 4294967295 = (unat (nz n) - 1 + Suc j) mod 4294967295"
    using nz_pos [of n] by (simp add: mod_add_left_eq)
  then show ?thesis by (simp add: candidate_def nz_succ)
qed

lemma mod_shift_eq:
  assumes "(b + i) mod m = (b + j) mod (m :: nat)" "i < m" "j < m"
  shows "i = j"
proof -
  have less: "x = y" if "x \<le> y" "y < m" "(b + x) mod m = (b + y) mod m" for x y
  proof -
    have "m dvd y - x" using that mod_eq_dvd_iff_nat [of "b + x" "b + y" m] by simp
    then show ?thesis using that by (metis diff_is_0_eq dvd_imp_le le_antisym less_imp_diff_less not_gr0 not_le)
  qed
  show ?thesis using less [of i j] less [of j i] assms by (metis nat_le_linear)
qed

lemma candidate_inj: "inj_on (candidate n) {..<4294967295}"
proof (rule inj_onI)
  fix i j
  assume ij: "i \<in> {..<4294967295}" "j \<in> {..<(4294967295::nat)}" and eq: "candidate n i = candidate n j"
  let ?b = "unat (nz n) - 1"
  have lt: "(?b + x) mod 4294967295 + 1 < 4294967296" for x :: nat
    using mod_less_divisor [of 4294967295 "?b + x"] by simp
  have c: "unat (candidate n x) = (?b + x) mod 4294967295 + 1" for x
    using unat_of_nat_u32 [OF lt [of x]] by (simp only: candidate_def) simp
  have "(?b + i) mod 4294967295 + 1 = (?b + j) mod 4294967295 + 1" using c [of i] c [of j] eq by simp
  then show "i = j" using ij mod_shift_eq [of ?b i 4294967295 j] by simp
qed

lemma allocate_outbound_zero:
  "fst (allocate_outbound_loop k rs n) = 0 \<Longrightarrow> j < k \<Longrightarrow> outbound_in_use rs (candidate n j)"
proof (induction k arbitrary: n j)
  case (Suc k)
  then have u: "outbound_in_use rs (nz n)" "fst (allocate_outbound_loop k rs (nz n + 1)) = 0"
    unfolding allocate_outbound_step by (auto split: if_splits)
  show ?case
  proof (cases j)
    case 0
    then show ?thesis using u by (simp add: candidate_0)
  next
    case (Suc i)
    then show ?thesis using Suc.IH [OF u(2), of i] Suc.prems by (simp add: candidate_Suc)
  qed
qed simp

lemma allocate_outbound_unused:
  "fst (allocate_outbound_loop k rs n) \<noteq> 0 \<Longrightarrow> \<not> outbound_in_use rs (fst (allocate_outbound_loop k rs n))"
  by (induction k arbitrary: n) (auto simp: allocate_outbound_step simp del: allocate_outbound_loop.simps(2))

lemma allocate_outbound_succeeds:
  assumes "length rs < k" "k \<le> 4294967295"
  shows "fst (allocate_outbound_loop k rs n) \<noteq> 0"
proof
  assume z: "fst (allocate_outbound_loop k rs n) = 0"
  have "candidate n ` {..<k} \<subseteq> r_outbound_transfer_id ` set rs"
  proof
    fix x
    assume "x \<in> candidate n ` {..<k}"
    then obtain j where "j < k" "x = candidate n j" by auto
    then show "x \<in> r_outbound_transfer_id ` set rs"
      using allocate_outbound_zero [OF z, of j] by (force simp: outbound_in_use_def list_ex_iff)
  qed
  then have "card (candidate n ` {..<k}) \<le> length rs"
    by (meson card_image_le card_length card_mono finite_imageI finite_set le_trans)
  moreover have "card (candidate n ` {..<k}) = k"
    using inj_on_subset [OF candidate_inj, of "{..<k}" n] assms(2) by (subst card_image) auto
  ultimately show False using assms(1) by simp
qed

section \<open>Invariant and abstract view\<close>

datatype route = Discarding | Forwarding ClientId u32 nat nat

definition route_key :: "FileRoute \<Rightarrow> ClientId \<times> u32" where
  "route_key r = (r_sender_id r, r_source_transfer_id r)"

definition live :: "FileRoute \<Rightarrow> bool" where
  "live r \<longleftrightarrow> r_active r \<and> \<not> r_discard r"

definition route_view :: "FileRoute \<Rightarrow> route" where
  "route_view r =
     (if r_discard r then Discarding
      else Forwarding (r_target_id r) (r_outbound_transfer_id r) (unat (r_expected_size r)) (unat (r_forwarded_size r)))"

definition route_map :: "RouteTable \<Rightarrow> ClientId \<times> u32 \<Rightarrow> route option" where
  "route_map t k = map_option route_view (slot_lookup r_active route_key (routes t) k)"

definition route_ok :: "FileRoute \<Rightarrow> bool" where
  "route_ok r \<longleftrightarrow>
     (\<not> r_active r \<longrightarrow> r = zero_route) \<and>
     (r_active r \<and> r_discard r \<longrightarrow> r = make_discard_route (r_sender_id r) (r_source_transfer_id r)) \<and>
     (live r \<longrightarrow> r_outbound_transfer_id r \<noteq> 0 \<and> r_forwarded_size r \<le> r_expected_size r)"

text \<open>
  400 slots; a free slot is zeroed and a tombstone carries only its key; keys are unique;
  the outbound numbers of the forwarding routes are non-zero and unique; no route has
  forwarded more than was announced.
\<close>

definition routes_inv :: "RouteTable \<Rightarrow> bool" where
  "routes_inv t \<longleftrightarrow>
     length (routes t) = FILE_ROUTE_CAPACITY \<and> slot_unique r_active route_key (routes t) \<and>
     slot_unique live r_outbound_transfer_id (routes t) \<and> list_all route_ok (routes t)"

interpretation by_key: slot_table r_active route_key zero_route
  by unfold_locales (simp add: zero_route_def)

interpretation by_outbound: slot_table live r_outbound_transfer_id zero_route
  by unfold_locales (simp add: zero_route_def live_def)

lemma route_simps [simp]:
  "\<not> r_active zero_route" "\<not> live zero_route" "route_ok zero_route"
  "r_active (make_discard_route s x)" "\<not> live (make_discard_route s x)" "route_ok (make_discard_route s x)"
  "r_discard (make_discard_route s x)" "route_key (make_discard_route s x) = (s, x)"
  "route_view (make_discard_route s x) = Discarding" "r_target_id (make_discard_route s x) = 0"
  "r_sender_id (make_discard_route s x) = s" "r_source_transfer_id (make_discard_route s x) = x"
  by (simp_all add: zero_route_def make_discard_route_def live_def route_ok_def route_key_def route_view_def)

lemma live_active: "live r \<Longrightarrow> r_active r"
  by (simp add: live_def)

lemma routes_inv_nth: "routes_inv t \<Longrightarrow> i < length (routes t) \<Longrightarrow> route_ok (routes t ! i)"
  by (simp add: routes_inv_def list_all_length)

lemma find_route_eq:
  "find_route_locked t s x = find_slot (\<lambda>r. r_active r \<and> route_key r = (s, x)) (routes t)"
  unfolding find_route_locked_def by (rule find_slot_cong) (auto simp: route_key_def)

lemma find_route_Some:
  assumes "find_route_locked t s x = Some i"
  shows "i < length (routes t)" "r_active (routes t ! i)" "route_key (routes t ! i) = (s, x)"
    "route_map t (s, x) = Some (route_view (routes t ! i))"
  using assms find_slotD [of _ "routes t" i] by (auto simp: find_route_eq route_map_def slot_lookup_def dest: find_slotD)

lemma find_route_None: "find_route_locked t s x = None \<longleftrightarrow> route_map t (s, x) = None"
  by (simp add: find_route_eq route_map_def slot_lookup_def)

lemma find_free_Some:
  assumes "find_free_route_locked t = Some i"
  shows "i < length (routes t)" "\<not> r_active (routes t ! i)"
  using assms find_slotD [of _ "routes t" i] by (auto simp: find_free_route_locked_def)

lemma dom_route_map: "dom (route_map t) = dom (slot_lookup r_active route_key (routes t))"
  by (auto simp: route_map_def dom_def)

lemma find_free_None:
  "routes_inv t \<Longrightarrow> find_free_route_locked t = None \<longleftrightarrow> card (dom (route_map t)) = FILE_ROUTE_CAPACITY"
  using by_key.full_iff [of "routes t"] by (simp add: find_free_route_locked_def dom_route_map routes_inv_def)

text \<open>The three kinds of writes to the table.\<close>

lemma routes_write_inv:
  assumes inv: "routes_inv t" and i: "i < length (routes t)" and ok: "route_ok r"
    and key: "r_active r \<Longrightarrow> (if r_active (routes t ! i) then route_key r = route_key (routes t ! i)
                else route_map t (route_key r) = None)"
    and out: "live r \<Longrightarrow> (if live (routes t ! i) then r_outbound_transfer_id r = r_outbound_transfer_id (routes t ! i)
                else \<not> outbound_in_use (routes t) (r_outbound_transfer_id r))"
  shows "routes_inv (set_route t i r)"
proof -
  have u: "slot_unique r_active route_key (routes t)" "slot_unique live r_outbound_transfer_id (routes t)"
    "list_all route_ok (routes t)" using inv by (simp_all add: routes_inv_def)
  have "slot_unique r_active route_key ((routes t)[i := r])"
  proof (cases "r_active (routes t ! i)")
    case True
    then show ?thesis using key by (intro by_key.unique_same_key [OF u(1) i]) auto
  next
    case False
    show ?thesis
    proof (cases "r_active r")
      case True
      then show ?thesis using key False by (intro by_key.unique_new_key [OF u(1)]) (simp add: route_map_def)
    qed (rule by_key.unique_inactive [OF u(1)])
  qed
  moreover have "slot_unique live r_outbound_transfer_id ((routes t)[i := r])"
  proof (cases "live (routes t ! i)")
    case True
    then show ?thesis using out by (intro by_outbound.unique_same_key [OF u(2) i]) auto
  next
    case False
    show ?thesis
    proof (cases "live r")
      case True
      then show ?thesis using out False
        by (intro by_outbound.unique_new_key [OF u(2)])
           (auto simp: by_outbound.lookup_None outbound_in_use_def live_def list_ex_length)
    qed (rule by_outbound.unique_inactive [OF u(2)])
  qed
  ultimately show ?thesis using inv list_all_update [OF u(3) ok] by (simp add: routes_inv_def)
qed

lemma routes_unique: "routes_inv t \<Longrightarrow> slot_unique r_active route_key (routes t)"
  by (simp add: routes_inv_def)

lemma route_map_fill:
  assumes "routes_inv t" "i < length (routes t)" "\<not> r_active (routes t ! i)" "r_active r" "route_map t (route_key r) = None"
  shows "route_map (set_route t i r) = (route_map t)(route_key r \<mapsto> route_view r)"
  using by_key.lookup_fill [OF routes_unique [OF assms(1)] assms(2-4)] assms(5)
  by (simp add: route_map_def fun_eq_iff)

lemma route_map_rewrite:
  assumes "routes_inv t" "i < length (routes t)" "r_active (routes t ! i)" "r_active r" "route_key r = route_key (routes t ! i)"
  shows "route_map (set_route t i r) = (route_map t)(route_key r \<mapsto> route_view r)"
  using by_key.lookup_rewrite [OF routes_unique [OF assms(1)] assms(2-5)]
  by (simp add: route_map_def fun_eq_iff)

lemma route_map_clear:
  assumes "routes_inv t" "i < length (routes t)" "r_active (routes t ! i)"
  shows "route_map (set_route t i zero_route) = (route_map t)(route_key (routes t ! i) := None)"
  using by_key.lookup_clear [OF routes_unique [OF assms(1)] assms(2,3) by_key.blank_inactive]
  by (simp add: route_map_def fun_eq_iff)

section \<open>Each operation on the abstract view\<close>

fun endpoint_of :: "route \<Rightarrow> FileRouteEndpoint" where
  "endpoint_of Discarding = clear_endpoint"
| "endpoint_of (Forwarding target outbound fsize fwd) =
     \<lparr>ep_target_id = target, ep_outbound_transfer_id = outbound\<rparr>"

fun is_forwarding :: "route \<Rightarrow> bool" where
  "is_forwarding Discarding = False"
| "is_forwarding (Forwarding _ _ _ _) = True"

definition routes_full :: "RouteTable \<Rightarrow> bool" where
  "routes_full t \<longleftrightarrow> card (dom (route_map t)) = FILE_ROUTE_CAPACITY"

lemma endpoint_of_view:
  "endpoint_of (route_view r) = (if r_discard r then clear_endpoint else copy_endpoint r)"
  "is_forwarding (route_view r) = (\<not> r_discard r)"
  by (simp_all add: route_view_def copy_endpoint_def)

lemma discard_route_write:
  assumes inv: "routes_inv t" and i: "find_route_locked t s x = Some i"
  shows "routes_inv (set_route t i (make_discard_route s x))"
    "route_map (set_route t i (make_discard_route s x)) = (route_map t)((s, x) \<mapsto> Discarding)"
  using find_route_Some [OF i] inv routes_write_inv [OF inv, of i "make_discard_route s x"]
    route_map_rewrite [OF inv, of i "make_discard_route s x"] by simp_all

lemma zero_route_write:
  assumes inv: "routes_inv t" and i: "find_route_locked t s x = Some i"
  shows "routes_inv (set_route t i zero_route)" "route_map (set_route t i zero_route) = (route_map t)((s, x) := None)"
  using find_route_Some [OF i] inv routes_write_inv [OF inv, of i zero_route] route_map_clear [OF inv, of i] by simp_all

lemma tombstone_write:
  assumes inv: "routes_inv t" and new: "route_map t (s, x) = None" and i: "find_free_route_locked t = Some i"
  shows "routes_inv (set_route t i (make_discard_route s x))"
    "route_map (set_route t i (make_discard_route s x)) = (route_map t)((s, x) \<mapsto> Discarding)"
  using find_free_Some [OF i] new inv routes_write_inv [OF inv, of i "make_discard_route s x"]
    route_map_fill [OF inv, of i "make_discard_route s x"] by simp_all

lemma find_free_full: "routes_inv t \<Longrightarrow> find_free_route_locked t = None \<longleftrightarrow> routes_full t"
  by (simp add: find_free_None routes_full_def)

lemma add_tombstone_spec:
  assumes inv: "routes_inv t" and new: "route_map t (s, x) = None"
  shows "routes_inv (add_tombstone t s x)"
    "route_map (add_tombstone t s x) = (if routes_full t then route_map t else (route_map t)((s, x) \<mapsto> Discarding))"
  using tombstone_write [OF inv new] find_free_full [OF inv] inv
  by (auto simp: add_tombstone_def split: option.splits)

lemma outbound_in_use_iff:
  assumes inv: "routes_inv t"
  shows "outbound_in_use (routes t) n \<longleftrightarrow> (\<exists>k target fsize fwd. route_map t k = Some (Forwarding target n fsize fwd))"
proof
  assume "outbound_in_use (routes t) n"
  then obtain r where r: "r \<in> set (routes t)" "r_active r" "\<not> r_discard r" "r_outbound_transfer_id r = n"
    by (auto simp: outbound_in_use_def list_ex_iff)
  then have "slot_lookup r_active route_key (routes t) (route_key r) = Some r"
    using by_key.lookup_Some [OF routes_unique [OF inv]] by (auto simp: in_set_conv_nth)
  then show "\<exists>k target fsize fwd. route_map t k = Some (Forwarding target n fsize fwd)"
    using r by (intro exI [of _ "route_key r"]) (simp add: route_map_def route_view_def)
next
  assume "\<exists>k target fsize fwd. route_map t k = Some (Forwarding target n fsize fwd)"
  then show "outbound_in_use (routes t) n"
    using by_key.lookup_Some [OF routes_unique [OF inv]]
    by (auto simp: route_map_def route_view_def outbound_in_use_def list_ex_length split: if_splits)
qed

lemma allocate_outbound_spec:
  assumes inv: "routes_inv t" and a: "allocate_outbound_id_locked t = (n, t1)"
  shows "n \<noteq> 0" "\<not> outbound_in_use (routes t) n" "routes t1 = routes t" "routes_inv t1" "route_map t1 = route_map t"
proof -
  obtain c m where l: "allocate_outbound_loop (Suc FILE_ROUTE_CAPACITY) (routes t) (next_outbound_transfer_id t) = (c, m)"
    by fastforce
  have n: "n = c" "t1 = t\<lparr>next_outbound_transfer_id := m\<rparr>"
    using a l by (auto simp: allocate_outbound_id_locked_def simp del: allocate_outbound_loop.simps)
  show z: "n \<noteq> 0"
    using allocate_outbound_succeeds [of "routes t" "Suc FILE_ROUTE_CAPACITY" "next_outbound_transfer_id t"] inv l n
    by (simp add: routes_inv_def FILE_ROUTE_CAPACITY_def MAX_CLIENTS_def del: allocate_outbound_loop.simps)
  show "\<not> outbound_in_use (routes t) n"
    using allocate_outbound_unused [of "Suc FILE_ROUTE_CAPACITY" "routes t" "next_outbound_transfer_id t"] l n z by simp
  show "routes t1 = routes t" "routes_inv t1" "route_map t1 = route_map t"
    using n inv by (simp_all add: routes_inv_def route_map_def fun_eq_iff)
qed

lemma add_route_spec:
  assumes inv: "routes_inv t" and a: "file_routes_add t s x target fsize discard = (t', r, ep, replaced)"
  shows "routes_inv t' \<and>
    (case route_map t (s, x) of
       Some old \<Rightarrow> r = FILE_ROUTE_ADD_DUPLICATE \<and> route_map t' = (route_map t)((s, x) \<mapsto> Discarding) \<and>
         ep = clear_endpoint \<and> replaced = endpoint_of old
     | None \<Rightarrow> replaced = clear_endpoint \<and>
         (if routes_full t then r = FILE_ROUTE_ADD_FULL \<and> t' = t \<and> ep = clear_endpoint
          else if discard
          then r = FILE_ROUTE_ADD_DISCARD \<and> route_map t' = (route_map t)((s, x) \<mapsto> Discarding) \<and> ep = clear_endpoint
          else r = FILE_ROUTE_ADD_READY \<and> ep_target_id ep = target \<and> ep_outbound_transfer_id ep \<noteq> 0 \<and>
               (\<forall>k target' fsize' fwd. route_map t k \<noteq> Some (Forwarding target' (ep_outbound_transfer_id ep) fsize' fwd)) \<and>
               route_map t' = (route_map t)((s, x) \<mapsto> Forwarding target (ep_outbound_transfer_id ep) (unat fsize) 0)))"
proof (cases "find_route_locked t s x")
  case (Some i)
  note w = discard_route_write [OF inv Some] and i = find_route_Some [OF Some]
  show ?thesis using a w i(4) by (auto simp: file_routes_add_def Some Let_def endpoint_of_view)
next
  case None
  then have new: "route_map t (s, x) = None" by (simp add: find_route_None)
  show ?thesis
  proof (cases "find_free_route_locked t")
    case None': None
    then show ?thesis using a new inv find_free_full [OF inv] by (auto simp: file_routes_add_def None)
  next
    case (Some i)
    then have full: "\<not> routes_full t" using find_free_full [OF inv] by auto
    show ?thesis
    proof (cases discard)
      case True
      then show ?thesis using a new full tombstone_write [OF inv new Some] by (auto simp: file_routes_add_def None Some)
    next
      case False
      obtain n t1 where n: "allocate_outbound_id_locked t = (n, t1)" by fastforce
      note n' = allocate_outbound_spec [OF inv n]
      define route where "route = zero_route\<lparr>r_active := True, r_sender_id := s, r_target_id := target,
        r_source_transfer_id := x, r_outbound_transfer_id := n, r_expected_size := fsize\<rparr>"
      have route: "r_active route" "live route" "route_key route = (s, x)" "r_outbound_transfer_id route = n"
        "route_view route = Forwarding target n (unat fsize) 0" "route_ok route"
        using n'(1) by (simp_all add: route_def zero_route_def live_def route_key_def route_view_def route_ok_def)
      have i: "i < length (routes t1)" "\<not> r_active (routes t1 ! i)" using find_free_Some [OF Some] n'(3) by simp_all
      have eq: "t' = set_route t1 i route" "r = FILE_ROUTE_ADD_READY" "ep = copy_endpoint route" "replaced = clear_endpoint"
        using a n'(1) False by (auto simp: file_routes_add_def None Some n Let_def route_def)
      have "routes_inv t'" unfolding eq(1)
        by (rule routes_write_inv [OF n'(4) i(1) route(6)]) (use i route new n' live_active in auto)
      moreover have "route_map t' = (route_map t)((s, x) \<mapsto> Forwarding target n (unat fsize) 0)" unfolding eq(1)
        using route_map_fill [OF n'(4) i route(1)] route new n'(5) by simp
      moreover have "ep = \<lparr>ep_target_id = target, ep_outbound_transfer_id = n\<rparr>"
        unfolding eq(3) copy_endpoint_def route(4) by (simp add: route_def)
      ultimately show ?thesis using new full False eq n'(1,2) by (simp add: outbound_in_use_iff [OF inv])
    qed
  qed
qed

lemma quarantine_spec:
  assumes inv: "routes_inv t" and a: "file_routes_quarantine t s x keep = (t', was, previous)"
  shows "routes_inv t' \<and>
    (case route_map t (s, x) of
       Some old \<Rightarrow> was = is_forwarding old \<and> previous = endpoint_of old \<and>
         route_map t' = (route_map t)((s, x) := if keep then Some Discarding else None)
     | None \<Rightarrow> \<not> was \<and> previous = clear_endpoint \<and>
         route_map t' = (if keep \<and> \<not> routes_full t then (route_map t)((s, x) \<mapsto> Discarding) else route_map t))"
proof (cases "find_route_locked t s x")
  case None
  then have "route_map t (s, x) = None" by (simp add: find_route_None)
  then show ?thesis using a inv add_tombstone_spec [OF inv, of s x]
    by (auto simp: file_routes_quarantine_def None)
next
  case (Some i)
  show ?thesis using a Some find_route_Some(4) [OF Some] discard_route_write [OF inv Some] zero_route_write [OF inv Some]
    by (auto simp: file_routes_quarantine_def Let_def endpoint_of_view)
qed

lemma mark_failed_spec:
  assumes inv: "routes_inv t" and a: "file_routes_mark_forward_failed t s x n = (t', converted)"
  shows "routes_inv t' \<and>
    (converted \<longleftrightarrow> (\<exists>target fsize fwd. route_map t (s, x) = Some (Forwarding target n fsize fwd))) \<and>
    route_map t' = (if converted then (route_map t)((s, x) \<mapsto> Discarding) else route_map t)"
proof (cases "find_route_locked t s x")
  case None
  then have "route_map t (s, x) = None" by (simp add: find_route_None)
  then show ?thesis using a inv by (auto simp: file_routes_mark_forward_failed_def None)
next
  case (Some i)
  show ?thesis using a inv Some find_route_Some(4) [OF Some] discard_route_write [OF inv Some]
    by (auto simp: file_routes_mark_forward_failed_def route_view_def split: if_splits)
qed

lemma finish_spec:
  assumes inv: "routes_inv t" and a: "file_routes_finish t s x validate = (t', r, ep)"
  shows "routes_inv t' \<and> route_map t' = (route_map t)((s, x) := None) \<and>
    (case route_map t (s, x) of
       None \<Rightarrow> r = FILE_ROUTE_FINISH_MISSING \<and> ep = clear_endpoint
     | Some Discarding \<Rightarrow> r = FILE_ROUTE_FINISH_DISCARD \<and> ep = clear_endpoint
     | Some (Forwarding target n fsize fwd) \<Rightarrow>
         r = (if validate \<and> fwd \<noteq> fsize then FILE_ROUTE_FINISH_INCOMPLETE else FILE_ROUTE_FINISH_READY) \<and>
         ep = \<lparr>ep_target_id = target, ep_outbound_transfer_id = n\<rparr>)"
proof (cases "find_route_locked t s x")
  case None
  then have "route_map t (s, x) = None" by (simp add: find_route_None)
  then show ?thesis using a inv by (auto simp: file_routes_finish_def None fun_upd_idem)
next
  case (Some i)
  have "r_forwarded_size (routes t ! i) = r_expected_size (routes t ! i) \<longleftrightarrow>
      unat (r_forwarded_size (routes t ! i)) = unat (r_expected_size (routes t ! i))"
    by (metis unsigned_word_eqI)
  then show ?thesis using a inv Some find_route_Some(4) [OF Some] zero_route_write [OF inv Some]
    by (auto simp: file_routes_finish_def route_view_def copy_endpoint_def Let_def split: if_splits)
qed

text \<open>Counting a chunk that fits.\<close>

lemma forward_write:
  assumes inv: "routes_inv t" and find: "find_route_locked t s x = Some i" and live: "\<not> r_discard (routes t ! i)"
    and fits: "unat (r_forwarded_size (routes t ! i)) + n \<le> unat (r_expected_size (routes t ! i))"
  defines "r \<equiv> routes t ! i"
  defines "r' \<equiv> r\<lparr>r_forwarded_size := r_forwarded_size r + of_nat n\<rparr>"
  shows "routes_inv (set_route t i r')" "route_map (set_route t i r') = (route_map t)((s, x) \<mapsto>
    Forwarding (r_target_id r) (r_outbound_transfer_id r) (unat (r_expected_size r)) (unat (r_forwarded_size r) + n))"
proof -
  note i = find_route_Some [OF find]
  have ok: "route_ok r" using routes_inv_nth [OF inv i(1)] by (simp add: r_def)
  have bound: "unat (r_forwarded_size r) + n < 2 ^ 64"
    using fits unsigned_less [of "r_expected_size r", where ?'a = nat] by (simp add: r_def)
  then have "unat (of_nat n :: u64) = n" by (simp add: unsigned_of_nat take_bit_nat_eq_self)
  then have "unat (r_forwarded_size r + of_nat n) = unat (r_forwarded_size r) + n"
    using bound by (subst unat_add_lem [THEN iffD1]) auto
  then have r': "r_active r'" "route_key r' = (s, x)" "route_ok r'" "live r' = live r"
    "route_view r' = Forwarding (r_target_id r) (r_outbound_transfer_id r) (unat (r_expected_size r)) (unat (r_forwarded_size r) + n)"
    using i ok live fits by (auto simp: r'_def r_def route_key_def route_ok_def live_def route_view_def word_le_nat_alt)
  show "routes_inv (set_route t i r')"
    by (rule routes_write_inv [OF inv i(1) r'(3)]) (use i r' live in \<open>auto simp: live_def r'_def r_def\<close>)
  show "route_map (set_route t i r') = (route_map t)((s, x) \<mapsto>
      Forwarding (r_target_id r) (r_outbound_transfer_id r) (unat (r_expected_size r)) (unat (r_forwarded_size r) + n))"
    using route_map_rewrite [OF inv i(1,2), of r'] r' i by (simp add: r_def)
qed

lemma accept_chunk_spec:
  assumes inv: "routes_inv t" and a: "file_routes_accept_chunk t s x n = (t', r, ep)" and n: "n < 2 ^ 64"
  shows "routes_inv t' \<and>
    (case route_map t (s, x) of
       None \<Rightarrow> r = FILE_ROUTE_CHUNK_MISSING \<and> ep = clear_endpoint \<and>
         route_map t' = (if routes_full t then route_map t else (route_map t)((s, x) \<mapsto> Discarding))
     | Some Discarding \<Rightarrow> r = FILE_ROUTE_CHUNK_DISCARD \<and> ep = clear_endpoint \<and> t' = t
     | Some (Forwarding target out fsize fwd) \<Rightarrow>
         ep = \<lparr>ep_target_id = target, ep_outbound_transfer_id = out\<rparr> \<and>
         (if fwd + n \<le> fsize
          then r = FILE_ROUTE_CHUNK_READY \<and> route_map t' = (route_map t)((s, x) \<mapsto> Forwarding target out fsize (fwd + n))
          else r = FILE_ROUTE_CHUNK_OVERRUN \<and> route_map t' = (route_map t)((s, x) \<mapsto> Discarding)))"
proof (cases "find_route_locked t s x")
  case None
  then have "route_map t (s, x) = None" by (simp add: find_route_None)
  then show ?thesis using a inv add_tombstone_spec [OF inv, of s x] by (auto simp: file_routes_accept_chunk_def None)
next
  case (Some i)
  note i = find_route_Some [OF Some]
  let ?r = "routes t ! i"
  show ?thesis
  proof (cases "r_discard ?r")
    case True
    then show ?thesis using a inv i by (auto simp: file_routes_accept_chunk_def Some Let_def route_view_def)
  next
    case False
    have ok: "route_ok ?r" "r_forwarded_size ?r \<le> r_expected_size ?r"
      using routes_inv_nth [OF inv i(1)] i(2) False by (auto simp: route_ok_def live_def)
    have un: "unat (of_nat n :: u64) = n" using n by (simp add: unsigned_of_nat take_bit_nat_eq_self)
    have fits: "\<not> (r_expected_size ?r < r_forwarded_size ?r \<or> r_expected_size ?r - r_forwarded_size ?r < of_nat n) \<longleftrightarrow>
        unat (r_forwarded_size ?r) + n \<le> unat (r_expected_size ?r)"
      using ok(2) un by (auto simp: word_less_nat_alt word_le_nat_alt unat_sub)
    have v: "route_map t (s, x) = Some (Forwarding (r_target_id ?r) (r_outbound_transfer_id ?r)
        (unat (r_expected_size ?r)) (unat (r_forwarded_size ?r)))"
      using i(4) False by (simp add: route_view_def)
    show ?thesis
    proof (cases "unat (r_forwarded_size ?r) + n \<le> unat (r_expected_size ?r)")
      case True
      then have "t' = set_route t i (?r\<lparr>r_forwarded_size := r_forwarded_size ?r + of_nat n\<rparr>) \<and> r = FILE_ROUTE_CHUNK_READY \<and> ep = copy_endpoint ?r"
        using a False fits by (auto simp: file_routes_accept_chunk_def Some Let_def)
      then show ?thesis using v True forward_write [OF inv Some False True] by (simp add: copy_endpoint_def)
    next
      case ov: False
      then have "t' = set_route t i (make_discard_route s x) \<and> r = FILE_ROUTE_CHUNK_OVERRUN \<and> ep = copy_endpoint ?r"
        using a False fits by (auto simp: file_routes_accept_chunk_def Some Let_def)
      then show ?thesis using v ov discard_route_write [OF inv Some] by (simp add: copy_endpoint_def)
    qed
  qed
qed

section \<open>Aborting a client\<close>

fun abort_view :: "ClientId \<Rightarrow> ClientId \<Rightarrow> route \<Rightarrow> route option" where
  "abort_view c s Discarding = (if s = c then None else Some Discarding)"
| "abort_view c s (Forwarding target out fsize fwd) =
     (if s = c then None
      else if target = c then (if s = INVALID_CLIENT_ID then None else Some Discarding)
      else Some (Forwarding target out fsize fwd))"

fun abort_action :: "ClientId \<Rightarrow> ClientId \<Rightarrow> route \<Rightarrow> FileRouteAbortAction option" where
  "abort_action c s Discarding = None"
| "abort_action c s (Forwarding target out fsize fwd) =
     (if s = c \<and> target \<noteq> INVALID_CLIENT_ID \<and> target \<noteq> c
      then Some \<lparr>aa_type = FILE_ROUTE_ABORT_SEND_ERROR, aa_client_id = target, aa_outbound_transfer_id = out\<rparr>
      else if target = c \<and> s \<noteq> INVALID_CLIENT_ID \<and> s \<noteq> c
      then Some \<lparr>aa_type = FILE_ROUTE_ABORT_NOTIFY_SENDER, aa_client_id = s, aa_outbound_transfer_id = 0\<rparr>
      else None)"

lemma abort_loop_routes: "fst (abort_loop c cap n rs) = map (fst \<circ> abort_route c) rs"
  by (induction rs arbitrary: n) (auto simp: Let_def case_prod_beta)

lemma abort_loop_actions:
  "n + length rs \<le> cap \<Longrightarrow> snd (abort_loop c cap n rs) = List.map_filter (snd \<circ> abort_route c) rs"
  by (induction rs arbitrary: n)
     (auto simp: Let_def List.map_filter_def case_prod_beta split: option.splits)

lemma abort_route_cases:
  assumes "route_ok r" "c \<noteq> 0"
  shows "(r_active r \<and> abort_view c (r_sender_id r) (route_view r) = None \<longrightarrow> fst (abort_route c r) = zero_route) \<and>
    (\<not> r_active r \<longrightarrow> abort_route c r = (r, None)) \<and>
    (r_active r \<longrightarrow> snd (abort_route c r) = abort_action c (r_sender_id r) (route_view r)) \<and>
    (\<forall>v. r_active r \<and> abort_view c (r_sender_id r) (route_view r) = Some v \<longrightarrow>
       fst (abort_route c r) = r \<and> v = route_view r \<or>
       fst (abort_route c r) = make_discard_route (r_sender_id r) (r_source_transfer_id r) \<and> v = Discarding)"
proof (cases "r_active r \<and> r_discard r")
  case True
  then have "r_target_id r = 0" using assms(1) by (metis route_ok_def route_simps(10))
  then show ?thesis using True assms(2) by (auto simp: abort_route_def route_view_def)
next
  case False
  then show ?thesis using assms(2) by (auto simp: abort_route_def route_view_def)
qed

text \<open>The table after the loop, and what it keeps of each route.\<close>

lemma abort_client_routes:
  assumes inv: "routes_inv t" and c: "c \<noteq> 0" and a: "file_routes_abort_client t c cap = (t', actions)"
  shows "routes t' = map (fst \<circ> abort_route c) (routes t)"
    and "r \<in> set (routes t) \<Longrightarrow> route_ok r \<and> route_ok (fst (abort_route c r)) \<and>
      (r_active (fst (abort_route c r)) \<longrightarrow> r_active r \<and> route_key (fst (abort_route c r)) = route_key r \<and>
         (live (fst (abort_route c r)) \<longrightarrow> fst (abort_route c r) = r))"
proof -
  show "routes t' = map (fst \<circ> abort_route c) (routes t)"
    using a c abort_loop_routes [of c cap 0 "routes t"] by (auto simp: file_routes_abort_client_def split: prod.splits)
next
  assume "r \<in> set (routes t)"
  then have ok: "route_ok r" using inv by (auto simp: routes_inv_def list_all_iff)
  then show "route_ok r \<and> route_ok (fst (abort_route c r)) \<and>
      (r_active (fst (abort_route c r)) \<longrightarrow> r_active r \<and> route_key (fst (abort_route c r)) = route_key r \<and>
         (live (fst (abort_route c r)) \<longrightarrow> fst (abort_route c r) = r))"
    using abort_route_cases [OF ok c] route_simps(1,4,5)
    by (cases "r_active r"; cases "abort_view c (r_sender_id r) (route_view r)") (auto simp: route_key_def)
qed

lemma abort_client_inv:
  assumes inv: "routes_inv t" and c: "c \<noteq> 0" and a: "file_routes_abort_client t c cap = (t', actions)"
  shows "routes_inv t'"
proof -
  let ?g = "fst \<circ> abort_route c"
  note t' = abort_client_routes(1) [OF assms] and keep = abort_client_routes(2) [OF assms]
  have "live r \<and> r_outbound_transfer_id (?g r) = r_outbound_transfer_id r" if "r \<in> set (routes t)" "live (?g r)" for r
    using keep [OF that(1)] live_active [OF that(2)] that(2) by auto
  then have "slot_unique live r_outbound_transfer_id (map ?g (routes t))"
    using inv by (intro by_outbound.unique_pass) (simp add: routes_inv_def)
  then show ?thesis using inv t' keep by (auto simp: routes_inv_def list_all_iff intro!: by_key.unique_pass)
qed

lemma abort_client_map:
  assumes inv: "routes_inv t" and c: "c \<noteq> 0" and a: "file_routes_abort_client t c cap = (t', actions)"
  shows "route_map t' (s, x) = Option.bind (route_map t (s, x)) (abort_view c s)"
proof (cases "slot_lookup r_active route_key (routes t) (s, x)")
  case None
  then show ?thesis
    using by_key.lookup_pass [OF routes_unique [OF inv], of "fst \<circ> abort_route c" "(s, x)"] abort_client_routes [OF assms]
    by (simp add: route_map_def)
next
  case (Some r)
  let ?g = "fst \<circ> abort_route c"
  have r: "r \<in> set (routes t)" "r_active r" "r_sender_id r = s"
    using Some by (auto simp: by_key.lookup_Some [OF routes_unique [OF inv]] route_key_def)
  have m: "route_map t' (s, x) = (if r_active (?g r) then Some (route_view (?g r)) else None)"
    using by_key.lookup_pass [OF routes_unique [OF inv], of ?g "(s, x)"] abort_client_routes [OF assms] Some
    by (simp add: route_map_def)
  note cases = abort_route_cases [OF abort_client_routes(2) [OF assms r(1), THEN conjunct1] c]
  show ?thesis
  proof (cases "abort_view c s (route_view r)")
    case None
    then show ?thesis using cases r m Some by (simp add: route_map_def)
  next
    case v: (Some v)
    then have "?g r = r \<and> v = route_view r \<or>
        ?g r = make_discard_route (r_sender_id r) (r_source_transfer_id r) \<and> v = Discarding"
      using cases r by auto
    then have "route_map t' (s, x) = Some v" using m r(2) by (elim disjE) simp_all
    then show ?thesis using v Some by (simp add: route_map_def)
  qed
qed

lemma abort_client_actions:
  assumes inv: "routes_inv t" and c: "c \<noteq> 0" and a: "file_routes_abort_client t c cap = (t', actions)"
    and cap: "FILE_ROUTE_CAPACITY \<le> cap"
  shows "set actions = {act. \<exists>s x v. route_map t (s, x) = Some v \<and> abort_action c s v = Some act}"
proof -
  have acts: "actions = List.map_filter (snd \<circ> abort_route c) (routes t)"
    using a c cap inv abort_loop_actions [of 0 "routes t" cap c]
    by (auto simp: file_routes_abort_client_def routes_inv_def split: prod.splits)
  have lk: "(\<exists>r\<in>set (routes t). r_active r \<and> Q (r_sender_id r) (route_view r)) \<longleftrightarrow>
      (\<exists>s x v. route_map t (s, x) = Some v \<and> Q s v)" for Q
    by (fastforce simp: route_map_def by_key.lookup_Some [OF routes_unique [OF inv]] in_set_conv_nth route_key_def)
  have "act \<in> set actions \<longleftrightarrow> (\<exists>r\<in>set (routes t). r_active r \<and> abort_action c (r_sender_id r) (route_view r) = Some act)" for act
  proof -
    have "act \<in> set actions \<longleftrightarrow> (\<exists>r\<in>set (routes t). snd (abort_route c r) = Some act)"
      unfolding acts by (force simp: List.map_filter_def)
    also have "\<dots> \<longleftrightarrow> (\<exists>r\<in>set (routes t). r_active r \<and> abort_action c (r_sender_id r) (route_view r) = Some act)"
      using abort_route_cases [OF abort_client_routes(2) [OF inv c a, THEN conjunct1] c]
      by (intro bex_cong refl) (metis option.distinct(1) snd_conv)
    finally show ?thesis .
  qed
  then show ?thesis using lk [of "\<lambda>s v. abort_action c s v = Some act" for act] by auto
qed

lemmas abort_client_spec = abort_client_inv abort_client_map abort_client_actions

end
