(* ===== verification/File_Protocol.thy ===== *)
theory File_Protocol
  imports Common
begin

text \<open>
  \<open>file_protocol.h\<close> and \<open>file_protocol.c\<close>: the payloads of the four file frames, their
  encoders, decoders and validators, shared by client and server. The locale
  \<open>frame_codec\<close> states what the rest of the program relies on (a decoder accepts exactly
  the frames its encoder writes); each of the codecs is shown to provide it.
\<close>

section \<open>Sizes and frames\<close>

definition FILE_NAME_MAX_LENGTH :: nat where "FILE_NAME_MAX_LENGTH = 255"
definition FILE_BEGIN_FIXED_PAYLOAD_SIZE :: nat where
  "FILE_BEGIN_FIXED_PAYLOAD_SIZE = 4 + 2 * 4 + 2 * 2"
definition FILE_BEGIN_PAYLOAD_MAX_SIZE :: nat where
  "FILE_BEGIN_PAYLOAD_MAX_SIZE =
     FILE_BEGIN_FIXED_PAYLOAD_SIZE + (USERNAME_SIZE - 1) + FILE_NAME_MAX_LENGTH"
definition FILE_CHUNK_PAYLOAD_MAX_SIZE :: nat where
  "FILE_CHUNK_PAYLOAD_MAX_SIZE = 4 + FILE_CHUNK_SIZE"
definition FILE_CONTROL_PAYLOAD_SIZE :: nat where "FILE_CONTROL_PAYLOAD_SIZE = 4"

lemmas file_size_consts [const_simps] =
  FILE_NAME_MAX_LENGTH_def FILE_BEGIN_FIXED_PAYLOAD_SIZE_def FILE_BEGIN_PAYLOAD_MAX_SIZE_def
  FILE_CHUNK_PAYLOAD_MAX_SIZE_def FILE_CONTROL_PAYLOAD_SIZE_def

record FileBeginFrame =
  fb_transfer_id :: u32
  fb_file_size :: u64
  fb_peer :: bytes
  fb_filename :: bytes

record FileChunkFrame =
  fc_transfer_id :: u32
  fc_data :: bytes

section \<open>Integers and strings\<close>

definition read_u16 :: "bytes \<Rightarrow> u16" where
  "read_u16 bytes = of_be16 bytes"

definition read_u32 :: "bytes \<Rightarrow> u32" where
  "read_u32 bytes = of_be32 bytes"

definition read_u64 :: "bytes \<Rightarrow> u64" where
  "read_u64 bytes =
     (let high = read_u32 bytes; low = read_u32 (drop 4 bytes)
      in push_bit 32 (ucast high) OR ucast low)"

definition write_u16 :: "u16 \<Rightarrow> bytes" where
  "write_u16 value = be16 value"

definition write_u32 :: "u32 \<Rightarrow> bytes" where
  "write_u32 value = be32 value"

definition write_u64 :: "u64 \<Rightarrow> bytes" where
  "write_u64 value = write_u32 (ucast (drop_bit 32 value)) @ write_u32 (ucast value)"

text \<open>The bounded search for the terminator; the string is the bytes before it.\<close>

fun bounded_string_length :: "bytes \<Rightarrow> nat \<Rightarrow> nat option" where
  "bounded_string_length [] maximum_length = Some 0"
| "bounded_string_length (b # value) 0 = None"
| "bounded_string_length (b # value) (Suc m) = map_option Suc (bounded_string_length value m)"

definition file_protocol_valid_peer_name :: "bytes \<Rightarrow> bool" where
  "file_protocol_valid_peer_name name \<longleftrightarrow>
     length name \<noteq> 0 \<and> length name < USERNAME_SIZE \<and>
     list_all (\<lambda>b. \<not> (b = 0 \<or> isspace b \<or> iscntrl b)) name"

definition file_protocol_valid_filename :: "bytes \<Rightarrow> bool" where
  "file_protocol_valid_filename name \<longleftrightarrow>
     length name \<noteq> 0 \<and> length name \<le> FILE_NAME_MAX_LENGTH \<and>
     \<not> (length name = 1 \<and> name ! 0 = 46 \<or> length name = 2 \<and> name ! 0 = 46 \<and> name ! 1 = 46) \<and>
     list_all (\<lambda>b. \<not> (b = 0 \<or> b = 47 \<or> b = 92 \<or> iscntrl b)) name"

section \<open>Encoders and decoders\<close>

definition file_protocol_encode_begin ::
  "nat \<Rightarrow> u32 \<Rightarrow> u64 \<Rightarrow> bytes \<Rightarrow> bytes \<Rightarrow> bytes result" where
  "file_protocol_encode_begin capacity transfer_id file_size peer filename =
     (case (bounded_string_length peer (USERNAME_SIZE - 1),
            bounded_string_length filename FILE_NAME_MAX_LENGTH) of
        (Some peer_length, Some filename_length) \<Rightarrow>
          if \<not> file_protocol_valid_peer_name peer \<or> \<not> file_protocol_valid_filename filename
          then Inl EINVAL
          else if capacity < FILE_BEGIN_FIXED_PAYLOAD_SIZE + peer_length + filename_length
          then Inl EMSGSIZE
          else Inr (write_u32 transfer_id @ write_u64 file_size @
                    write_u16 (of_nat peer_length) @ write_u16 (of_nat filename_length) @
                    take peer_length peer @ take filename_length filename)
      | _ \<Rightarrow> Inl EINVAL)"

definition file_protocol_decode_begin :: "bytes \<Rightarrow> FileBeginFrame result" where
  "file_protocol_decode_begin frame =
     (let header_length = 1 + FILE_BEGIN_FIXED_PAYLOAD_SIZE
      in if length frame < header_length \<or> frame ! 0 \<noteq> frame_byte FRAME_FILE_BEGIN
         then Inl EPROTO
         else let peer_length = unat (read_u16 (drop 13 frame));
                  filename_length = unat (read_u16 (drop 15 frame));
                  peer = take peer_length (drop header_length frame);
                  filename = take filename_length (drop (header_length + peer_length) frame)
              in if peer_length + filename_length \<noteq> length frame - header_length \<or>
                    \<not> file_protocol_valid_peer_name peer \<or> \<not> file_protocol_valid_filename filename
                 then Inl EPROTO
                 else Inr \<lparr>fb_transfer_id = read_u32 (drop 1 frame),
                           fb_file_size = read_u64 (drop 5 frame),
                           fb_peer = peer, fb_filename = filename\<rparr>)"

definition file_protocol_encode_chunk :: "nat \<Rightarrow> u32 \<Rightarrow> bytes \<Rightarrow> bytes result" where
  "file_protocol_encode_chunk capacity transfer_id data =
     (if length data = 0 \<or> FILE_CHUNK_SIZE < length data then Inl EINVAL
      else if capacity < 4 + length data then Inl EMSGSIZE
      else Inr (write_u32 transfer_id @ data))"

definition file_protocol_decode_chunk :: "bytes \<Rightarrow> FileChunkFrame result" where
  "file_protocol_decode_chunk frame =
     (let header_length = 1 + 4
      in if length frame \<le> header_length \<or> frame ! 0 \<noteq> frame_byte FRAME_FILE_CHUNK \<or>
            header_length + FILE_CHUNK_SIZE < length frame
         then Inl EPROTO
         else Inr \<lparr>fc_transfer_id = read_u32 (drop 1 frame), fc_data = drop header_length frame\<rparr>)"

definition file_protocol_encode_control :: "nat \<Rightarrow> u32 \<Rightarrow> bytes result" where
  "file_protocol_encode_control capacity transfer_id =
     (if capacity < FILE_CONTROL_PAYLOAD_SIZE then Inl EMSGSIZE else Inr (write_u32 transfer_id))"

definition file_protocol_decode_control :: "bytes \<Rightarrow> FrameType \<Rightarrow> u32 result" where
  "file_protocol_decode_control frame expected_type =
     (if expected_type \<noteq> FRAME_FILE_END \<and> expected_type \<noteq> FRAME_FILE_ERROR then Inl EINVAL
      else if length frame \<noteq> 1 + FILE_CONTROL_PAYLOAD_SIZE \<or> frame ! 0 \<noteq> frame_byte expected_type
      then Inl EPROTO
      else Inr (read_u32 (drop 1 frame)))"

definition file_protocol_read_transfer_id :: "bytes \<Rightarrow> u32 result" where
  "file_protocol_read_transfer_id frame =
     (if length frame < 1 + 4 then Inl EPROTO else Inr (read_u32 (drop 1 frame)))"

section \<open>The integer and string helpers\<close>

lemma length_write [simp]:
  "length (write_u16 a) = 2" "length (write_u32 b) = 4" "length (write_u64 c) = 8"
  by (simp_all add: write_u16_def write_u32_def write_u64_def)

lemma read_write [simp]:
  "read_u16 (write_u16 a @ r) = a" "read_u32 (write_u32 b @ r) = b"
  by (simp_all add: read_u16_def write_u16_def read_u32_def write_u32_def)

lemma read_write_u64 [simp]: "read_u64 (write_u64 v @ r) = v"
  by (rule bit_word_eqI) (auto simp: read_u64_def write_u64_def Let_def bit_simps)

lemma write_read_u16: "length bs = 2 \<Longrightarrow> write_u16 (read_u16 bs) = bs"
  by (simp add: read_u16_def write_u16_def be16_of_be16)

lemma write_read_u32: "length bs = 4 \<Longrightarrow> write_u32 (read_u32 bs) = bs"
  by (simp add: read_u32_def write_u32_def be32_of_be32)

lemma bit_u32_high [simp]: "32 \<le> n \<Longrightarrow> \<not> bit (w :: u32) n"
  by (auto dest: bit_imp_le_length)

lemma read_u32_take [simp]: "4 \<le> n \<Longrightarrow> read_u32 (take n bs) = read_u32 bs"
  by (cases bs rule: of_be32.cases) (auto simp: read_u32_def take_Cons' numeral_eq_Suc)

lemma halves_u64:
  fixes h l :: u32
  shows "ucast (drop_bit 32 (push_bit 32 (ucast h) OR ucast l :: u64)) = h"
    and "ucast (push_bit 32 (ucast h) OR ucast l :: u64) = l"
  by (rule bit_word_eqI; auto simp: bit_simps)+

lemma write_read_u64: "length bs = 8 \<Longrightarrow> write_u64 (read_u64 bs) = bs"
  using write_read_u32 [of "take 4 bs"] write_read_u32 [of "drop 4 bs"]
  unfolding write_u64_def read_u64_def Let_def halves_u64 by simp

lemma bounded_string_length_eq:
  "bounded_string_length s m = (if length s \<le> m then Some (length s) else None)"
  by (induction s m rule: bounded_string_length.induct) auto

section \<open>The contract of a codec\<close>

locale frame_codec =
  fixes tag :: byte
    and enc :: "'a \<Rightarrow> bytes result"
    and dec :: "bytes \<Rightarrow> 'a result"
  assumes decode_encode: "enc x = Inr p \<Longrightarrow> dec (tag # p) = Inr x"
    and encode_decode: "dec f = Inr x \<Longrightarrow> \<exists>p. f = tag # p \<and> enc x = Inr p"
begin

lemma accepts_iff: "dec f = Inr x \<longleftrightarrow> (\<exists>p. f = tag # p \<and> enc x = Inr p)"
  using decode_encode encode_decode by blast

lemma encode_inj: "enc x = Inr p \<Longrightarrow> enc y = Inr p \<Longrightarrow> x = y"
  using decode_encode [of x p] decode_encode [of y p] by simp

lemma decode_inj: "dec f = Inr x \<Longrightarrow> dec g = Inr x \<Longrightarrow> f = g"
  using encode_decode [of f x] encode_decode [of g x] by auto

end

section \<open>The three codecs provide it\<close>

lemma encode_begin_Inr:
  "file_protocol_encode_begin capacity i n peer filename = Inr p \<longleftrightarrow>
     file_protocol_valid_peer_name peer \<and> file_protocol_valid_filename filename \<and>
     16 + length peer + length filename \<le> capacity \<and>
     p = write_u32 i @ write_u64 n @ write_u16 (of_nat (length peer)) @
         write_u16 (of_nat (length filename)) @ peer @ filename"
  by (auto simp: file_protocol_encode_begin_def bounded_string_length_eq const_simps
      file_protocol_valid_peer_name_def file_protocol_valid_filename_def)

lemma valid_name_lengths:
  "file_protocol_valid_peer_name peer \<Longrightarrow> length peer < 32"
  "file_protocol_valid_filename filename \<Longrightarrow> length filename < 256"
  by (auto simp: file_protocol_valid_peer_name_def file_protocol_valid_filename_def const_simps)

lemma unat_u16_small [simp]: "n < 65536 \<Longrightarrow> unat (of_nat n :: u16) = n"
  by (simp add: unat_of_nat)

definition encode_begin :: "FileBeginFrame \<Rightarrow> bytes result" where
  "encode_begin f = file_protocol_encode_begin FILE_BEGIN_PAYLOAD_MAX_SIZE
     (fb_transfer_id f) (fb_file_size f) (fb_peer f) (fb_filename f)"

lemma decode_encode_begin:
  assumes "encode_begin f = Inr p"
  shows "file_protocol_decode_begin (frame_byte FRAME_FILE_BEGIN # p) = Inr f"
proof -
  from assms have v: "file_protocol_valid_peer_name (fb_peer f)" "file_protocol_valid_filename (fb_filename f)"
    and p: "p = write_u32 (fb_transfer_id f) @ write_u64 (fb_file_size f) @
       write_u16 (of_nat (length (fb_peer f))) @ write_u16 (of_nat (length (fb_filename f))) @
       fb_peer f @ fb_filename f"
    by (auto simp: encode_begin_def encode_begin_Inr)
  have l: "unat (of_nat (length (fb_peer f)) :: u16) = length (fb_peer f)"
    "unat (of_nat (length (fb_filename f)) :: u16) = length (fb_filename f)"
    using valid_name_lengths v by (auto intro!: unat_u16_small dest!: valid_name_lengths)
  have d: "drop (17 + length (fb_peer f)) (frame_byte FRAME_FILE_BEGIN # p) = fb_filename f"
    "drop 17 (frame_byte FRAME_FILE_BEGIN # p) = fb_peer f @ fb_filename f"
    by (simp_all add: p drop_Cons')
  show ?thesis using v d l by (simp add: file_protocol_decode_begin_def const_simps Let_def p)
qed

lemma split_at_17:
  assumes "17 \<le> length f"
  obtains h i n a b r where "f = h # i @ n @ a @ b @ r"
    "length i = 4" "length n = 8" "length a = 2" "length b = 2" "length r = length f - 17"
proof -
  define g where "g = tl f"
  have f: "f = f ! 0 # g" "length g = length f - 1" using assms by (cases f; auto simp: g_def)+
  have "g = take 4 g @ take 8 (drop 4 g) @ take 2 (drop 12 g) @ take 2 (drop 14 g) @ drop 16 g"
    using append_take_drop_id [of 4 g] append_take_drop_id [of 8 "drop 4 g"]
      append_take_drop_id [of 2 "drop 12 g"] append_take_drop_id [of 2 "drop 14 g"]
    by (simp add: drop_drop del: append_take_drop_id)
  then show ?thesis
    by (intro that [of "f ! 0" "take 4 g" "take 8 (drop 4 g)" "take 2 (drop 12 g)" "take 2 (drop 14 g)" "drop 16 g"])
       (use f assms in auto)
qed

lemma encode_decode_begin:
  assumes dec: "file_protocol_decode_begin f = Inr x"
  shows "\<exists>p. f = frame_byte FRAME_FILE_BEGIN # p \<and> encode_begin x = Inr p"
proof -
  have len: "17 \<le> length f" and h: "f ! 0 = frame_byte FRAME_FILE_BEGIN"
    using dec by (auto simp: file_protocol_decode_begin_def const_simps Let_def split: if_splits)
  obtain h i n a b r where f: "f = h # i @ n @ a @ b @ r" and l: "length i = 4" "length n = 8"
    "length a = 2" "length b = 2" "length r = length f - 17"
    by (rule split_at_17 [OF len])
  let ?p = "unat (read_u16 a)" and ?q = "unat (read_u16 b)"
  have d: "drop (Suc 0) f = i @ n @ a @ b @ r" "drop 5 f = n @ a @ b @ r" "drop 13 f = a @ b @ r"
    "drop 15 f = b @ r" "drop 17 f = r" "drop (17 + k) f = drop k r" for k
    using l by (auto simp: f drop_Cons')
  have [simp]: "read_u16 (a @ s) = read_u16 a" "read_u16 (b @ s) = read_u16 b"
    "read_u32 (i @ s) = read_u32 i" "read_u64 (n @ s) = read_u64 n" for s
    using read_write(1) [of "read_u16 a"] read_write(1) [of "read_u16 b"] read_write(2) [of "read_u32 i"]
      read_write_u64 [of "read_u64 n"] l write_read_u16 write_read_u32 write_read_u64 by metis+
  from dec have sum: "?p + ?q = length r" and v: "file_protocol_valid_peer_name (take ?p r)"
    "file_protocol_valid_filename (take ?q (drop ?p r))"
    and x: "x = \<lparr>fb_transfer_id = read_u32 i, fb_file_size = read_u64 n, fb_peer = take ?p r,
                  fb_filename = take ?q (drop ?p r)\<rparr>"
    using l by (auto simp: file_protocol_decode_begin_def const_simps Let_def d split: if_splits)
  define P Q where "P = take ?p r" and "Q = take ?q (drop ?p r)"
  have PQ: "P @ Q = r" "length P = ?p" "length Q = ?q" using sum by (auto simp: P_def Q_def simp flip: take_add)
  have vPQ: "file_protocol_valid_peer_name P" "file_protocol_valid_filename Q" using v by (simp_all add: P_def Q_def)
  have "encode_begin x = Inr (i @ n @ a @ b @ P @ Q)"
    using vPQ valid_name_lengths(1) [OF vPQ(1)] valid_name_lengths(2) [OF vPQ(2)] l
    by (simp add: encode_begin_def encode_begin_Inr x const_simps PQ(2,3) write_read_u16 write_read_u32
        write_read_u64 flip: P_def Q_def)
  then show ?thesis using f h PQ(1) by simp
qed

interpretation begin_codec: frame_codec "frame_byte FRAME_FILE_BEGIN" encode_begin file_protocol_decode_begin
  by unfold_locales (rule decode_encode_begin encode_decode_begin, assumption)+

definition encode_chunk :: "FileChunkFrame \<Rightarrow> bytes result" where
  "encode_chunk f = file_protocol_encode_chunk FILE_CHUNK_PAYLOAD_MAX_SIZE (fc_transfer_id f) (fc_data f)"

lemma encode_chunk_Inr:
  "file_protocol_encode_chunk capacity i data = Inr p \<longleftrightarrow>
     data \<noteq> [] \<and> length data \<le> FILE_CHUNK_SIZE \<and> 4 + length data \<le> capacity \<and> p = write_u32 i @ data"
  by (auto simp: file_protocol_encode_chunk_def)

lemma decode_chunk_Inr:
  "file_protocol_decode_chunk f = Inr x \<longleftrightarrow>
     (\<exists>p. f = frame_byte FRAME_FILE_CHUNK # p \<and> encode_chunk x = Inr p)"
proof
  assume dec: "file_protocol_decode_chunk f = Inr x"
  then have l: "5 < length f" "length f \<le> 905" "f ! 0 = 1"
    and x: "x = \<lparr>fc_transfer_id = read_u32 (drop 1 f), fc_data = drop 5 f\<rparr>"
    by (auto simp: file_protocol_decode_chunk_def const_simps Let_def split: if_splits)
  obtain p where p: "f = 1 # p" using l by (cases f) auto
  have "write_u32 (read_u32 p) = take 4 p" using write_read_u32 [of "take 4 p"] l p by simp
  then show "\<exists>p. f = frame_byte FRAME_FILE_CHUNK # p \<and> encode_chunk x = Inr p"
    using l by (auto simp: p x encode_chunk_def encode_chunk_Inr const_simps)
next
  assume "\<exists>p. f = frame_byte FRAME_FILE_CHUNK # p \<and> encode_chunk x = Inr p"
  then show "file_protocol_decode_chunk f = Inr x"
    by (auto simp: encode_chunk_def encode_chunk_Inr file_protocol_decode_chunk_def const_simps Let_def)
qed

interpretation chunk_codec: frame_codec "frame_byte FRAME_FILE_CHUNK" encode_chunk file_protocol_decode_chunk
  by unfold_locales (auto simp: decode_chunk_Inr)

definition encode_control :: "u32 \<Rightarrow> bytes result" where
  "encode_control i = file_protocol_encode_control FILE_CONTROL_PAYLOAD_SIZE i"

lemma encode_control_eq [simp]: "encode_control i = Inr (write_u32 i)"
  by (simp add: encode_control_def file_protocol_encode_control_def)

lemma decode_control_Inr:
  assumes "type = FRAME_FILE_END \<or> type = FRAME_FILE_ERROR"
  shows "file_protocol_decode_control f type = Inr i \<longleftrightarrow> f = frame_byte type # write_u32 i"
proof
  assume "file_protocol_decode_control f type = Inr i"
  then have l: "length f = 5" "f ! 0 = frame_byte type" and i: "i = read_u32 (drop 1 f)"
    using assms by (auto simp: file_protocol_decode_control_def const_simps split: if_splits)
  obtain p where p: "f = frame_byte type # p" using l by (cases f) auto
  then show "f = frame_byte type # write_u32 i" using l i write_read_u32 [of p] by simp
next
  assume "f = frame_byte type # write_u32 i"
  then show "file_protocol_decode_control f type = Inr i"
    using assms read_write(2) [of i "[]"] by (auto simp: file_protocol_decode_control_def const_simps)
qed

interpretation end_codec:
  frame_codec "frame_byte FRAME_FILE_END" encode_control "\<lambda>f. file_protocol_decode_control f FRAME_FILE_END"
  by unfold_locales (simp_all add: decode_control_Inr del: frame_byte.simps)

interpretation error_codec:
  frame_codec "frame_byte FRAME_FILE_ERROR" encode_control "\<lambda>f. file_protocol_decode_control f FRAME_FILE_ERROR"
  by unfold_locales (simp_all add: decode_control_Inr del: frame_byte.simps)

section \<open>Properties\<close>

text \<open>
  C28. The decoder of FILE\_BEGIN accepts a frame exactly when the encoder, given the decoded
  fields and the buffer size the program uses, writes that frame: encoding then decoding
  returns the fields, and no second byte string decodes to the same fields.
\<close>

theorem begin_frame_roundtrip:
  "file_protocol_decode_begin frame = Inr x \<longleftrightarrow>
     (\<exists>payload. frame = frame_byte FRAME_FILE_BEGIN # payload \<and>
        file_protocol_encode_begin FILE_BEGIN_PAYLOAD_MAX_SIZE (fb_transfer_id x) (fb_file_size x)
          (fb_peer x) (fb_filename x) = Inr payload)"
  using begin_codec.accepts_iff [of frame x] by (simp only: encode_begin_def)

text \<open>
  The same for FILE\_CHUNK, FILE\_END and FILE\_ERROR: each decoder inverts its encoder and
  accepts nothing else.
\<close>

theorem chunk_control_roundtrip:
  "(file_protocol_decode_chunk frame = Inr c \<longleftrightarrow>
      (\<exists>payload. frame = frame_byte FRAME_FILE_CHUNK # payload \<and>
         file_protocol_encode_chunk FILE_CHUNK_PAYLOAD_MAX_SIZE (fc_transfer_id c) (fc_data c) = Inr payload)) \<and>
   (file_protocol_decode_control frame FRAME_FILE_END = Inr i \<longleftrightarrow>
      (\<exists>payload. frame = frame_byte FRAME_FILE_END # payload \<and>
         file_protocol_encode_control FILE_CONTROL_PAYLOAD_SIZE i = Inr payload)) \<and>
   (file_protocol_decode_control frame FRAME_FILE_ERROR = Inr i \<longleftrightarrow>
      (\<exists>payload. frame = frame_byte FRAME_FILE_ERROR # payload \<and>
         file_protocol_encode_control FILE_CONTROL_PAYLOAD_SIZE i = Inr payload))"
  using chunk_codec.accepts_iff [of frame c] end_codec.accepts_iff [of frame i]
    error_codec.accepts_iff [of frame i]
  by (simp only: encode_chunk_def encode_control_def)

text \<open>
  C30. A FILE\_BEGIN frame that decodes carries names that are safe to use: the peer is a
  login name of 1 to 31 bytes without blanks or control characters, and the file name has
  1 to 255 bytes, is neither the current nor the parent directory and holds no separator,
  no NUL and no control character, so joining it to a directory stays in that directory.
\<close>

theorem decoded_names_safe:
  assumes "file_protocol_decode_begin frame = Inr x"
  shows "0 < length (fb_peer x) \<and> length (fb_peer x) < USERNAME_SIZE \<and>
         0 < length (fb_filename x) \<and> length (fb_filename x) \<le> 255 \<and>
         fb_filename x \<noteq> str ''.'' \<and> fb_filename x \<noteq> str ''..'' \<and>
         (\<forall>b. b \<in> set (fb_peer x) \<longrightarrow> \<not> isspace b \<and> \<not> iscntrl b) \<and>
         (\<forall>b. b \<in> set (fb_filename x) \<longrightarrow> b \<noteq> of_char (CHR ''/'') \<and> b \<noteq> of_char (CHR 0x5C) \<and> \<not> iscntrl b) \<and>
         length frame = 17 + length (fb_peer x) + length (fb_filename x)"
proof -
  from assms have v: "file_protocol_valid_peer_name (fb_peer x)" "file_protocol_valid_filename (fb_filename x)"
    by (auto simp: file_protocol_decode_begin_def Let_def split: if_splits)
  from begin_codec.encode_decode [OF assms]
  have "length frame = 17 + length (fb_peer x) + length (fb_filename x)"
    by (auto simp: encode_begin_def encode_begin_Inr)
  with v show ?thesis
    by (auto simp: file_protocol_valid_peer_name_def file_protocol_valid_filename_def list_all_iff const_simps)
qed

definition example_begin :: bytes where
  "example_begin = [0, 0, 0, 0, 9, 0, 0, 0, 0, 0, 0, 0, 5, 0, 3, 0, 5] @ str ''bob'' @ str ''a.txt''"

lemma example_begin_decodes:
  "file_protocol_decode_begin example_begin =
     Inr \<lparr>fb_transfer_id = 9, fb_file_size = 5, fb_peer = str ''bob'', fb_filename = str ''a.txt''\<rparr>"
  by (simp add: file_protocol_decode_begin_def example_begin_def const_simps read_u16_def read_u32_def
      read_u64_def file_protocol_valid_peer_name_def file_protocol_valid_filename_def isspace_def iscntrl_def)

theorem decoded_names_safe_witness:
  "length (str ''a.txt'') \<le> 255 \<and> str ''a.txt'' \<noteq> str ''..'' \<and> length example_begin = 17 + 3 + 5"
  using decoded_names_safe [OF example_begin_decodes] by simp

end
