(* ===== verification/Registry_Steps.thy ===== *)
theory Registry_Steps
  imports Client_Manager
begin

text \<open>
  The registry under any interleaving of its threads. \<open>registry_step\<close> has one rule per
  critical section of \<open>client_manager.c\<close> that writes the table, each with the events the
  caller sees; \<open>registry_run\<close> is a sequence of steps. A step of \<open>registry_step\<close> never adds a client
  when the counter of identifiers stands at its last value: \<open>allocate_client_id\<close> would then wrap
  around to identifiers that may still be in use. This condition is part of every statement
  about \<open>registry_run\<close>; \<open>registry_calls\<close> at the end of the theory are the same calls without it,
  and \<open>registry_calls_run\<close> shows that it holds by itself through the first \<open>2 ^ 64 - 3\<close> logins.
  The abstract machine \<open>mailbox_event\<close>
  is what the registry promises: one unbounded FIFO mailbox per logged-in client. The
  registry refines it, and the delivery guarantees are those of the mailboxes.
\<close>

section \<open>Steps\<close>

datatype registry_event =
    Opened ClientId
  | Closed ClientId
  | Queued ClientId OutgoingFrame
  | Taken ClientId OutgoingFrame

text \<open>The premise on \<open>next_client_id\<close> in \<open>add\<close> leaves out the login that makes the counter wrap around.\<close>

inductive registry_step :: "Registry \<Rightarrow> registry_event list \<Rightarrow> Registry \<Rightarrow> bool" where
  add: "add_client reg connection username = (reg', r) \<Longrightarrow> next_client_id reg \<noteq> -1 \<Longrightarrow>
        registry_step reg (case r of Inl _ \<Rightarrow> [] | Inr _ \<Rightarrow> [Opened (next_client_id reg)]) reg'"
| activate: "activate_client reg index = (reg', r) \<Longrightarrow> registry_step reg [] reg'"
| remove: "remove_client reg index = (reg', r) \<Longrightarrow>
        registry_step reg (case r of None \<Rightarrow> [] | Some _ \<Rightarrow> [Closed (get_client_id reg index)]) reg'"
| register: "register_client_public_key reg client_id key = (reg', r) \<Longrightarrow>
        CHAT_PUBLIC_KEY_SIZE \<le> length key \<Longrightarrow> registry_step reg [] reg'"
| queue: "queue_frame_to_client_id reg client_id type payload = (reg', r) \<Longrightarrow>
        registry_step reg
          (case r of Inl _ \<Rightarrow> [] | Inr _ \<Rightarrow> [Queued client_id \<lparr>of_type = type, of_payload = payload\<rparr>]) reg'"
| take: "take_outgoing_frame reg client_id = (reg', r) \<Longrightarrow>
        registry_step reg (case r of Inr (Some f) \<Rightarrow> [Taken client_id f] | _ \<Rightarrow> []) reg'"

inductive registry_run :: "Registry \<Rightarrow> registry_event list \<Rightarrow> Registry \<Rightarrow> bool" where
  stop: "registry_run reg [] reg"
| step: "registry_step reg es reg1 \<Longrightarrow> registry_run reg1 fs reg' \<Longrightarrow> registry_run reg (es @ fs) reg'"

inductive_cases registry_runE: "registry_run reg es reg'"

lemma registry_step_inv: "registry_step reg es reg' \<Longrightarrow> registry_inv reg \<Longrightarrow> registry_inv reg'"
  by (induction rule: registry_step.induct)
     (blast intro: add_client_inv activate_client_inv remove_client_inv register_key_inv queue_frame_inv
        take_frame_inv)+

lemma registry_run_inv: "registry_run reg es reg' \<Longrightarrow> registry_inv reg \<Longrightarrow> registry_inv reg'"
  by (induction rule: registry_run.induct) (auto dest: registry_step_inv)

lemma registry_run_single: "registry_step reg es reg' \<Longrightarrow> registry_run reg es reg'"
  using registry_run.step [OF _ registry_run.stop] by fastforce

lemma registry_run_append:
  "registry_run reg es reg1 \<Longrightarrow> registry_run reg1 fs reg' \<Longrightarrow> registry_run reg (es @ fs) reg'"
  by (induction arbitrary: fs rule: registry_run.induct) (auto intro: registry_run.step simp: append_assoc)

section \<open>Mailboxes\<close>

type_synonym mailboxes = "ClientId \<rightharpoonup> OutgoingFrame list"

fun mailbox_event :: "registry_event \<Rightarrow> mailboxes \<Rightarrow> mailboxes option" where
  "mailbox_event (Opened c) m = (case m c of None \<Rightarrow> Some (m(c \<mapsto> [])) | Some _ \<Rightarrow> None)"
| "mailbox_event (Closed c) m = (case m c of None \<Rightarrow> None | Some _ \<Rightarrow> Some (m(c := None)))"
| "mailbox_event (Queued c f) m = (case m c of None \<Rightarrow> None | Some fs \<Rightarrow> Some (m(c \<mapsto> fs @ [f])))"
| "mailbox_event (Taken c f) m =
     (case m c of Some (g # fs) \<Rightarrow> if f = g then Some (m(c \<mapsto> fs)) else None | _ \<Rightarrow> None)"

fun mailbox_events :: "registry_event list \<Rightarrow> mailboxes \<Rightarrow> mailboxes option" where
  "mailbox_events [] m = Some m"
| "mailbox_events (e # es) m = (case mailbox_event e m of None \<Rightarrow> None | Some m' \<Rightarrow> mailbox_events es m')"

lemma mailbox_events_append:
  "mailbox_events (es @ fs) m = (case mailbox_events es m of None \<Rightarrow> None | Some m' \<Rightarrow> mailbox_events fs m')"
  by (induction es arbitrary: m) (auto split: option.splits)

definition outboxes :: "Registry \<Rightarrow> mailboxes" where
  "outboxes reg c = map_option c_outgoing (slot_lookup c_active c_id (clients reg) c)"

lemma outboxes_cong: "clients reg' = clients reg \<Longrightarrow> outboxes reg' = outboxes reg"
  by (simp add: outboxes_def fun_eq_iff)

lemma registry_unique: "registry_inv reg \<Longrightarrow> slot_unique c_active c_id (clients reg)"
  by (simp add: registry_inv_def)

lemma outboxes_nth:
  assumes "registry_inv reg" "i < length (clients reg)" "c_active (clients reg ! i)"
  shows "outboxes reg (c_id (clients reg ! i)) = Some (c_outgoing (clients reg ! i))"
  using assms by_id.lookup_Some [OF registry_unique [OF assms(1)], of "c_id (clients reg ! i)" "clients reg ! i"]
  by (auto simp: outboxes_def)

lemma outboxes_rewrite:
  assumes "registry_inv reg" "i < length (clients reg)" "c_active (clients reg ! i)"
    and "c_active c" "c_id c = c_id (clients reg ! i)" "clients reg' = (clients reg)[i := c]"
  shows "outboxes reg' = (outboxes reg)(c_id (clients reg ! i) \<mapsto> c_outgoing c)"
  using assms by_id.lookup_rewrite [OF registry_unique [OF assms(1)] assms(2-5)]
  by (auto simp: outboxes_def fun_eq_iff)

lemma outboxes_clear:
  assumes "registry_inv reg" "i < length (clients reg)" "c_active (clients reg ! i)"
    and "clients reg' = (clients reg)[i := blank_client]"
  shows "outboxes reg' = (outboxes reg)(c_id (clients reg ! i) := None)"
  using assms by_id.lookup_clear [OF registry_unique [OF assms(1)] assms(2,3) by_id.blank_inactive]
  by (auto simp: outboxes_def fun_eq_iff)

lemma fresh_id:
  assumes "registry_inv reg"
  shows "slot_lookup c_active c_id (clients reg) (next_client_id reg) = None"
  unfolding by_id.lookup_None
proof (intro allI impI)
  fix j
  assume "j < length (clients reg)" "c_active (clients reg ! j)"
  then show "c_id (clients reg ! j) \<noteq> next_client_id reg"
    using registry_inv_nth [OF assms, of j] by (auto simp: client_ok_def)
qed

lemma blank_slot:
  "registry_inv reg \<Longrightarrow> i < length (clients reg) \<Longrightarrow> \<not> c_active (clients reg ! i) \<Longrightarrow>
   clients reg ! i = blank_client"
  using registry_inv_nth [of reg i] by (auto simp: client_ok_def)

lemma outboxes_fill:
  assumes "registry_inv reg" "i < length (clients reg)" "\<not> c_active (clients reg ! i)"
    and "clients reg' = (clients reg)[i := cl]" "c_active cl" "c_id cl = next_client_id reg"
  shows "outboxes reg' = (outboxes reg)(next_client_id reg \<mapsto> c_outgoing cl)"
  unfolding outboxes_def assms(4)
  by (subst by_id.lookup_fill [OF registry_unique [OF assms(1)] assms(2,3)])
     (use assms(5,6) fresh_id [OF assms(1)] in \<open>auto simp: fun_eq_iff\<close>)

text \<open>
  What a step may change of a client that stays: its name, its connection and its wake
  descriptor never, its key only once, the failure of its queue only from no to yes.
\<close>

definition evolves :: "Client \<Rightarrow> Client \<Rightarrow> bool" where
  "evolves cl cl' \<longleftrightarrow>
     c_username cl' = c_username cl \<and> c_connection cl' = c_connection cl \<and> c_wake_fd cl' = c_wake_fd cl \<and>
     (c_has_public_key cl \<longrightarrow> c_has_public_key cl' \<and> c_public_key cl' = c_public_key cl) \<and>
     (c_outgoing_failed cl \<longrightarrow> c_outgoing_failed cl')"

lemma evolves_refl [simp]: "evolves cl cl"
  by (simp add: evolves_def)

lemma evolves_trans: "evolves a b \<Longrightarrow> evolves b c \<Longrightarrow> evolves a c"
  by (auto simp: evolves_def)

text \<open>What a step may do to the queue of a client that stays.\<close>

definition queue_change :: "ClientId \<Rightarrow> OutgoingFrame list \<Rightarrow> registry_event list \<Rightarrow> OutgoingFrame list \<Rightarrow> bool" where
  "queue_change c fs es fs' \<longleftrightarrow> es = [] \<and> fs' = fs \<or> (\<exists>f. es = [Queued c f] \<and> fs' = fs @ [f]) \<or> (\<exists>f. es = [Taken c f] \<and> fs = f # fs')"

text \<open>Every step leaves the slots alone, fills a free one, rewrites one in use, or clears one.\<close>

lemma registry_step_slots:
  assumes "registry_step reg es reg'" and inv: "registry_inv reg"
  obtains (same) "clients reg' = clients reg" "next_client_id reg' = next_client_id reg" "es = []"
  | (opened) i cl where "i < length (clients reg)" "\<not> c_active (clients reg ! i)" "clients reg' = (clients reg)[i := cl]"
      "c_active cl" "c_id cl = next_client_id reg" "c_outgoing cl = []"
      "next_client_id reg' = next_client_id reg + 1" "next_client_id reg \<noteq> -1" "es = [Opened (next_client_id reg)]"
  | (rewritten) i cl where "i < length (clients reg)" "c_active (clients reg ! i)" "clients reg' = (clients reg)[i := cl]"
      "c_active cl" "c_id cl = c_id (clients reg ! i)" "evolves (clients reg ! i) cl"
      "queue_change (c_id (clients reg ! i)) (c_outgoing (clients reg ! i)) es (c_outgoing cl)"
      "next_client_id reg' = next_client_id reg"
  | (closed) i where "i < length (clients reg)" "c_active (clients reg ! i)" "clients reg' = (clients reg)[i := blank_client]"
      "next_client_id reg' = next_client_id reg" "es = [Closed (c_id (clients reg ! i))]"
proof -
  have len: "length (clients reg) = MAX_CLIENTS" using inv by (simp add: registry_inv_def)
  note rewrite = evolves_def queue_change_def
  show ?thesis using assms(1)
  proof cases
    case (add connection username r)
    from add(2) show ?thesis
    proof (cases rule: add_client_cases)
      case (added i fd)
      have "fst (allocate_client_id reg) = next_client_id reg" "next_client_id reg' = next_client_id reg + 1"
        using inv added(9) by (simp_all add: registry_inv_def allocate_client_id_eq)
      then show ?thesis using blank_slot [OF inv added(2,3)] add added by (intro opened [OF added(2,3,8)]) simp_all
    qed (use add same in simp)
  next
    case (activate index r)
    from activate(2) len show ?thesis
    proof (cases rule: activate_client_cases)
      case activated
      show ?thesis by (rule rewritten [OF activated(1,2) arg_cong [OF activated(4), of clients, simplified]]) (use activated activate(1) in \<open>auto simp: rewrite\<close>)
    qed (use activate same in simp)
  next
    case (remove index r)
    from remove(2) len show ?thesis
    proof (cases rule: remove_client_cases)
      case removed
      show ?thesis by (rule closed [OF removed(1,2)]) (use removed remove(1) in auto)
    qed (use remove same in simp)
  next
    case (register client_id key r)
    from register(2) show ?thesis
    proof (cases rule: register_key_cases)
      case (stored i)
      show ?thesis by (rule rewritten [OF stored(1,2) arg_cong [OF stored(7), of clients, simplified]]) (use stored register(1) in \<open>auto simp: rewrite\<close>)
    qed (use register same in simp)
  next
    case (queue client_id type payload r)
    from queue(2) show ?thesis
    proof (cases rule: queue_frame_cases)
      case (overflow i)
      show ?thesis by (rule rewritten [OF overflow(1,2,7)]) (use overflow queue(1) in \<open>auto simp: rewrite\<close>)
    next
      case (queued i)
      show ?thesis by (rule rewritten [OF queued(1,2,10)]) (use queued queue(1) in \<open>auto simp: rewrite\<close>)
    qed (use queue same in simp)
  next
    case (take client_id r)
    from take(2) show ?thesis
    proof (cases rule: take_frame_cases)
      case (taken i f fs)
      show ?thesis by (rule rewritten [OF taken(1,2) arg_cong [OF taken(8), of clients, simplified]]) (use taken take(1) in \<open>auto simp: rewrite\<close>)
    qed (use take same in \<open>auto split: sum.splits option.splits\<close>)
  qed
qed

text \<open>Every step of the registry is a legal step of the mailboxes.\<close>

lemma mailbox_step:
  assumes "registry_step reg es reg'" and inv: "registry_inv reg"
  shows "mailbox_events es (outboxes reg) = Some (outboxes reg')"
  using assms
proof (cases rule: registry_step_slots)
  case same
  then show ?thesis using outboxes_cong [of reg' reg] by simp
next
  case (opened i cl)
  have "outboxes reg (next_client_id reg) = None" using fresh_id [OF inv] by (simp add: outboxes_def)
  then show ?thesis using outboxes_fill [OF inv opened(1-5)] opened(6,9) by simp
next
  case (rewritten i cl)
  then show ?thesis
    using outboxes_nth [OF inv rewritten(1,2)] outboxes_rewrite [OF inv rewritten(1,2,4,5,3)]
    by (auto simp: queue_change_def fun_eq_iff)
next
  case (closed i)
  then show ?thesis using outboxes_nth [OF inv closed(1,2)] outboxes_clear [OF inv closed(1-3)] by simp
qed

lemma mailbox_run:
  "registry_run reg es reg' \<Longrightarrow> registry_inv reg \<Longrightarrow> mailbox_events es (outboxes reg) = Some (outboxes reg')"
proof (induction rule: registry_run.induct)
  case (step reg es reg1 fs reg')
  then show ?case using mailbox_step [OF step(1)] registry_step_inv [OF step(1)]
    by (simp add: mailbox_events_append)
qed simp

section \<open>The life of one client\<close>

definition client_of :: "Registry \<Rightarrow> ClientId \<Rightarrow> Client option" where
  "client_of reg = slot_lookup c_active c_id (clients reg)"

lemma outboxes_client_of: "outboxes reg c = map_option c_outgoing (client_of reg c)"
  by (simp add: outboxes_def client_of_def)

lemma client_of_nth:
  "registry_inv reg \<Longrightarrow> i < length (clients reg) \<Longrightarrow> c_active (clients reg ! i) \<Longrightarrow>
   c_id (clients reg ! i) = c \<Longrightarrow> client_of reg c = Some (clients reg ! i)"
  using by_id.lookup_Some [OF registry_unique, of reg c "clients reg ! i"] by (auto simp: client_of_def)

lemma client_of_Some:
  assumes "registry_inv reg"
  shows "client_of reg c = Some cl \<longleftrightarrow> (\<exists>i<length (clients reg). clients reg ! i = cl \<and> c_active cl \<and> c_id cl = c)"
  using by_id.lookup_Some [OF registry_unique [OF assms]] by (simp add: client_of_def)

lemma client_of_ok:
  assumes "registry_inv reg" "client_of reg c = Some cl"
  shows "client_ok (next_client_id reg) cl" "c_active cl" "c_id cl = c"
  using assms registry_inv_nth [OF assms(1)] by (auto simp: client_of_Some)

lemma client_of_rewrite:
  assumes "registry_inv reg" "i < length (clients reg)" "c_active (clients reg ! i)"
    and "c_active c" "c_id c = c_id (clients reg ! i)" "clients reg' = (clients reg)[i := c]"
  shows "client_of reg' = (client_of reg)(c_id (clients reg ! i) \<mapsto> c)"
  using assms by_id.lookup_rewrite [OF registry_unique [OF assms(1)] assms(2-5)]
  by (simp add: client_of_def)

lemma registry_step_effect:
  assumes "registry_step reg es reg'" and inv: "registry_inv reg"
  obtains (same) "client_of reg' = client_of reg" "next_client_id reg' = next_client_id reg"
  | (opened) cl where "client_of reg' = (client_of reg)(next_client_id reg \<mapsto> cl)"
      "next_client_id reg' = next_client_id reg + 1" "next_client_id reg \<noteq> -1" "es = [Opened (next_client_id reg)]"
  | (rewritten) c cl cl' where "client_of reg c = Some cl" "client_of reg' = (client_of reg)(c \<mapsto> cl')"
      "evolves cl cl'" "next_client_id reg' = next_client_id reg"
  | (closed) c where "client_of reg' = (client_of reg)(c := None)" "next_client_id reg' = next_client_id reg"
  using assms
proof (cases rule: registry_step_slots)
  case same
  then show ?thesis by (intro that(1)) (simp_all add: client_of_def)
next
  case (opened i cl)
  have "client_of reg' = (client_of reg)(next_client_id reg \<mapsto> cl)"
    unfolding client_of_def opened(3)
    by (subst by_id.lookup_fill [OF registry_unique [OF inv] opened(1,2)])
       (use opened(4,5) fresh_id [OF inv] in \<open>auto simp: fun_eq_iff\<close>)
  then show ?thesis by (rule that(2)) (use opened in simp_all)
next
  case (rewritten i cl)
  show ?thesis
    by (rule that(3) [OF client_of_nth [OF inv rewritten(1,2) refl] client_of_rewrite [OF inv rewritten(1,2,4,5,3)]])
       (use rewritten in simp_all)
next
  case (closed i)
  then show ?thesis
    using that(4) [of "c_id (clients reg ! i)"] by_id.lookup_clear [OF registry_unique [OF inv] closed(1,2) by_id.blank_inactive]
    by (simp add: client_of_def)
qed

lemma registry_step_next: "registry_step reg es reg' \<Longrightarrow> registry_inv reg \<Longrightarrow> next_client_id reg \<le> next_client_id reg'"
  by (erule (1) registry_step_effect) (auto intro: less_imp_le word_inc_less)

text \<open>An identifier that was issued and is no longer in use never comes back.\<close>

lemma registry_step_closed:
  assumes "registry_step reg es reg'" "registry_inv reg" "client_of reg c = None" "c < next_client_id reg"
  shows "client_of reg' c = None"
  using assms(1,2) by (rule registry_step_effect) (use assms(3,4) in auto)

lemma registry_run_closed:
  "registry_run reg es reg' \<Longrightarrow> registry_inv reg \<Longrightarrow> client_of reg c = None \<Longrightarrow> c < next_client_id reg \<Longrightarrow>
   client_of reg' c = None"
proof (induction rule: registry_run.induct)
  case (step reg es reg1 fs reg')
  then show ?case using registry_step_closed [OF step(1)] registry_step_inv [OF step(1)] registry_step_next [OF step(1)]
    by auto
qed

lemma registry_step_evolves:
  assumes "registry_step reg es reg'" "registry_inv reg" "client_of reg c = Some cl" "client_of reg' c = Some cl'"
  shows "evolves cl cl'"
  using assms(1,2)
proof (rule registry_step_effect)
  fix cl2
  assume "client_of reg' = (client_of reg)(next_client_id reg \<mapsto> cl2)"
  moreover have "c \<noteq> next_client_id reg"
    using client_of_ok [OF assms(2,3)] by (auto simp: client_ok_def)
  ultimately show ?thesis using assms by simp
qed (use assms in \<open>auto split: if_splits\<close>)

lemma registry_run_evolves:
  "registry_run reg es reg' \<Longrightarrow> registry_inv reg \<Longrightarrow> client_of reg c = Some cl \<Longrightarrow> client_of reg' c = Some cl' \<Longrightarrow>
   evolves cl cl'"
proof (induction arbitrary: cl rule: registry_run.induct)
  case (step reg es reg1 fs reg')
  note inv1 = registry_step_inv [OF step(1,4)]
  have "c < next_client_id reg1"
    using client_of_ok [OF step(4,5)] registry_step_next [OF step(1,4)] by (auto simp: client_ok_def)
  then obtain cl1 where "client_of reg1 c = Some cl1"
    using registry_run_closed [OF step(2) inv1, of c] step(6) by fastforce
  then show ?case
    using evolves_trans [OF registry_step_evolves [OF step(1,4,5)] step(3) [OF inv1]] step(6) by blast
qed simp

text \<open>A client keeps its slot until it is removed.\<close>

definition in_slot :: "Registry \<Rightarrow> nat \<Rightarrow> ClientId \<Rightarrow> bool" where
  "in_slot reg i c \<longleftrightarrow> i < MAX_CLIENTS \<and> c_active (clients reg ! i) \<and> c_id (clients reg ! i) = c"

lemma registry_step_keeps_slot:
  assumes "registry_step reg es reg'" "registry_inv reg" "in_slot reg i c" "Closed c \<notin> set es"
  shows "in_slot reg' i c \<and> evolves (clients reg ! i) (clients reg' ! i)"
  using assms(1,2)
proof (cases rule: registry_step_slots)
  case (opened j cl)
  then have "j \<noteq> i" using assms(3) by (auto simp: in_slot_def)
  then show ?thesis using opened(3) assms(3) by (simp add: in_slot_def)
next
  case (rewritten j cl)
  then show ?thesis using assms(3) by (cases "j = i") (auto simp: in_slot_def)
next
  case (closed j)
  then have "j \<noteq> i" using assms(3,4) by (auto simp: in_slot_def)
  then show ?thesis using closed(3) assms(3) by (simp add: in_slot_def)
qed (use assms(3) in \<open>simp add: in_slot_def\<close>)

lemma in_slot_client_of: "registry_inv reg \<Longrightarrow> in_slot reg i c \<Longrightarrow> client_of reg c = Some (clients reg ! i)"
  using client_of_nth [of reg i c] by (simp add: in_slot_def registry_inv_def)

section \<open>Delivery order\<close>

definition queued :: "ClientId \<Rightarrow> registry_event list \<Rightarrow> OutgoingFrame list" where
  "queued c es = concat (map (\<lambda>e. case e of Queued d f \<Rightarrow> if d = c then [f] else [] | _ \<Rightarrow> []) es)"

definition taken :: "ClientId \<Rightarrow> registry_event list \<Rightarrow> OutgoingFrame list" where
  "taken c es = concat (map (\<lambda>e. case e of Taken d f \<Rightarrow> if d = c then [f] else [] | _ \<Rightarrow> []) es)"

lemma queued_taken_simps [simp]:
  "queued c [] = []" "taken c [] = []"
  "queued c (e # es) = (case e of Queued d f \<Rightarrow> if d = c then [f] else [] | _ \<Rightarrow> []) @ queued c es"
  "taken c (e # es) = (case e of Taken d f \<Rightarrow> if d = c then [f] else [] | _ \<Rightarrow> []) @ taken c es"
  by (simp_all add: queued_def taken_def)

lemma queued_taken_append [simp]:
  "queued c (es @ fs) = queued c es @ queued c fs" "taken c (es @ fs) = taken c es @ taken c fs"
  by (simp_all add: queued_def taken_def)

lemma mailbox_closed:
  "mailbox_events es m = Some m' \<Longrightarrow> m c = None \<Longrightarrow> Opened c \<notin> set es \<Longrightarrow>
   m' c = None \<and> queued c es = [] \<and> taken c es = []"
proof (induction es arbitrary: m)
  case (Cons e es)
  then show ?case by (cases e) (auto split: option.splits list.splits if_splits)
qed simp

lemma mailbox_fifo:
  "mailbox_events es m = Some m' \<Longrightarrow> m c = Some xs \<Longrightarrow> Opened c \<notin> set es \<Longrightarrow>
   \<exists>rest. taken c es @ rest = xs @ queued c es \<and> (\<forall>ys. m' c = Some ys \<longrightarrow> ys = rest)"
proof (induction es arbitrary: m xs)
  case (Cons e es)
  then obtain m1 where m1: "mailbox_event e m = Some m1" "mailbox_events es m1 = Some m'"
    by (auto split: option.splits)
  show ?case
  proof (cases "e = Closed c")
    case True
    then have "m1 c = None" using m1(1) by (auto split: option.splits)
    then show ?thesis using True mailbox_closed [OF m1(2)] Cons.prems by auto
  next
    case False
    then have "\<exists>ys. m1 c = Some ys \<and> taken c [e] @ ys = xs @ queued c [e]"
      using m1(1) Cons.prems by (cases e) (auto split: option.splits list.splits if_splits)
    then obtain ys where ys: "m1 c = Some ys" "taken c [e] @ ys = xs @ queued c [e]" by blast
    obtain rest where "taken c es @ rest = ys @ queued c es" "\<forall>ys. m' c = Some ys \<longrightarrow> ys = rest"
      using Cons.IH [OF m1(2) ys(1)] Cons.prems by auto
    moreover from this(1) ys(2) have "taken c ([e] @ es) @ rest = xs @ queued c ([e] @ es)"
      unfolding queued_taken_append by (metis append.assoc)
    ultimately show ?thesis by (metis append_Cons append_Nil)
  qed
qed simp

lemma registry_step_opened:
  assumes "registry_step reg es reg'" "registry_inv reg" "Opened c \<in> set es"
  shows "c = next_client_id reg \<and> es = [Opened c] \<and> c < next_client_id reg'"
  using assms(1)
proof cases
  case (add connection username r)
  from add(2) show ?thesis
  proof (cases rule: add_client_cases)
    case (added i fd)
    have "next_client_id reg' = next_client_id reg + 1"
      using assms(2) added(9) by (simp add: registry_inv_def allocate_client_id_eq)
    then show ?thesis using assms(3) add added(1) word_inc_less [OF add(3)] by simp
  qed (use assms(3) add in simp)
qed (use assms(3) in \<open>auto split: sum.splits option.splits\<close>)

lemma registry_run_opened:
  "registry_run reg es reg' \<Longrightarrow> registry_inv reg \<Longrightarrow> Opened c \<in> set es \<Longrightarrow> next_client_id reg \<le> c"
proof (induction rule: registry_run.induct)
  case (step reg es reg1 fs reg')
  then show ?case
    using registry_step_opened [OF step(1,4)] registry_step_inv [OF step(1,4)] registry_step_next [OF step(1,4)]
    by (auto intro: order_trans)
qed simp

lemma registry_fifo:
  assumes inv: "registry_inv reg" and run: "registry_run reg es reg'" and c: "outboxes reg c = Some xs"
  shows "\<exists>rest. taken c es @ rest = xs @ queued c es \<and> (\<forall>ys. outboxes reg' c = Some ys \<longrightarrow> ys = rest)"
proof -
  obtain cl where "client_of reg c = Some cl" using c by (auto simp: outboxes_client_of)
  then have "c < next_client_id reg" using client_of_ok [OF inv] by (auto simp: client_ok_def)
  then have "Opened c \<notin> set es" using registry_run_opened [OF run inv] by fastforce
  then show ?thesis using mailbox_fifo [of es "outboxes reg" _ c] mailbox_run [OF run inv] c by blast
qed

text \<open>No identifier is issued twice, whatever the order of logins and removals.\<close>

definition opened :: "registry_event list \<Rightarrow> ClientId list" where
  "opened es = concat (map (\<lambda>e. case e of Opened c \<Rightarrow> [c] | _ \<Rightarrow> []) es)"

lemma opened_append [simp]: "opened [] = []" "opened (es @ fs) = opened es @ opened fs"
  by (simp_all add: opened_def)

lemma set_opened: "set (opened es) = {c. Opened c \<in> set es}"
  by (force simp: opened_def split: registry_event.splits)

lemma registry_run_distinct:
  "registry_run reg es reg' \<Longrightarrow> registry_inv reg \<Longrightarrow> distinct (opened es)"
proof (induction rule: registry_run.induct)
  case (step reg es reg1 fs reg')
  note o = registry_step_opened [OF step(1,4)] and inv1 = registry_step_inv [OF step(1,4)]
  have "distinct (opened es)"
  proof (cases "opened es")
    case (Cons c cs)
    then have "Opened c \<in> set es" using set_opened [of es] by auto
    from o [OF this] show ?thesis by (simp add: opened_def)
  qed simp
  moreover have "set (opened es) \<inter> set (opened fs) = {}"
    using o registry_run_opened [OF step(2) inv1] by (fastforce simp: set_opened)
  ultimately show ?case using step.IH [OF inv1] by simp
qed simp

section \<open>The counter of identifiers\<close>

text \<open>
  All calls of the critical sections, with no condition on the counter; a successful login issues
  the identifier that \<open>allocate_client_id\<close> returns.
\<close>

inductive registry_call :: "Registry \<Rightarrow> registry_event list \<Rightarrow> Registry \<Rightarrow> bool" where
  add: "add_client reg connection username = (reg', r) \<Longrightarrow>
        registry_call reg (case r of Inl _ \<Rightarrow> [] | Inr _ \<Rightarrow> [Opened (fst (allocate_client_id reg))]) reg'"
| activate: "activate_client reg index = (reg', r) \<Longrightarrow> registry_call reg [] reg'"
| remove: "remove_client reg index = (reg', r) \<Longrightarrow>
        registry_call reg (case r of None \<Rightarrow> [] | Some _ \<Rightarrow> [Closed (get_client_id reg index)]) reg'"
| register: "register_client_public_key reg client_id key = (reg', r) \<Longrightarrow>
        CHAT_PUBLIC_KEY_SIZE \<le> length key \<Longrightarrow> registry_call reg [] reg'"
| queue: "queue_frame_to_client_id reg client_id type payload = (reg', r) \<Longrightarrow>
        registry_call reg
          (case r of Inl _ \<Rightarrow> [] | Inr _ \<Rightarrow> [Queued client_id \<lparr>of_type = type, of_payload = payload\<rparr>]) reg'"
| take: "take_outgoing_frame reg client_id = (reg', r) \<Longrightarrow>
        registry_call reg (case r of Inr (Some f) \<Rightarrow> [Taken client_id f] | _ \<Rightarrow> []) reg'"

inductive registry_calls :: "Registry \<Rightarrow> registry_event list \<Rightarrow> Registry \<Rightarrow> bool" where
  stop: "registry_calls reg [] reg"
| step: "registry_call reg es reg1 \<Longrightarrow> registry_calls reg1 fs reg' \<Longrightarrow> registry_calls reg (es @ fs) reg'"

lemma registry_call_step:
  assumes "registry_call reg es reg'" "registry_inv reg" "next_client_id reg \<noteq> -1"
  shows "registry_step reg es reg'"
  using assms(1)
proof cases
  case (add connection username r)
  have a: "fst (allocate_client_id reg) = next_client_id reg" using assms(2) by (simp add: registry_inv_def allocate_client_id_eq)
  show ?thesis using registry_step.add [OF add(2) assms(3)] unfolding add(1) a .
qed (auto intro: registry_step.intros)

text \<open>A step moves the counter on by the number of logins in it.\<close>

lemma registry_step_counter:
  assumes "registry_step reg es reg'" "registry_inv reg" "next_client_id reg \<noteq> -1"
  shows "unat (next_client_id reg') = unat (next_client_id reg) + length (opened es)"
  using assms(1,2)
proof (cases rule: registry_step_slots)
  case (opened i cl)
  have "unat (next_client_id reg + 1) = unat (next_client_id reg) + 1" using word_inc_unat [OF assms(3)] by simp
  then show ?thesis using opened(7,9) by (simp add: opened_def)
qed (auto simp: opened_def queue_change_def)

lemma registry_calls_run:
  "registry_calls reg es reg' \<Longrightarrow> registry_inv reg \<Longrightarrow> unat (next_client_id reg) + length (opened es) < 2 ^ 64 - 1 \<Longrightarrow>
   registry_run reg es reg'"
proof (induction rule: registry_calls.induct)
  case (step reg es reg1 fs reg')
  have "unat (-1 :: ClientId) = 2 ^ 64 - 1" by (simp add: unsigned_minus_1_eq_mask mask_eq_exp_minus_1)
  then have "next_client_id reg \<noteq> -1" using step.prems(2) by auto
  note s = registry_call_step [OF step.hyps(1) step.prems(1) this] and c = this
  have "unat (next_client_id reg1) + length (opened fs) < 2 ^ 64 - 1"
    using registry_step_counter [OF s step.prems(1) c] step.prems(2) by simp
  then show ?case using registry_run.step [OF s] step.IH registry_step_inv [OF s step.prems(1)] by blast
qed (rule registry_run.stop)

end
