(* ===== verification/Registry_Messages.thy ===== *)
theory Registry_Messages
  imports Registry_Steps
begin

text \<open>
  What the operations of the registry achieve: logins and name lookups, public keys, queued
  frames, broadcasts and the list of users. The state is read through \<open>client_of\<close>, the map
  from identifiers to logged-in clients; effects of the operations are map updates.
\<close>

section \<open>Queueing a frame\<close>

text \<open>The operating system grants every request.\<close>

definition os_grants :: "Os \<Rightarrow> bool" where
  "os_grants oracle \<longleftrightarrow> (\<forall>n. os_malloc oracle n \<and> os_eventfd_write oracle n = None)"

text \<open>What a granted request to queue a frame makes of the recipient.\<close>

definition deliver :: "OutgoingFrame \<Rightarrow> Client \<Rightarrow> Client" where
  "deliver f cl =
     (if \<not> c_ready cl then cl
      else if MAX_OUTGOING_FRAMES \<le> c_outgoing_count cl then cl\<lparr>c_outgoing_failed := True, c_ready := False\<rparr>
      else cl\<lparr>c_outgoing := c_outgoing cl @ [f], c_outgoing_count := Suc (c_outgoing_count cl)\<rparr>)"

lemma deliver_simps [simp]:
  "c_id (deliver f cl) = c_id cl" "c_active (deliver f cl) = c_active cl"
  "c_username (deliver f cl) = c_username cl"
  by (simp_all add: deliver_def)

lemma tick_grants [simp]: "os_grants (os (tick reg)) = os_grants (os reg)"
  by (simp add: tick_def os_grants_def)

lemma eventfd_write_granted:
  assumes "os_grants (os reg)"
  obtains w reg' where "eventfd_write fd reg = (w, reg')" "w = Woken \<or> w = WakePending"
    "clients reg' = clients reg" "next_client_id reg' = next_client_id reg" "os_grants (os reg')"
    "0 < os_counter (os reg') fd"
proof
  show "eventfd_write fd reg = (fst (eventfd_write fd reg), snd (eventfd_write fd reg))" by simp
qed (use assms in \<open>auto simp: eventfd_write_def os_grants_def tick_def\<close>)

lemma find_ready:
  assumes inv: "registry_inv reg"
  shows "find_slot (\<lambda>c. \<not> (\<not> c_active c \<or> \<not> c_ready c \<or> c_id c \<noteq> client_id)) (clients reg) =
    (if \<exists>cl. client_of reg client_id = Some cl \<and> c_ready cl
     then find_slot (\<lambda>c. c_active c \<and> c_id c = client_id) (clients reg) else None)" (is "?l = ?r")
proof (cases "find_slot (\<lambda>c. c_active c \<and> c_id c = client_id) (clients reg)")
  case None
  then have "?l = None" by (auto simp: find_slot_None)
  then show ?thesis using None by simp
next
  case (Some i)
  note i = find_slotD [OF Some]
  have cl: "client_of reg client_id = Some (clients reg ! i)" using Some by (simp add: client_of_def slot_lookup_def)
  show ?thesis
  proof (cases "c_ready (clients reg ! i)")
    case True
    then have "?l = Some i"
      using inv i by (intro find_slot_unique) (auto simp: registry_inv_def intro: by_id.uniqueD)
    then show ?thesis using True cl Some by simp
  next
    case False
    have "\<not> (c_active x \<and> c_ready x \<and> c_id x = client_id)" if "x \<in> set (clients reg)" for x
    proof
      assume x: "c_active x \<and> c_ready x \<and> c_id x = client_id"
      then have "client_of reg client_id = Some x"
        using that client_of_nth [OF inv] by (auto simp: in_set_conv_nth)
      then show False using False cl x by simp
    qed
    then have "?l = None" by (auto simp: find_slot_None)
    then show ?thesis using False cl by simp
  qed
qed

lemma queue_frame_granted:
  assumes inv: "registry_inv reg" and os: "os_grants (os reg)"
    and f: "client_id \<noteq> 0" "is_valid_frame_type type" "length payload \<le> FRAME_MAX_SIZE - 1"
  obtains reg' where
    "queue_frame_to_client_id reg client_id type payload =
       (reg', case client_of reg client_id of
                Some cl \<Rightarrow> if \<not> c_ready cl then Inl ENOENT
                           else if MAX_OUTGOING_FRAMES \<le> c_outgoing_count cl then Inl ENOBUFS else Inr ()
              | None \<Rightarrow> Inl ENOENT)"
    "client_of reg' = (client_of reg)
       (client_id := map_option (deliver \<lparr>of_type = type, of_payload = payload\<rparr>) (client_of reg client_id))"
    "registry_inv reg'" "os_grants (os reg')"
    "\<And>cl. client_of reg client_id = Some cl \<Longrightarrow> c_ready cl \<Longrightarrow> 0 < os_counter (os reg') (c_wake_fd cl)"
proof -
  let ?f = "\<lparr>of_type = type, of_payload = payload\<rparr>"
  let ?q = "queue_frame_to_client_id reg client_id type payload"
  have m: "malloc reg = (True, tick reg)" using os by (simp add: malloc_def os_grants_def)
  have inv': "registry_inv (fst ?q)" using queue_frame_inv [OF inv, of client_id type payload "fst ?q" "snd ?q"] by simp
  have find: "find_slot (\<lambda>c. \<not> (\<not> c_active c \<or> \<not> c_ready c \<or> c_id c \<noteq> client_id)) (clients (tick reg)) =
    (if \<exists>cl. client_of reg client_id = Some cl \<and> c_ready cl
     then find_slot (\<lambda>c. c_active c \<and> c_id c = client_id) (clients reg) else None)"
    using find_ready [OF inv] by simp
  show thesis
  proof (cases "\<exists>cl. client_of reg client_id = Some cl \<and> c_ready cl")
    case False
    then have q: "?q = (tick reg, Inl ENOENT)"
      using f m find by (auto simp: queue_frame_to_client_id_def)
    have "client_of reg client_id = map_option (deliver ?f) (client_of reg client_id)"
      using False by (cases "client_of reg client_id") (auto simp: deliver_def)
    then have "client_of (tick reg) = (client_of reg)(client_id := map_option (deliver ?f) (client_of reg client_id))"
      by (simp add: client_of_def fun_eq_iff)
    then show thesis
      by (rule that [of "tick reg", rotated]) (use q False os inv' in \<open>auto split: option.splits\<close>)
  next
    case True
    then obtain cl where cl: "client_of reg client_id = Some cl" "c_ready cl" by blast
    then obtain i where i: "find_slot (\<lambda>c. c_active c \<and> c_id c = client_id) (clients reg) = Some i" "clients reg ! i = cl"
      by (auto simp: client_of_def slot_lookup_def)
    note i' = find_slotD [OF i(1)]
    obtain w reg2 where w: "eventfd_write (c_wake_fd cl) (tick reg) = (w, reg2)" "w = Woken \<or> w = WakePending"
      "clients reg2 = clients reg" "next_client_id reg2 = next_client_id reg" "os_grants (os reg2)"
      "0 < os_counter (os reg2) (c_wake_fd cl)"
      using eventfd_write_granted [of "tick reg" "c_wake_fd cl"] os by auto
    have q: "?q = (reg2\<lparr>clients := (clients reg)[i := deliver ?f cl]\<rparr>,
        if MAX_OUTGOING_FRAMES \<le> c_outgoing_count cl then Inl ENOBUFS else Inr ())"
      using f m find cl i w by (auto simp: queue_frame_to_client_id_def deliver_def)
    have "client_of (reg2\<lparr>clients := (clients reg)[i := deliver ?f cl]\<rparr>) = (client_of reg)(client_id \<mapsto> deliver ?f cl)"
      using client_of_rewrite [OF inv, of i "deliver ?f cl"] i i' by auto
    then show thesis
      by (intro that [of "reg2\<lparr>clients := (clients reg)[i := deliver ?f cl]\<rparr>"]) (use q cl w inv' in auto)
  qed
qed

section \<open>Broadcast\<close>

abbreviation text_frame :: "bytes \<Rightarrow> OutgoingFrame" where
  "text_frame message \<equiv> \<lparr>of_type = FRAME_TEXT, of_payload = message\<rparr>"

lemma send_text_granted:
  assumes "registry_inv reg" "os_grants (os reg)" "client_id \<noteq> 0" "message \<noteq> []" "length message \<le> FRAME_MAX_SIZE - 1"
    and "send_text_to_client_id reg client_id message = (reg', r)"
  shows "client_of reg' = (client_of reg)(client_id := map_option (deliver (text_frame message)) (client_of reg client_id))"
    "registry_inv reg'" "os_grants (os reg')"
proof -
  obtain reg1 where reg1: "queue_frame_to_client_id reg client_id FRAME_TEXT message = (reg1, r)"
      "client_of reg1 = (client_of reg)(client_id := map_option (deliver (text_frame message)) (client_of reg client_id))"
      "registry_inv reg1" "os_grants (os reg1)"
    using queue_frame_granted [OF assms(1,2,3) _ assms(5), of FRAME_TEXT] assms(4,6)
    by (auto simp: send_text_to_client_id_def send_frame_to_client_id_def)
  then show "client_of reg' = (client_of reg)(client_id := map_option (deliver (text_frame message)) (client_of reg client_id))"
    "registry_inv reg'" "os_grants (os reg')"
    using assms(4,6) by (auto simp: send_text_to_client_id_def send_frame_to_client_id_def)
qed

lemma send_text_to_each_granted:
  assumes "message \<noteq> []" "length message \<le> FRAME_MAX_SIZE - 1"
  shows "registry_inv reg \<Longrightarrow> os_grants (os reg) \<Longrightarrow> 0 \<notin> set ids \<Longrightarrow> distinct ids \<Longrightarrow>
    client_of (send_text_to_each reg message ids) c =
      (if c \<in> set ids then map_option (deliver (text_frame message)) (client_of reg c) else client_of reg c)"
proof (induction ids arbitrary: reg)
  case (Cons d ids)
  obtain reg1 r where *: "send_text_to_client_id reg d message = (reg1, r)" by fastforce
  note g = send_text_granted [OF Cons.prems(1,2) _ assms *]
  show ?case using * Cons.IH [of reg1] g Cons.prems by auto
qed simp

lemma recipient_iff:
  assumes inv: "registry_inv reg"
  shows "c \<in> set (broadcast_recipients reg sender_id) \<longleftrightarrow>
    (\<exists>cl. client_of reg c = Some cl \<and> c_ready cl) \<and> c \<noteq> sender_id"
  unfolding client_of_Some [OF inv]
  by (auto simp: broadcast_recipients_def image_iff in_set_conv_nth)

lemma map_filter_nth_distinct:
  assumes "\<And>i j. i < length xs \<Longrightarrow> j < length xs \<Longrightarrow> P (xs ! i) \<Longrightarrow> P (xs ! j) \<Longrightarrow> f (xs ! i) = f (xs ! j) \<Longrightarrow> i = j"
  shows "distinct (map f (filter P xs))"
  using assms
proof (induction xs)
  case (Cons x xs)
  have "distinct (map f (filter P xs))"
  proof (rule Cons.IH)
    fix i j
    assume "i < length xs" "j < length xs" "P (xs ! i)" "P (xs ! j)" "f (xs ! i) = f (xs ! j)"
    then show "i = j" using Cons.prems [of "Suc i" "Suc j"] by simp
  qed
  moreover have "f x \<notin> f ` {y \<in> set xs. P y}" if "P x"
    using that Cons.prems [of 0 "Suc j" for j] by (auto simp: in_set_conv_nth)
  ultimately show ?case by auto
qed simp

lemma recipients_distinct: "registry_inv reg \<Longrightarrow> distinct (broadcast_recipients reg sender_id)"
  unfolding broadcast_recipients_def
  by (rule map_filter_nth_distinct) (auto simp: registry_inv_def intro: by_id.uniqueD)

lemma recipients_nonzero: "registry_inv reg \<Longrightarrow> 0 \<notin> set (broadcast_recipients reg sender_id)"
  using client_of_ok [of reg 0] by (fastforce simp: recipient_iff client_ok_def)

lemma broadcast_granted:
  assumes inv: "registry_inv reg" and os: "os_grants (os reg)"
    and m: "message \<noteq> []" "length message \<le> FRAME_MAX_SIZE - 1"
  shows "client_of (send_message_to_all_clients reg message sender_id) c =
    map_option (\<lambda>cl. if c = sender_id then cl else deliver (text_frame message) cl) (client_of reg c)"
proof -
  have "client_of (send_message_to_all_clients reg message sender_id) c =
    (if c \<in> set (broadcast_recipients reg sender_id)
     then map_option (deliver (text_frame message)) (client_of reg c) else client_of reg c)"
    using m(1) send_text_to_each_granted [OF m inv os recipients_nonzero [OF inv] recipients_distinct [OF inv]]
    by (simp add: send_message_to_all_clients_def)
  then show ?thesis
    by (cases "client_of reg c") (auto simp: recipient_iff [OF inv] deliver_def)
qed

section \<open>The list of users\<close>

definition name_lines :: "Client list \<Rightarrow> bytes" where
  "name_lines cs = concat (map (\<lambda>c. if c_active c \<and> c_ready c then 10 # c_username c else []) cs)"

lemma append_names_eq:
  "length client_list < BUFFER_SIZE \<Longrightarrow>
   append_names cs client_list = take (BUFFER_SIZE - 1) (client_list @ name_lines cs)"
proof (induction cs arbitrary: client_list)
  case Nil
  then show ?case by (simp add: name_lines_def)
next
  case (Cons c cs)
  show ?case
  proof (cases "c_active c \<and> c_ready c \<and> BUFFER_SIZE - length client_list \<le> Suc (length (c_username c))")
    case True
    then show ?thesis using Cons.prems
      by (auto simp: name_lines_def snprintf_def Let_def take_Cons' min_def)
  next
    case False
    then show ?thesis using Cons.prems Cons.IH [of client_list] Cons.IH [of "client_list @ 10 # c_username c"]
      by (auto simp: name_lines_def snprintf_def Let_def take_Cons')
  qed
qed

section \<open>Names and keys\<close>

lemma find_client_id_eq:
  assumes inv: "registry_inv reg" and cl: "client_of reg c = Some cl" "c_ready cl"
  shows "find_client_id reg (c_username cl) = c"
proof -
  obtain i where i: "i < length (clients reg)" "clients reg ! i = cl" "c_active cl" "c_id cl = c"
    using cl(1) by (auto simp: client_of_Some [OF inv])
  then have "find_slot (\<lambda>x. c_active x \<and> c_ready x \<and> c_username x = c_username cl) (clients reg) = Some i"
    using inv cl(2) by (intro find_slot_unique) (auto simp: registry_inv_def intro: by_name.uniqueD)
  then show ?thesis using i by (simp add: find_client_id_def)
qed

lemma find_client_idD:
  assumes inv: "registry_inv reg" and "find_client_id reg username = c" "c \<noteq> 0"
  obtains cl where "client_of reg c = Some cl" "c_ready cl" "c_username cl = username"
proof (cases "find_slot (\<lambda>c. c_active c \<and> c_ready c \<and> c_username c = username) (clients reg)")
  case (Some i)
  note i = find_slotD [OF Some]
  then have "c_id (clients reg ! i) = c" using Some assms by (simp add: find_client_id_def)
  then show ?thesis using that client_of_nth [OF inv i(1)] i by blast
qed (use assms in \<open>simp add: find_client_id_def\<close>)

lemma find_client_id_iff:
  assumes inv: "registry_inv reg" and "c \<noteq> 0"
  shows "find_client_id reg username = c \<longleftrightarrow>
    (\<exists>cl. client_of reg c = Some cl \<and> c_ready cl \<and> c_username cl = username)"
  using find_client_idD [OF inv _ assms(2)] find_client_id_eq [OF inv] by metis

lemma add_client_taken:
  assumes inv: "registry_inv reg" and cl: "client_of reg c = Some cl"
    and conn: "0 \<le> socket_fd connection" "ssl connection \<noteq> None"
  shows "add_client reg connection (c_username cl) = (reg, Inl EEXIST)"
proof -
  obtain i where i: "i < length (clients reg)" "clients reg ! i = cl" "c_active cl"
    using cl by (auto simp: client_of_Some [OF inv])
  have "find_slot (\<lambda>x. c_active x \<and> c_username x = c_username cl) (clients reg) \<noteq> None"
    unfolding find_slot_None using i nth_mem [OF i(1)] by auto
  moreover have "username_is_valid (c_username cl)"
    using client_of_ok [OF inv cl] by (simp add: client_ok_def)
  ultimately show ?thesis using conn by (simp add: add_client_def scan_clients_eq)
qed

lemma add_activate:
  assumes inv: "registry_inv reg" and nowrap: "next_client_id reg \<noteq> -1"
    and a: "add_client reg connection username = (reg1, Inr i)"
  shows "find_client_id reg1 username = INVALID_CLIENT_ID \<and> snd (activate_client reg1 (int i)) = Inr () \<and>
    find_client_id (fst (activate_client reg1 (int i))) username = next_client_id reg \<and>
    get_client_id reg1 (int i) = next_client_id reg"
proof -
  note inv1 = add_client_inv [OF inv a nowrap]
  from a show ?thesis
  proof (cases rule: add_client_cases)
    case (added j fd)
    let ?reg2 = "fst (activate_client reg1 (int i))"
    have j: "j = i" using added(1) by simp
    have lt: "i < length (clients reg1)" "i < MAX_CLIENTS" using inv inv1 added j by (auto simp: registry_inv_def)
    have id: "fst (allocate_client_id reg) = next_client_id reg"
      using inv by (simp add: registry_inv_def allocate_client_id_eq)
    have c: "c_active (clients reg1 ! i)" "\<not> c_ready (clients reg1 ! i)" "c_username (clients reg1 ! i) = username"
      "c_id (clients reg1 ! i) = next_client_id reg"
      using added id j lt by (auto simp: added(8))
    have act: "?reg2 = reg1\<lparr>clients := (clients reg1)[i := (clients reg1 ! i)\<lparr>c_ready := True\<rparr>]\<rparr>"
      "snd (activate_client reg1 (int i)) = Inr ()"
      using c lt by (auto simp: activate_client_def Let_def)
    have inv2: "registry_inv ?reg2" using activate_client_inv [OF inv1 prod.collapse [symmetric]] by blast
    have "client_of ?reg2 (next_client_id reg) = Some ((clients reg1 ! i)\<lparr>c_ready := True\<rparr>)"
      using client_of_nth [OF inv2, of i] c lt act(1) by simp
    from find_client_id_eq [OF inv2 this] have "find_client_id ?reg2 username = next_client_id reg" using c by simp
    moreover have "find_client_id reg1 username = 0"
    proof (rule ccontr)
      assume "find_client_id reg1 username \<noteq> 0"
      then obtain k where "k < length (clients reg1)" "c_active (clients reg1 ! k)" "c_ready (clients reg1 ! k)"
          "c_username (clients reg1 ! k) = username"
        by (auto simp: find_client_id_def dest: find_slotD split: option.splits)
      moreover from this have "k = i"
        using by_name.uniqueD [of "clients reg1" k i] inv1 c lt by (auto simp: registry_inv_def)
      ultimately show False using c by simp
    qed
    moreover have "get_client_id reg1 (int i) = next_client_id reg"
      using c lt by (simp add: get_client_id_def Let_def)
    ultimately show ?thesis using act by simp
  qed simp
qed

lemma get_key_iff:
  assumes inv: "registry_inv reg"
  shows "get_client_public_key reg c = Inr key \<longleftrightarrow>
    (\<exists>cl. client_of reg c = Some cl \<and> c_ready cl \<and> c_has_public_key cl \<and> c_public_key cl = key)" (is "?l \<longleftrightarrow> ?r")
proof
  assume l: ?l
  then obtain i where "find_slot (\<lambda>x. c_active x \<and> c_ready x \<and> c_id x = c \<and> c_has_public_key x) (clients reg) = Some i"
    by (auto simp: get_client_public_key_def split: option.splits)
  from this find_slotD [OF this] show ?r
    using l client_of_nth [OF inv, of i c] by (auto simp: get_client_public_key_def)
next
  assume ?r
  then obtain cl i where i: "i < length (clients reg)" "clients reg ! i = cl" "c_active cl" "c_id cl = c"
    "c_ready cl" "c_has_public_key cl" "c_public_key cl = key"
    by (auto simp: client_of_Some [OF inv])
  have "find_slot (\<lambda>x. c_active x \<and> c_ready x \<and> c_id x = c \<and> c_has_public_key x) (clients reg) = Some i"
    using inv i by (intro find_slot_unique) (auto simp: registry_inv_def intro: by_id.uniqueD)
  then show ?l using i by (simp add: get_client_public_key_def)
qed

text \<open>A key that was published stays the key of that client for as long as it is logged in.\<close>

lemma key_stable:
  assumes inv: "registry_inv reg" and run: "registry_run reg es reg'"
    and key: "get_client_public_key reg c = Inr key" and key': "get_client_public_key reg' c = Inr key'"
  shows "key' = key"
  using registry_run_evolves [OF run inv] key key'
  by (auto simp: get_key_iff [OF inv] get_key_iff [OF registry_run_inv [OF run inv]] evolves_def)

text \<open>An answer that does not fit the buffer is not sent: a long command gets no answer at all.\<close>

lemma long_command_unanswered:
  assumes "BUFFER_SIZE \<le> length command"
  shows "send_unknown_command reg c command = reg" "send_invalid_command reg c command = reg"
  using assms by (simp_all add: send_unknown_command_def send_invalid_command_def send_formatted_def snprintf_def
      format_unknown_command format_invalid_command)

end
