(* ===== verification/Server_Files.thy ===== *)
theory Server_Files
  imports File_Routes File_Protocol Registry_Messages
begin

text \<open>
  \<open>server_files.h\<close> and \<open>server_files.c\<close>: the handlers of the file frames a client sends. The
  state is the registry together with the table of routes. A handler is the sequence of the
  critical sections of both, in the order of the code; its result is the return value, with
  the value \<open>errno\<close> has for the caller (a notification the code sends after a failure
  overwrites it when the notification itself fails).
\<close>

record Server =
  registry :: Registry
  table :: RouteTable

section \<open>Calls into the registry\<close>

definition server_send :: "Server \<Rightarrow> ClientId \<Rightarrow> FrameType \<Rightarrow> bytes \<Rightarrow> Server \<times> unit result" where
  "server_send s client_id type payload =
     (let (reg, r) = send_frame_to_client_id (registry s) client_id type payload in (s\<lparr>registry := reg\<rparr>, r))"

definition server_text :: "Server \<Rightarrow> ClientId \<Rightarrow> bytes \<Rightarrow> Server \<times> unit result" where
  "server_text s client_id message =
     (let (reg, r) = send_text_to_client_id (registry s) client_id message in (s\<lparr>registry := reg\<rparr>, r))"

section \<open>Notifications\<close>

definition get_username_length :: "bytes \<Rightarrow> nat option" where
  "get_username_length username =
     (let current_length = min USERNAME_SIZE (length username)
      in if current_length = 0 \<or> USERNAME_SIZE \<le> current_length then None else Some current_length)"

definition send_receiver_error :: "Server \<Rightarrow> FileRouteEndpoint \<Rightarrow> Server \<times> unit result" where
  "send_receiver_error s endpoint =
     (if ep_target_id endpoint = INVALID_CLIENT_ID then (s, Inl EINVAL)
      else case file_protocol_encode_control FILE_CONTROL_PAYLOAD_SIZE (ep_outbound_transfer_id endpoint) of
             Inl e \<Rightarrow> (s, Inl e)
           | Inr payload \<Rightarrow> server_send s (ep_target_id endpoint) FRAME_FILE_ERROR payload)"

definition notify_sender :: "Server \<Rightarrow> ClientId \<Rightarrow> bytes \<Rightarrow> Server \<times> unit result" where
  "notify_sender s sender_id message =
     (if sender_id \<noteq> INVALID_CLIENT_ID then server_text s sender_id message else (s, Inr ()))"

definition notify_sender_for_transfer :: "Server \<Rightarrow> ClientId \<Rightarrow> u32 \<Rightarrow> bytes \<Rightarrow> Server \<times> unit result" where
  "notify_sender_for_transfer s sender_id source_transfer_id message =
     (let (written, formatted) = snprintf BUFFER_SIZE
            (format (str ''Transfer id %s: %s'') [decimal (unat source_transfer_id), message])
      in if 0 < written \<and> written < BUFFER_SIZE then notify_sender s sender_id formatted
         else notify_sender s sender_id message)"

definition reject_known_transfer :: "Server \<Rightarrow> ClientId \<Rightarrow> u32 \<Rightarrow> bytes \<Rightarrow> bool \<Rightarrow> Server \<times> unit result" where
  "reject_known_transfer s sender_id source_transfer_id message keep_discard =
     (let (t, was_forwarding, previous) =
            file_routes_quarantine (table s) sender_id source_transfer_id keep_discard;
          s1 = s\<lparr>table := t\<rparr>;
          s2 = (if was_forwarding then fst (send_receiver_error s1 previous) else s1);
          s3 = fst (notify_sender_for_transfer s2 sender_id source_transfer_id message)
      in (s3, Inl EPROTO))"

section \<open>Handlers\<close>

text \<open>The common answer to a frame that cannot be decoded.\<close>

definition reject_malformed ::
  "Server \<Rightarrow> ClientId \<Rightarrow> bytes \<Rightarrow> bytes \<Rightarrow> bytes \<Rightarrow> bool \<Rightarrow> Server \<times> unit result" where
  "reject_malformed s sender_id frame known_message message keep_discard =
     (case file_protocol_read_transfer_id frame of
        Inr source_transfer_id \<Rightarrow> reject_known_transfer s sender_id source_transfer_id known_message keep_discard
      | Inl _ \<Rightarrow> (fst (notify_sender s sender_id message), Inl EPROTO))"

definition handle_file_begin :: "Server \<Rightarrow> ClientId \<Rightarrow> bytes \<Rightarrow> bytes \<Rightarrow> Server \<times> unit result" where
  "handle_file_begin s sender_id sender_username frame =
     (if get_username_length sender_username = None \<or> \<not> file_protocol_valid_peer_name sender_username
      then (fst (notify_sender s sender_id (str ''File transfer rejected: invalid sender username'' @ [10])), Inl EINVAL)
      else case file_protocol_decode_begin frame of
        Inl _ \<Rightarrow>
          reject_malformed s sender_id frame
            (str ''File transfer rejected: malformed begin frame'' @ [10])
            (str ''File transfer rejected: malformed begin frame'' @ [10]) True
      | Inr begin_frame \<Rightarrow>
          let target_id = find_client_id (registry s) (fb_peer begin_frame);
              discard = (target_id = INVALID_CLIENT_ID \<or> target_id = sender_id);
              source_id = fb_transfer_id begin_frame;
              (t, add_result, endpoint, replaced) =
                file_routes_add (table s) sender_id source_id target_id (fb_file_size begin_frame) discard;
              s1 = s\<lparr>table := t\<rparr>
          in case add_result of
               FILE_ROUTE_ADD_DUPLICATE \<Rightarrow>
                 let s2 = (if ep_target_id replaced \<noteq> INVALID_CLIENT_ID then fst (send_receiver_error s1 replaced) else s1)
                 in (fst (notify_sender_for_transfer s2 sender_id source_id
                       (str ''File transfer rejected: duplicate transfer id'' @ [10])), Inl EPROTO)
             | FILE_ROUTE_ADD_FULL \<Rightarrow>
                 (fst (notify_sender s1 sender_id
                    (str ''File transfer rejected: server transfer limit reached'' @ [10])), Inl ENOSPC)
             | FILE_ROUTE_ADD_ID_UNAVAILABLE \<Rightarrow>
                 (fst (notify_sender s1 sender_id
                    (str ''File transfer rejected: no transfer id is available'' @ [10])), Inl ENOSPC)
             | FILE_ROUTE_ADD_DISCARD \<Rightarrow>
                 let (written, message) = snprintf BUFFER_SIZE
                       (if target_id = sender_id
                        then str ''File transfer rejected: cannot send a file to yourself'' @ [10]
                        else format (str ''File transfer rejected: user %s is not connected'' @ [10])
                               [fb_peer begin_frame])
                 in (fst (notify_sender_for_transfer s1 sender_id source_id
                       (if 0 < written \<and> written < BUFFER_SIZE then message
                        else str ''File transfer rejected: recipient is not connected'' @ [10])), Inr ())
             | FILE_ROUTE_ADD_READY \<Rightarrow>
                 (case file_protocol_encode_begin FILE_BEGIN_PAYLOAD_MAX_SIZE (ep_outbound_transfer_id endpoint)
                         (fb_file_size begin_frame) sender_username (fb_filename begin_frame) of
                    Inl _ \<Rightarrow> reject_known_transfer s1 sender_id source_id
                               (str ''File transfer rejected: begin frame is too large'' @ [10]) True
                  | Inr payload \<Rightarrow>
                      (case server_send s1 (ep_target_id endpoint) FRAME_FILE_BEGIN payload of
                         (s2, Inl e) \<Rightarrow>
                           let (t2, _, _) = file_routes_quarantine (table s2) sender_id source_id True;
                               (s3, notified) = notify_sender_for_transfer (s2\<lparr>table := t2\<rparr>) sender_id source_id
                                 (str ''File transfer failed: could not reach recipient'' @ [10])
                           in (s3, Inl (last_errno e notified))
                       | (s2, Inr _) \<Rightarrow> (s2, Inr ()))))"

definition handle_file_chunk :: "Server \<Rightarrow> ClientId \<Rightarrow> bytes \<Rightarrow> Server \<times> unit result" where
  "handle_file_chunk s sender_id frame =
     (case file_protocol_decode_chunk frame of
        Inl _ \<Rightarrow>
          reject_malformed s sender_id frame
            (str ''File transfer failed: invalid chunk size'' @ [10])
            (str ''File transfer rejected: malformed chunk frame'' @ [10]) True
      | Inr chunk \<Rightarrow>
          let source_id = fc_transfer_id chunk;
              (t, route_result, endpoint) =
                file_routes_accept_chunk (table s) sender_id source_id (length (fc_data chunk));
              s1 = s\<lparr>table := t\<rparr>
          in case route_result of
               FILE_ROUTE_CHUNK_MISSING \<Rightarrow>
                 (fst (notify_sender_for_transfer s1 sender_id source_id
                    (str ''File transfer rejected: chunk has no matching begin frame'' @ [10])), Inl EPROTO)
             | FILE_ROUTE_CHUNK_DISCARD \<Rightarrow> (s1, Inr ())
             | FILE_ROUTE_CHUNK_OVERRUN \<Rightarrow>
                 let s2 = fst (send_receiver_error s1 endpoint)
                 in (fst (notify_sender_for_transfer s2 sender_id source_id
                       (str ''File transfer failed: data exceeds declared file size'' @ [10])), Inl EPROTO)
             | FILE_ROUTE_CHUNK_READY \<Rightarrow>
                 (case file_protocol_encode_chunk FILE_CHUNK_PAYLOAD_MAX_SIZE (ep_outbound_transfer_id endpoint)
                         (fc_data chunk) of
                    Inl _ \<Rightarrow> reject_known_transfer s1 sender_id source_id
                               (str ''File transfer failed: could not encode chunk'' @ [10]) True
                  | Inr payload \<Rightarrow>
                      (case server_send s1 (ep_target_id endpoint) FRAME_FILE_CHUNK payload of
                         (s2, Inl e) \<Rightarrow>
                           let (t2, converted) = file_routes_mark_forward_failed (table s2) sender_id source_id
                                 (ep_outbound_transfer_id endpoint);
                               s3 = s2\<lparr>table := t2\<rparr>
                           in if converted
                              then let (s4, notified) = notify_sender_for_transfer s3 sender_id source_id
                                         (str ''File transfer failed: recipient disconnected'' @ [10])
                                   in (s4, Inl (last_errno e notified))
                              else (s3, Inl e)
                       | (s2, Inr _) \<Rightarrow> (s2, Inr ()))))"

definition handle_file_end :: "Server \<Rightarrow> ClientId \<Rightarrow> bytes \<Rightarrow> Server \<times> unit result" where
  "handle_file_end s sender_id frame =
     (case file_protocol_decode_control frame FRAME_FILE_END of
        Inl _ \<Rightarrow>
          reject_malformed s sender_id frame
            (str ''File transfer failed: malformed end frame'' @ [10])
            (str ''File transfer rejected: malformed end frame'' @ [10]) False
      | Inr source_id \<Rightarrow>
          let (t, finish_result, endpoint) = file_routes_finish (table s) sender_id source_id True;
              s1 = s\<lparr>table := t\<rparr>
          in case finish_result of
               FILE_ROUTE_FINISH_MISSING \<Rightarrow>
                 (fst (notify_sender_for_transfer s1 sender_id source_id
                    (str ''File transfer rejected: end has no matching begin frame'' @ [10])), Inl EPROTO)
             | FILE_ROUTE_FINISH_DISCARD \<Rightarrow> (s1, Inr ())
             | FILE_ROUTE_FINISH_INCOMPLETE \<Rightarrow>
                 let s2 = fst (send_receiver_error s1 endpoint)
                 in (fst (notify_sender_for_transfer s2 sender_id source_id
                       (str ''File transfer failed: received size does not match declared size'' @ [10])), Inl EPROTO)
             | FILE_ROUTE_FINISH_READY \<Rightarrow>
                 (case (case file_protocol_encode_control FILE_CONTROL_PAYLOAD_SIZE (ep_outbound_transfer_id endpoint) of
                          Inl e \<Rightarrow> (s1, Inl e)
                        | Inr payload \<Rightarrow> server_send s1 (ep_target_id endpoint) FRAME_FILE_END payload) of
                    (s2, Inl e) \<Rightarrow>
                      let (s3, notified) = notify_sender_for_transfer s2 sender_id source_id
                            (str ''File transfer failed: recipient disconnected'' @ [10])
                      in (s3, Inl (last_errno e notified))
                  | (s2, Inr _) \<Rightarrow> (s2, Inr ())))"

definition handle_file_error :: "Server \<Rightarrow> ClientId \<Rightarrow> bytes \<Rightarrow> Server \<times> unit result" where
  "handle_file_error s sender_id frame =
     (case file_protocol_decode_control frame FRAME_FILE_ERROR of
        Inl _ \<Rightarrow>
          reject_malformed s sender_id frame
            (str ''File transfer rejected: malformed error frame'' @ [10])
            (str ''File transfer rejected: malformed error frame'' @ [10]) False
      | Inr source_id \<Rightarrow>
          let (t, finish_result, endpoint) = file_routes_finish (table s) sender_id source_id False;
              s1 = s\<lparr>table := t\<rparr>
          in case finish_result of
               FILE_ROUTE_FINISH_MISSING \<Rightarrow>
                 (fst (notify_sender_for_transfer s1 sender_id source_id
                    (str ''File transfer rejected: error has no matching begin frame'' @ [10])), Inl EPROTO)
             | FILE_ROUTE_FINISH_DISCARD \<Rightarrow> (s1, Inr ())
             | FILE_ROUTE_FINISH_INCOMPLETE \<Rightarrow> send_receiver_error s1 endpoint
             | FILE_ROUTE_FINISH_READY \<Rightarrow> send_receiver_error s1 endpoint)"

definition route_file_frame :: "Server \<Rightarrow> ClientId \<Rightarrow> bytes \<Rightarrow> bytes \<Rightarrow> Server \<times> unit result" where
  "route_file_frame s sender_id sender_username full_frame =
     (if sender_id = INVALID_CLIENT_ID \<or> length full_frame = 0 then (s, Inl EINVAL)
      else if FRAME_MAX_SIZE < length full_frame
      then (fst (notify_sender s sender_id (str ''File transfer rejected: frame is too large'' @ [10])), Inl EMSGSIZE)
      else case FrameType_of (full_frame ! 0) of
             FRAME_FILE_BEGIN \<Rightarrow> handle_file_begin s sender_id sender_username full_frame
           | FRAME_FILE_CHUNK \<Rightarrow> handle_file_chunk s sender_id full_frame
           | FRAME_FILE_END \<Rightarrow> handle_file_end s sender_id full_frame
           | FRAME_FILE_ERROR \<Rightarrow> handle_file_error s sender_id full_frame
           | _ \<Rightarrow> (fst (notify_sender s sender_id
                    (str ''File transfer rejected: invalid file frame type'' @ [10])), Inl EPROTO))"

definition init_file_routes :: "Server \<Rightarrow> Server" where
  "init_file_routes s = s\<lparr>table := file_routes_init (table s)\<rparr>"

fun perform_abort_actions :: "Server \<Rightarrow> FileRouteAbortAction list \<Rightarrow> Server" where
  "perform_abort_actions s [] = s"
| "perform_abort_actions s (a # as) =
     perform_abort_actions
       (if aa_type a = FILE_ROUTE_ABORT_SEND_ERROR
        then fst (send_receiver_error s \<lparr>ep_target_id = aa_client_id a,
                    ep_outbound_transfer_id = aa_outbound_transfer_id a\<rparr>)
        else fst (notify_sender s (aa_client_id a)
                    (str ''File transfer failed: recipient disconnected'' @ [10]))) as"

definition abort_file_routes_for_client :: "Server \<Rightarrow> ClientId \<Rightarrow> Server" where
  "abort_file_routes_for_client s client_id =
     (if client_id = INVALID_CLIENT_ID then s
      else let (t, actions) = file_routes_abort_client (table s) client_id FILE_ROUTE_CAPACITY
           in perform_abort_actions (s\<lparr>table := t\<rparr>) actions)"

end
