(* ===== verification/Server_Worker.thy ===== *)
theory Server_Worker
  imports Server_Files
begin

text \<open>
  \<open>server_worker.c\<close>: the loop that owns one logged-in connection. It alternates between
  sending the frames queued for its client and receiving frames for the handler, on a
  non-blocking TLS connection. One \<open>turn\<close> of the loop is one pass of the \<open>for (;;)\<close>: it
  carries what the system calls and OpenSSL answer in that pass and what other threads do
  to the shared state at four points of it. A schedule is any list of turns; the model
  says what the worker has done when the schedule is used up, or how it returned. What it
  received is stated by \<open>serves\<close>: the shared state results from calls of the handler on the frames
  of the stream, and from what the other threads did.
\<close>

section \<open>State of the loop\<close>

text \<open>
  \<open>wk_incoming\<close> are the first \<open>received\<close> bytes of the array \<open>incoming\<close>, \<open>wk_unsent\<close> the bytes of the
  array \<open>outgoing\<close> from \<open>sent\<close> to \<open>outgoing_length\<close>. Both arrays have \<open>WORKER_ARRAY_SIZE\<close> bytes; every
  access to them is checked against it.
\<close>

definition WORKER_ARRAY_SIZE :: nat where "WORKER_ARRAY_SIZE = 4 + FRAME_MAX_SIZE"

record Worker =
  wk_incoming :: bytes
  wk_needed :: nat
  wk_read_wait :: poll_event
  wk_unsent :: bytes
  wk_write_wait :: poll_event

record Turn =
  tn_before :: "Server \<Rightarrow> Server"
  tn_event_read :: "errno option"
  tn_woken :: "Server \<Rightarrow> Server"
  tn_checked :: "Server \<Rightarrow> Server"
  tn_write :: write_answer
  tn_read :: read_answer
  tn_waiting :: "Server \<Rightarrow> Server"
  tn_poll :: "errno option"

record Session =
  ss_server :: Server
  ss_tls :: Tls
  ss_worker :: Worker

definition worker_start :: Worker where
  "worker_start = \<lparr>wk_incoming = [], wk_needed = 4, wk_read_wait = POLL_NONE, wk_unsent = [], wk_write_wait = POLL_NONE\<rparr>"

text \<open>
  How a pass ends: the loop goes on after progress or after \<open>poll\<close>, or the function returns
  0 or -1 with an error number. \<open>Stuck\<close> is an access outside an array of the loop or in the handler.
\<close>

datatype pass = Continue Session | Return Session "unit result" | Stuck

section \<open>One pass\<close>

datatype retry = Retry poll_event | RetryEof | RetryFatal errno

definition tls_retry :: "ssl_error \<Rightarrow> errno option \<Rightarrow> retry" where
  "tls_retry error saved_errno =
     (if error = SSL_ERROR_WANT_READ \<or> error = SSL_ERROR_WANT_WRITE
      then Retry (if error = SSL_ERROR_WANT_READ then POLLIN else POLLOUT)
      else if error = SSL_ERROR_ZERO_RETURN then RetryEof
      else RetryFatal (tls_errno error saved_errno))"

abbreviation on_server :: "(Server \<Rightarrow> Server) \<Rightarrow> Session \<Rightarrow> Session" where
  "on_server f ss \<equiv> ss\<lparr>ss_server := f (ss_server ss)\<rparr>"

abbreviation on_worker :: "(Worker \<Rightarrow> Worker) \<Rightarrow> Session \<Rightarrow> Session" where
  "on_worker f ss \<equiv> ss\<lparr>ss_worker := f (ss_worker ss)\<rparr>"

abbreviation on_tls :: "(Tls \<Rightarrow> Tls) \<Rightarrow> Session \<Rightarrow> Session" where
  "on_tls f ss \<equiv> ss\<lparr>ss_tls := f (ss_tls ss)\<rparr>"

text \<open>\<open>eventfd_read\<close>: the counter is consumed; \<open>EAGAIN\<close> when it was 0 is no error here.\<close>

definition consume_wakeup :: "int \<Rightarrow> Server \<Rightarrow> Server" where
  "consume_wakeup fd s =
     s\<lparr>registry := (registry s)\<lparr>os := (os (registry s))\<lparr>os_counter := (os_counter (os (registry s)))(fd := 0)\<rparr>\<rparr>\<rparr>"

text \<open>
  The envelope of a frame, put together in \<open>outgoing\<close>: \<open>None\<close> when it does not fit. Nothing of the
  former contents is read.
\<close>

definition load_frame :: "OutgoingFrame \<Rightarrow> bytes option" where
  "load_frame f =
     do { outgoing \<leftarrow> memcpy (fresh_array WORKER_ARRAY_SIZE) 0 (be32 (of_nat (1 + length (of_payload f))));
          outgoing \<leftarrow> memcpy outgoing 4 [frame_byte (of_type f)];
          outgoing \<leftarrow> memcpy outgoing (4 + 1) (of_payload f);
          read_bytes outgoing 0 (4 + 1 + length (of_payload f)) }"

definition worker_fetch :: "ClientId \<Rightarrow> Session \<Rightarrow> (Session \<times> unit result) option" where
  "worker_fetch client_id ss =
     (if wk_unsent (ss_worker ss) \<noteq> [] then Some (ss, Inr ())
      else case take_outgoing_frame (registry (ss_server ss)) client_id of
             (reg, Inl e) \<Rightarrow> Some (on_server (registry_update (\<lambda>_. reg)) ss, Inl e)
           | (reg, Inr None) \<Rightarrow> Some (on_server (registry_update (\<lambda>_. reg)) ss, Inr ())
           | (reg, Inr (Some f)) \<Rightarrow>
               do { unsent \<leftarrow> load_frame f;
                    Some (on_worker (wk_unsent_update (\<lambda>_. unsent)) (on_server (registry_update (\<lambda>_. reg)) ss), Inr ()) })"

text \<open>The write of a pass; the second result is \<open>progress\<close>.\<close>

definition worker_write :: "write_answer \<Rightarrow> Session \<Rightarrow> Session \<times> bool result" where
  "worker_write answer ss =
     (let w = ss_worker ss; unsent = wk_unsent w
      in if unsent = [] \<or> wk_read_wait w = POLLOUT then (ss, Inr False)
         else case answer of
                WriteOk k \<Rightarrow>
                  let n = tls_amount k (length unsent)
                  in (on_worker (\<lambda>w. w\<lparr>wk_unsent := drop n unsent, wk_write_wait := POLL_NONE\<rparr>)
                        (on_tls (\<lambda>t. t\<lparr>tls_out := tls_out t @ take n unsent\<rparr>) ss), Inr True)
              | WriteErr error saved_errno _ \<Rightarrow>
                  (case tls_retry error saved_errno of
                     Retry e \<Rightarrow> (on_worker (wk_write_wait_update (\<lambda>_. e)) ss, Inr False)
                   | RetryEof \<Rightarrow> (ss, Inl EPIPE)
                   | RetryFatal e \<Rightarrow> (on_tls fail_io ss, Inl e)))"

text \<open>A complete header fixes the length of the body; a complete body is one frame for the handler.\<close>

definition worker_deliver ::
  "(Server \<Rightarrow> ClientId \<Rightarrow> bytes \<Rightarrow> bytes \<Rightarrow> (Server \<times> bool) option) \<Rightarrow> ClientId \<Rightarrow> bytes \<Rightarrow> Session \<Rightarrow> pass" where
  "worker_deliver handle_frame client_id username ss =
     (let w = ss_worker ss; incoming = wk_incoming w
      in if length incoming \<noteq> wk_needed w then Continue ss
         else if wk_needed w = 4
         then let len = unat (of_be32 incoming)
              in if len = 0 \<or> FRAME_MAX_SIZE < len then Return ss (Inl EMSGSIZE)
                 else Continue (on_worker (wk_needed_update (\<lambda>n. n + len)) ss)
         else let frame = drop 4 incoming
              in if frame = [] then Stuck
                 else if \<not> is_valid_frame_type (FrameType_of (frame ! 0)) then Return ss (Inl EPROTO)
                 else case handle_frame (ss_server ss) client_id username frame of
                        None \<Rightarrow> Stuck
                      | Some (s, continue) \<Rightarrow>
                          let ss1 = on_server (\<lambda>_. s) ss
                          in if \<not> continue then Return ss1 (Inr ())
                             else Continue (on_worker (\<lambda>w. w\<lparr>wk_incoming := [], wk_needed := 4\<rparr>) ss1))"

text \<open>\<open>poll\<close> of the socket and the wake descriptor: it returns or fails (which includes a bad descriptor).\<close>

definition worker_wait :: "Turn \<Rightarrow> Session \<Rightarrow> pass" where
  "worker_wait turn ss =
     (case tn_poll turn of
        Some e \<Rightarrow> Return (on_server (tn_waiting turn) ss) (Inl e)
      | None \<Rightarrow> Continue (on_server (tn_waiting turn) ss))"

text \<open>
  The read of a pass: \<open>SSL_read_ex\<close> is given the bytes of \<open>incoming\<close> from \<open>received\<close> to \<open>needed\<close>, which
  have to be bytes of the array.
\<close>

definition worker_read ::
  "(Server \<Rightarrow> ClientId \<Rightarrow> bytes \<Rightarrow> bytes \<Rightarrow> (Server \<times> bool) option) \<Rightarrow> ClientId \<Rightarrow> bytes \<Rightarrow> Turn \<Rightarrow> bool \<Rightarrow>
   Session \<Rightarrow> pass" where
  "worker_read handle_frame client_id username turn progress ss =
     (let w = ss_worker ss; t = ss_tls ss
      in if wk_write_wait w \<noteq> POLL_NONE then (if progress then Continue ss else worker_wait turn ss)
         else if wk_needed w < length (wk_incoming w) \<or> WORKER_ARRAY_SIZE < wk_needed w then Stuck
         else case tn_read turn of
                ReadOk k \<Rightarrow>
                  let n = tls_amount k (min (wk_needed w - length (wk_incoming w)) (length (tls_in t)))
                  in worker_deliver handle_frame client_id username
                       (on_worker (\<lambda>w. w\<lparr>wk_incoming := wk_incoming w @ take n (tls_in t), wk_read_wait := POLL_NONE\<rparr>)
                         (on_tls (\<lambda>t. t\<lparr>tls_in := drop n (tls_in t)\<rparr>) ss))
              | ReadErr error saved_errno \<Rightarrow>
                  (case tls_retry error saved_errno of
                     Retry e \<Rightarrow>
                       let ss1 = on_worker (wk_read_wait_update (\<lambda>_. e)) ss
                       in if progress then Continue ss1 else worker_wait turn ss1
                   | RetryEof \<Rightarrow> if wk_incoming w \<noteq> [] then Return ss (Inl ECONNRESET) else Return ss (Inr ())
                   | RetryFatal e \<Rightarrow> Return (on_tls fail_io ss) (Inl e)))"

text \<open>
  A pass up to its read: an early return, or the state and \<open>progress\<close> before the read; \<open>None\<close> when a
  frame does not fit \<open>outgoing\<close>.
\<close>

definition worker_prepare :: "ClientId \<Rightarrow> int \<Rightarrow> Turn \<Rightarrow> Session \<Rightarrow> ((Session \<times> errno) + (Session \<times> bool)) option" where
  "worker_prepare client_id wake_fd turn ss0 =
     (let ss1 = on_server (tn_before turn) ss0
      in case tn_event_read turn of
           Some e \<Rightarrow> Some (Inl (ss1, e))
         | None \<Rightarrow>
             let ss2 = on_server (\<lambda>s. tn_woken turn (consume_wakeup wake_fd s)) ss1
             in case client_output_status (registry (ss_server ss2)) client_id of
                  Inl e \<Rightarrow> Some (Inl (ss2, e))
                | Inr _ \<Rightarrow>
                    let ss3 = on_server (tn_checked turn) ss2
                    in case worker_fetch client_id ss3 of
                         None \<Rightarrow> None
                       | Some (ss4, Inl e) \<Rightarrow> Some (Inl (ss4, e))
                       | Some (ss4, Inr _) \<Rightarrow>
                           (case worker_write (tn_write turn) ss4 of
                              (ss5, Inl e) \<Rightarrow> Some (Inl (ss5, e))
                            | (ss5, Inr progress) \<Rightarrow> Some (Inr (ss5, progress))))"

definition worker_pass ::
  "(Server \<Rightarrow> ClientId \<Rightarrow> bytes \<Rightarrow> bytes \<Rightarrow> (Server \<times> bool) option) \<Rightarrow> ClientId \<Rightarrow> bytes \<Rightarrow> int \<Rightarrow> Turn \<Rightarrow>
   Session \<Rightarrow> pass" where
  "worker_pass handle_frame client_id username wake_fd turn ss =
     (case worker_prepare client_id wake_fd turn ss of
        None \<Rightarrow> Stuck
      | Some (Inl (ss1, e)) \<Rightarrow> Return ss1 (Inl e)
      | Some (Inr (ss5, progress)) \<Rightarrow> worker_read handle_frame client_id username turn progress ss5)"

section \<open>The loop\<close>

fun worker_loop ::
  "(Server \<Rightarrow> ClientId \<Rightarrow> bytes \<Rightarrow> bytes \<Rightarrow> (Server \<times> bool) option) \<Rightarrow> ClientId \<Rightarrow> bytes \<Rightarrow> int \<Rightarrow> Turn list \<Rightarrow>
   Session \<Rightarrow> pass" where
  "worker_loop handle_frame client_id username wake_fd [] ss = Continue ss"
| "worker_loop handle_frame client_id username wake_fd (turn # turns) ss =
     (case worker_pass handle_frame client_id username wake_fd turn ss of
        Continue ss1 \<Rightarrow> worker_loop handle_frame client_id username wake_fd turns ss1
      | result \<Rightarrow> result)"

text \<open>The preparation: the wake descriptor and the non-blocking flag of the socket.\<close>

definition run_client_worker ::
  "(Server \<Rightarrow> ClientId \<Rightarrow> bytes \<Rightarrow> bytes \<Rightarrow> (Server \<times> bool) option) \<Rightarrow> errno option \<Rightarrow> Turn list \<Rightarrow>
   Server \<Rightarrow> Tls \<Rightarrow> ClientId \<Rightarrow> bytes \<Rightarrow> pass" where
  "run_client_worker handle_frame nonblocking turns s t client_id username =
     (let ss = \<lparr>ss_server = s, ss_tls = t, ss_worker = worker_start\<rparr>
      in case get_client_wake_fd (registry s) client_id of
           Inl e \<Rightarrow> Return ss (Inl e)
         | Inr wake_fd \<Rightarrow>
             (case nonblocking of
                Some e \<Rightarrow> Return ss (Inl e)
              | None \<Rightarrow> worker_loop handle_frame client_id username wake_fd turns ss))"

section \<open>What a schedule received and sent\<close>

text \<open>
  How the shared state came about: from \<open>s\<close> the handler was called on the frames of the list, in
  order, each time asking to go on; in between only actions of \<open>acts\<close> happened.
\<close>

inductive serves ::
  "(Server \<Rightarrow> Server) set \<Rightarrow> (Server \<Rightarrow> ClientId \<Rightarrow> bytes \<Rightarrow> bytes \<Rightarrow> (Server \<times> bool) option) \<Rightarrow> ClientId \<Rightarrow> bytes \<Rightarrow>
   Server \<Rightarrow> bytes list \<Rightarrow> Server \<Rightarrow> bool"
  for acts h client_id username where
  start: "serves acts h client_id username s [] s"
| act: "serves acts h client_id username s fs s1 \<Longrightarrow> f \<in> acts \<Longrightarrow> serves acts h client_id username s fs (f s1)"
| frame: "serves acts h client_id username s fs s1 \<Longrightarrow> h s1 client_id username frame = Some (s2, True) \<Longrightarrow>
          serves acts h client_id username s (fs @ [frame]) s2"

text \<open>The same at the end of the loop, where the last call may have asked to stop, which makes the loop return 0.\<close>

definition served ::
  "(Server \<Rightarrow> Server) set \<Rightarrow> (Server \<Rightarrow> ClientId \<Rightarrow> bytes \<Rightarrow> bytes \<Rightarrow> (Server \<times> bool) option) \<Rightarrow> ClientId \<Rightarrow> bytes \<Rightarrow>
   Server \<Rightarrow> bytes list \<Rightarrow> Server \<Rightarrow> unit result \<Rightarrow> bool" where
  "served acts h client_id username s fs s' r \<longleftrightarrow>
     serves acts h client_id username s fs s' \<or>
     (\<exists>fs1 frame s1. fs = fs1 @ [frame] \<and> serves acts h client_id username s fs1 s1 \<and>
        h s1 client_id username frame = Some (s', False) \<and> r = Inr ())"

text \<open>What else changes the shared state: other threads, the wake-up counter, and taking frames out of the queue.\<close>

definition turn_actions :: "Turn \<Rightarrow> (Server \<Rightarrow> Server) list" where
  "turn_actions turn = [tn_before turn, tn_woken turn, tn_checked turn, tn_waiting turn]"

definition loop_actions :: "ClientId \<Rightarrow> int \<Rightarrow> Turn list \<Rightarrow> (Server \<Rightarrow> Server) set" where
  "loop_actions client_id wake_fd turns =
     {consume_wakeup wake_fd, \<lambda>s. s\<lparr>registry := fst (take_outgoing_frame (registry s) client_id)\<rparr>} \<union>
     (\<Union>turn\<in>set turns. set (turn_actions turn))"

text \<open>The frames taken out of the client's queue over a schedule.\<close>

definition fetched_frame :: "ClientId \<Rightarrow> int \<Rightarrow> Turn \<Rightarrow> Session \<Rightarrow> OutgoingFrame list" where
  "fetched_frame client_id wake_fd turn ss =
     (let s = tn_woken turn (consume_wakeup wake_fd (tn_before turn (ss_server ss)))
      in if tn_event_read turn \<noteq> None \<or> client_output_status (registry s) client_id \<noteq> Inr () \<or>
            wk_unsent (ss_worker ss) \<noteq> [] then []
         else case take_outgoing_frame (registry (tn_checked turn s)) client_id of
                (_, Inr (Some f)) \<Rightarrow> [f]
              | _ \<Rightarrow> [])"

fun fetched_frames ::
  "(Server \<Rightarrow> ClientId \<Rightarrow> bytes \<Rightarrow> bytes \<Rightarrow> (Server \<times> bool) option) \<Rightarrow> ClientId \<Rightarrow> bytes \<Rightarrow> int \<Rightarrow> Turn list \<Rightarrow>
   Session \<Rightarrow> OutgoingFrame list" where
  "fetched_frames h client_id username wake_fd [] ss = []"
| "fetched_frames h client_id username wake_fd (turn # turns) ss =
     fetched_frame client_id wake_fd turn ss @
     (case worker_pass h client_id username wake_fd turn ss of
        Continue ss1 \<Rightarrow> fetched_frames h client_id username wake_fd turns ss1
      | _ \<Rightarrow> [])"

text \<open>The state of the reader: between headers and bodies, never beyond the buffer.\<close>

definition worker_ok :: "Worker \<Rightarrow> bool" where
  "worker_ok w \<longleftrightarrow>
     length (wk_incoming w) < wk_needed w \<and>
     (wk_needed w = 4 \<or>
      4 \<le> length (wk_incoming w) \<and> 4 < wk_needed w \<and> wk_needed w \<le> 4 + FRAME_MAX_SIZE \<and>
      wk_needed w = 4 + unat (of_be32 (take 4 (wk_incoming w))))"

definition envelope :: "bytes \<Rightarrow> bytes" where
  "envelope frame = be32 (of_nat (length frame)) @ frame"

definition frame_wf :: "bytes \<Rightarrow> bool" where
  "frame_wf frame \<longleftrightarrow> frame \<noteq> [] \<and> length frame \<le> FRAME_MAX_SIZE \<and> is_valid_frame_type (FrameType_of (frame ! 0))"

lemma worker_start_ok [simp]: "worker_ok worker_start"
  by (simp add: worker_ok_def worker_start_def)

lemma load_frame_eq:
  "load_frame f = (if length (of_payload f) < FRAME_MAX_SIZE then Some (frame_bytes (of_type f) (of_payload f)) else None)"
proof (cases "length (of_payload f) < FRAME_MAX_SIZE")
  case True
  then show ?thesis by (simp add: load_frame_def frame_bytes_def array_simps WORKER_ARRAY_SIZE_def numeral_eq_Suc)
next
  case False
  then have "memcpy buf 5 (of_payload f) = None" if "length buf = WORKER_ARRAY_SIZE" for buf
    using that by (simp add: memcpy_def WORKER_ARRAY_SIZE_def)
  then show ?thesis using False by (simp add: load_frame_def array_simps WORKER_ARRAY_SIZE_def const_simps)
qed

text \<open>The steps before the read touch neither the input nor the reader.\<close>

lemma worker_prepare_input:
  assumes "worker_prepare client_id wake_fd turn ss = Some (Inr (ss5, progress))"
  shows "wk_incoming (ss_worker ss5) = wk_incoming (ss_worker ss)" "wk_needed (ss_worker ss5) = wk_needed (ss_worker ss)"
    "tls_in (ss_tls ss5) = tls_in (ss_tls ss)"
  using assms
  by (auto simp: worker_prepare_def worker_fetch_def worker_write_def Let_def bind_eq_Some_conv
      split: option.splits sum.splits prod.splits if_splits write_answer.splits retry.splits)

lemma worker_prepare_output:
  assumes "worker_prepare client_id wake_fd turn ss = Some (Inl (ss1, e)) \<or> worker_prepare client_id wake_fd turn ss = Some (Inr (ss1, p))"
  shows "tls_out (ss_tls ss1) @ wk_unsent (ss_worker ss1) = tls_out (ss_tls ss) @ wk_unsent (ss_worker ss) @
    concat (map (\<lambda>f. frame_bytes (of_type f) (of_payload f)) (fetched_frame client_id wake_fd turn ss))"
  using assms
  by (auto simp: worker_prepare_def worker_fetch_def worker_write_def fetched_frame_def fail_io_def load_frame_eq Let_def
      split: option.splits sum.splits prod.splits if_splits write_answer.splits retry.splits)

lemma envelope_complete:
  assumes "4 \<le> length bs" "length bs = 4 + unat (of_be32 (take 4 bs))"
  shows "envelope (drop 4 bs) = bs"
proof -
  have "of_nat (length (drop 4 bs)) = of_be32 (take 4 bs)" using assms(2) by simp
  then have "be32 (of_nat (length (drop 4 bs))) = take 4 bs" using assms(1) by (simp add: be32_of_be32)
  then show ?thesis by (simp add: envelope_def)
qed

text \<open>The reader after it appended some bytes that are still wanted.\<close>

lemma worker_deliver_input:
  assumes ok: "worker_ok w" and new: "wk_incoming (ss_worker ss) = wk_incoming w @ bs" "length bs \<le> wk_needed w - length (wk_incoming w)"
    and same: "wk_needed (ss_worker ss) = wk_needed w"
    and d: "worker_deliver h client_id username ss = Continue ss'"
  shows "worker_ok (ss_worker ss') \<and> tls_in (ss_tls ss') = tls_in (ss_tls ss) \<and>
    wk_incoming (ss_worker ss') =
      (if length (wk_incoming w @ bs) = wk_needed w \<and> wk_needed w \<noteq> 4 then [] else wk_incoming w @ bs)"
proof (cases "length (wk_incoming w @ bs) = wk_needed w")
  case False
  then show ?thesis using assms by (auto simp: worker_deliver_def Let_def worker_ok_def)
next
  case full: True
  show ?thesis
  proof (cases "wk_needed w = 4")
    case True
    then have "take 4 (wk_incoming w @ bs) = wk_incoming w @ bs" using full by simp
    then show ?thesis using full True new same d
      by (auto simp: worker_deliver_def Let_def worker_ok_def split: if_splits)
  next
    case False
    then show ?thesis using full new same d
      by (auto simp: worker_deliver_def Let_def worker_ok_def split: if_splits option.splits prod.splits)
  qed
qed

lemma read_frame_envelope:
  assumes ok: "worker_ok w" and full: "length (wk_incoming w @ bs) = wk_needed w" "wk_needed w \<noteq> 4"
  shows "envelope (drop 4 (wk_incoming w @ bs)) = wk_incoming w @ bs"
    "drop 4 (wk_incoming w @ bs) \<noteq> []" "length (drop 4 (wk_incoming w @ bs)) \<le> FRAME_MAX_SIZE"
  using envelope_complete [of "wk_incoming w @ bs"] assms by (auto simp: worker_ok_def)

text \<open>
  The bytes \<open>bs\<close> have arrived and \<open>rest\<close> is still to come; \<open>completed\<close> is the frame they complete,
  if they do.
\<close>

definition fed :: "bytes \<Rightarrow> bytes \<Rightarrow> Session \<Rightarrow> Session" where
  "fed bs rest ss = on_worker (\<lambda>w. w\<lparr>wk_incoming := wk_incoming w @ bs, wk_read_wait := POLL_NONE\<rparr>)
     (on_tls (\<lambda>t. t\<lparr>tls_in := rest\<rparr>) ss)"

definition completed :: "Worker \<Rightarrow> bytes \<Rightarrow> bytes list" where
  "completed w bs =
     (if length (wk_incoming w @ bs) = wk_needed w \<and> wk_needed w \<noteq> 4 \<and>
         is_valid_frame_type (FrameType_of (drop 4 (wk_incoming w @ bs) ! 0))
      then [drop 4 (wk_incoming w @ bs)] else [])"

lemma fed_simps [simp]:
  "wk_incoming (ss_worker (fed bs rest ss)) = wk_incoming (ss_worker ss) @ bs"
  "wk_needed (ss_worker (fed bs rest ss)) = wk_needed (ss_worker ss)" "tls_in (ss_tls (fed bs rest ss)) = rest"
  by (simp_all add: fed_def)

lemma deliver_stream:
  assumes ok: "worker_ok (ss_worker ss)" and bs: "length bs \<le> wk_needed (ss_worker ss) - length (wk_incoming (ss_worker ss))"
    and d: "worker_deliver h client_id username (fed bs rest ss) = Continue ss'"
  shows "worker_ok (ss_worker ss') \<and> wk_incoming (ss_worker ss) @ bs @ rest =
    concat (map envelope (completed (ss_worker ss) bs)) @ wk_incoming (ss_worker ss') @ tls_in (ss_tls ss')"
proof -
  let ?w = "ss_worker ss"
  have s': "worker_ok (ss_worker ss')" "tls_in (ss_tls ss') = rest" "wk_incoming (ss_worker ss') =
      (if length (wk_incoming ?w @ bs) = wk_needed ?w \<and> wk_needed ?w \<noteq> 4 then [] else wk_incoming ?w @ bs)"
    using worker_deliver_input [OF ok _ bs _ d] by simp_all
  show ?thesis
  proof (cases "length (wk_incoming ?w @ bs) = wk_needed ?w \<and> wk_needed ?w \<noteq> 4")
    case True
    then have "is_valid_frame_type (FrameType_of (drop 4 (wk_incoming ?w @ bs) ! 0))"
      using d by (auto simp: worker_deliver_def Let_def split: if_splits)
    then have "completed ?w bs = [drop 4 (wk_incoming ?w @ bs)]" using True by (simp add: completed_def)
    then show ?thesis using s' True read_frame_envelope(1) [OF ok, of bs] by simp
  next
    case False
    then have "completed ?w bs = []" by (auto simp: completed_def)
    then show ?thesis using s'(1,2) unfolding s'(3) if_not_P [OF False] by simp
  qed
qed

lemma completed_frame:
  assumes "worker_ok w"
  shows "list_all frame_wf (completed w bs)" "\<exists>rest'. wk_incoming w @ bs @ rest = concat (map envelope (completed w bs)) @ rest'"
  using read_frame_envelope [OF assms, of bs] by (auto simp: completed_def frame_wf_def)

lemma worker_ok_array: "worker_ok w \<Longrightarrow> \<not> (wk_needed w < length (wk_incoming w) \<or> WORKER_ARRAY_SIZE < wk_needed w)"
  by (auto simp: worker_ok_def WORKER_ARRAY_SIZE_def)

lemma worker_read_ok:
  assumes ok: "worker_ok (ss_worker ss)" and k: "tn_read turn = ReadOk k" and w: "wk_write_wait (ss_worker ss) = POLL_NONE"
  obtains bs rest where "tls_in (ss_tls ss) = bs @ rest" "length bs \<le> wk_needed (ss_worker ss) - length (wk_incoming (ss_worker ss))"
    "worker_read h client_id username turn progress ss = worker_deliver h client_id username (fed bs rest ss)"
proof
  define n where "n = tls_amount k (min (wk_needed (ss_worker ss) - length (wk_incoming (ss_worker ss))) (length (tls_in (ss_tls ss))))"
  show "tls_in (ss_tls ss) = take n (tls_in (ss_tls ss)) @ drop n (tls_in (ss_tls ss))" by simp
  show "length (take n (tls_in (ss_tls ss))) \<le> wk_needed (ss_worker ss) - length (wk_incoming (ss_worker ss))"
    using tls_amount_bounds(2) [of k "min (wk_needed (ss_worker ss) - length (wk_incoming (ss_worker ss))) (length (tls_in (ss_tls ss)))"]
    by (auto simp: n_def)
  show "worker_read h client_id username turn progress ss =
      worker_deliver h client_id username (fed (take n (tls_in (ss_tls ss))) (drop n (tls_in (ss_tls ss))) ss)"
    using k w worker_ok_array [OF ok] by (simp add: worker_read_def Let_def n_def fed_def)
qed

text \<open>A pass without a successful read takes nothing from the stream and calls no handler.\<close>

lemma worker_read_idle:
  assumes "worker_ok (ss_worker ss)" "wk_write_wait (ss_worker ss) \<noteq> POLL_NONE \<or> (\<exists>e sv. tn_read turn = ReadErr e sv)"
  shows "case worker_read h client_id username turn progress ss of
      Continue ss' \<Rightarrow> worker_ok (ss_worker ss') \<and> wk_incoming (ss_worker ss') = wk_incoming (ss_worker ss) \<and>
        tls_in (ss_tls ss') = tls_in (ss_tls ss) \<and> (ss_server ss' = ss_server ss \<or> ss_server ss' = tn_waiting turn (ss_server ss))
    | Return ss' r \<Rightarrow> ss_server ss' = ss_server ss \<or> ss_server ss' = tn_waiting turn (ss_server ss)
    | Stuck \<Rightarrow> False"
  using assms worker_ok_array [OF assms(1)]
  by (auto simp: worker_read_def worker_wait_def worker_ok_def Let_def split: option.splits retry.splits read_answer.splits)

text \<open>The handler is called on the frame that the bytes complete, and on nothing else.\<close>

lemma deliver_serves:
  "case worker_deliver h client_id username (fed bs rest ss) of
     Continue ss' \<Rightarrow> serves acts h client_id username (ss_server ss) (completed (ss_worker ss) bs) (ss_server ss')
   | Return ss' r \<Rightarrow> served acts h client_id username (ss_server ss) (completed (ss_worker ss) bs) (ss_server ss') r
   | Stuck \<Rightarrow> True"
proof -
  let ?s = "ss_server ss" and ?frame = "drop 4 (wk_incoming (ss_worker ss) @ bs)"
  have same: "ss_server (fed bs rest ss) = ?s" by (simp add: fed_def)
  have none: "serves acts h client_id username ?s [] ?s" "served acts h client_id username ?s [] ?s r" for r
    using serves.start by (simp_all add: served_def)
  have one: "serves acts h client_id username ?s [?frame] s'" if "h ?s client_id username ?frame = Some (s', True)" for s'
    using serves.frame [OF none(1) that] by simp
  have last: "served acts h client_id username ?s [?frame] s' (Inr ())" if "h ?s client_id username ?frame = Some (s', False)" for s'
    unfolding served_def using none(1) that by blast
  show ?thesis
    using none one last unfolding worker_deliver_def Let_def fed_simps same completed_def
    by (auto simp: fed_def split: option.splits if_splits)
qed

lemma serves_trans:
  "serves acts h client_id username s1 gs s2 \<Longrightarrow> serves acts h client_id username s fs s1 \<Longrightarrow>
   serves acts h client_id username s (fs @ gs) s2"
  by (induction rule: serves.induct) (auto intro: serves.intros simp flip: append_assoc)

lemma served_trans:
  assumes "serves acts h client_id username s fs s1" "served acts h client_id username s1 gs s2 r"
  shows "served acts h client_id username s (fs @ gs) s2 r"
  using assms(2) serves_trans [OF _ assms(1)] unfolding served_def by (metis append_assoc)

text \<open>
  What a piece of the loop that starts in \<open>ss\<close> and ends with \<open>p\<close> did: the stream begins with the
  envelopes of some frames, and exactly these were handled.
\<close>

definition handles ::
  "(Server \<Rightarrow> Server) set \<Rightarrow> (Server \<Rightarrow> ClientId \<Rightarrow> bytes \<Rightarrow> bytes \<Rightarrow> (Server \<times> bool) option) \<Rightarrow> ClientId \<Rightarrow> bytes \<Rightarrow>
   Session \<Rightarrow> pass \<Rightarrow> bool" where
  "handles acts h client_id username ss p \<longleftrightarrow>
     (\<exists>fs rest. list_all frame_wf fs \<and>
        wk_incoming (ss_worker ss) @ tls_in (ss_tls ss) = concat (map envelope fs) @ rest \<and>
        (case p of
           Continue ss' \<Rightarrow> worker_ok (ss_worker ss') \<and> rest = wk_incoming (ss_worker ss') @ tls_in (ss_tls ss') \<and>
             serves acts h client_id username (ss_server ss) fs (ss_server ss')
         | Return ss' r \<Rightarrow> served acts h client_id username (ss_server ss) fs (ss_server ss') r
         | Stuck \<Rightarrow> True))"

lemma handles_refl: "worker_ok (ss_worker ss) \<Longrightarrow> handles acts h client_id username ss (Continue ss)"
  unfolding handles_def by (intro exI [of _ "[]"] exI [of _ "wk_incoming (ss_worker ss) @ tls_in (ss_tls ss)"]) (auto intro: serves.start)

lemma handles_stuck: "handles acts h client_id username ss Stuck"
  unfolding handles_def by (intro exI [of _ "[]"] exI [of _ "wk_incoming (ss_worker ss) @ tls_in (ss_tls ss)"]) simp

lemma handles_trans:
  assumes "handles acts h client_id username ss (Continue ss1)" "handles acts h client_id username ss1 p"
  shows "handles acts h client_id username ss p"
proof -
  obtain fs where fs: "list_all frame_wf fs" "worker_ok (ss_worker ss1)" "serves acts h client_id username (ss_server ss) fs (ss_server ss1)"
    "wk_incoming (ss_worker ss) @ tls_in (ss_tls ss) = concat (map envelope fs) @ wk_incoming (ss_worker ss1) @ tls_in (ss_tls ss1)"
    using assms(1) by (auto simp: handles_def)
  obtain gs rest where gs: "list_all frame_wf gs"
    "wk_incoming (ss_worker ss1) @ tls_in (ss_tls ss1) = concat (map envelope gs) @ rest"
    "case p of
       Continue ss' \<Rightarrow> worker_ok (ss_worker ss') \<and> rest = wk_incoming (ss_worker ss') @ tls_in (ss_tls ss') \<and>
         serves acts h client_id username (ss_server ss1) gs (ss_server ss')
     | Return ss' r \<Rightarrow> served acts h client_id username (ss_server ss1) gs (ss_server ss') r
     | Stuck \<Rightarrow> True"
    using assms(2) unfolding handles_def by blast
  have "case p of
       Continue ss' \<Rightarrow> worker_ok (ss_worker ss') \<and> rest = wk_incoming (ss_worker ss') @ tls_in (ss_tls ss') \<and>
         serves acts h client_id username (ss_server ss) (fs @ gs) (ss_server ss')
     | Return ss' r \<Rightarrow> served acts h client_id username (ss_server ss) (fs @ gs) (ss_server ss') r
     | Stuck \<Rightarrow> True"
    using gs(3) serves_trans [OF _ fs(3)] served_trans [OF fs(3)] by (auto split: pass.splits)
  moreover have "list_all frame_wf (fs @ gs)"
    "wk_incoming (ss_worker ss) @ tls_in (ss_tls ss) = concat (map envelope (fs @ gs)) @ rest"
    using fs gs(1,2) by simp_all
  ultimately show ?thesis unfolding handles_def by blast
qed

lemma worker_read_handles:
  assumes ok: "worker_ok (ss_worker ss)" and act: "tn_waiting turn \<in> acts"
  shows "handles acts h client_id username ss (worker_read h client_id username turn progress ss)"
proof (cases "wk_write_wait (ss_worker ss) \<noteq> POLL_NONE \<or> (\<exists>e sv. tn_read turn = ReadErr e sv)")
  case True
  have "serves acts h client_id username (ss_server ss) [] s'" if "s' = ss_server ss \<or> s' = tn_waiting turn (ss_server ss)" for s'
    using that serves.start [of acts h client_id username "ss_server ss"] serves.act [OF serves.start act] by auto
  then show ?thesis
    using worker_read_idle [OF ok True, of h client_id username progress] unfolding handles_def
    by (intro exI [of _ "[]"] exI [of _ "wk_incoming (ss_worker ss) @ tls_in (ss_tls ss)"])
       (auto simp: served_def split: pass.splits)
next
  case False
  then obtain k where k: "tn_read turn = ReadOk k" "wk_write_wait (ss_worker ss) = POLL_NONE" by (cases "tn_read turn") auto
  obtain bs rest where bs: "tls_in (ss_tls ss) = bs @ rest"
      "length bs \<le> wk_needed (ss_worker ss) - length (wk_incoming (ss_worker ss))"
    and rd: "worker_read h client_id username turn progress ss = worker_deliver h client_id username (fed bs rest ss)"
    by (rule worker_read_ok [OF ok k])
  obtain r where r: "wk_incoming (ss_worker ss) @ bs @ rest = concat (map envelope (completed (ss_worker ss) bs)) @ r"
    using completed_frame(2) [OF ok] by blast
  have "worker_ok (ss_worker ss') \<and> r = wk_incoming (ss_worker ss') @ tls_in (ss_tls ss')"
    if "worker_deliver h client_id username (fed bs rest ss) = Continue ss'" for ss'
    using deliver_stream [OF ok bs(2) that] r by simp
  then show ?thesis
    using completed_frame(1) [OF ok, of bs] r deliver_serves [where h = h and client_id = client_id and username = username and bs = bs and rest = rest and ss = ss and acts = acts]
    unfolding handles_def rd bs(1)
    by (intro exI [of _ "completed (ss_worker ss) bs"] exI [of _ r]) (auto split: pass.splits)
qed

lemma worker_prepare_serves:
  assumes "worker_prepare client_id wake_fd turn ss = Some (Inl (ss1, e)) \<or> worker_prepare client_id wake_fd turn ss = Some (Inr (ss1, p))"
    and acts: "loop_actions client_id wake_fd [turn] \<subseteq> acts"
  shows "serves acts h client_id username (ss_server ss) [] (ss_server ss1)"
proof -
  let ?take = "\<lambda>s. s\<lparr>registry := fst (take_outgoing_frame (registry s) client_id)\<rparr>"
  let ?s1 = "tn_before turn (ss_server ss)"
  let ?s2 = "tn_woken turn (consume_wakeup wake_fd ?s1)"
  let ?s3 = "tn_checked turn ?s2"
  have mem: "tn_before turn \<in> acts" "tn_woken turn \<in> acts" "tn_checked turn \<in> acts" "consume_wakeup wake_fd \<in> acts" "?take \<in> acts"
    using acts by (auto simp: loop_actions_def turn_actions_def)
  have s1: "serves acts h client_id username (ss_server ss) [] ?s1" by (rule serves.act [OF serves.start mem(1)])
  have s2: "serves acts h client_id username (ss_server ss) [] ?s2" by (rule serves.act [OF serves.act [OF s1 mem(4)] mem(2)])
  have s3: "serves acts h client_id username (ss_server ss) [] ?s3" by (rule serves.act [OF s2 mem(3)])
  have s4: "serves acts h client_id username (ss_server ss) [] (?take ?s3)" using serves.act [OF s3 mem(5)] by simp
  have "ss_server ss1 \<in> {?s1, ?s2, ?s3, ?take ?s3}"
    using assms(1)
    by (auto simp: worker_prepare_def worker_fetch_def worker_write_def Let_def bind_eq_Some_conv
        split: option.splits sum.splits prod.splits if_splits write_answer.splits retry.splits)
  then show ?thesis using s1 s2 s3 s4 by auto
qed

lemma worker_pass_handles:
  assumes ok: "worker_ok (ss_worker ss)" and acts: "loop_actions client_id wake_fd [turn] \<subseteq> acts"
  shows "handles acts h client_id username ss (worker_pass h client_id username wake_fd turn ss)"
proof (cases "worker_prepare client_id wake_fd turn ss")
  case None
  then show ?thesis by (simp add: worker_pass_def handles_stuck)
next
  case (Some x)
  show ?thesis
  proof (cases x)
    case (Inl y)
    obtain ss1 e where y: "y = (ss1, e)" by (cases y)
    have "serves acts h client_id username (ss_server ss) [] (ss_server ss1)"
      using worker_prepare_serves [OF _ acts, of ss ss1 e] Some Inl y by simp
    then show ?thesis unfolding handles_def using Some Inl y
      by (intro exI [of _ "[]"] exI [of _ "wk_incoming (ss_worker ss) @ tls_in (ss_tls ss)"]) (simp add: worker_pass_def served_def)
  next
    case (Inr y)
    obtain ss5 b where y: "y = (ss5, b)" by (cases y)
    note same = worker_prepare_input [OF Some [unfolded Inr y]]
    have ok5: "worker_ok (ss_worker ss5)" using ok same by (simp add: worker_ok_def)
    have "serves acts h client_id username (ss_server ss) [] (ss_server ss5)"
      using worker_prepare_serves [OF _ acts, of ss ss5 _ b] Some Inr y by simp
    then have "handles acts h client_id username ss (Continue ss5)"
      unfolding handles_def using ok5 same
      by (intro exI [of _ "[]"] exI [of _ "wk_incoming (ss_worker ss) @ tls_in (ss_tls ss)"]) simp
    moreover have "handles acts h client_id username ss5 (worker_read h client_id username turn b ss5)"
      by (rule worker_read_handles [OF ok5]) (use acts in \<open>auto simp: loop_actions_def turn_actions_def\<close>)
    ultimately show ?thesis using handles_trans Some Inr y by (simp add: worker_pass_def)
  qed
qed

lemma worker_loop_handles:
  "worker_ok (ss_worker ss) \<Longrightarrow> loop_actions client_id wake_fd turns \<subseteq> acts \<Longrightarrow>
   handles acts h client_id username ss (worker_loop h client_id username wake_fd turns ss)"
proof (induction turns arbitrary: ss)
  case (Cons turn turns)
  have "loop_actions client_id wake_fd [turn] \<subseteq> acts" "loop_actions client_id wake_fd turns \<subseteq> acts"
    using Cons.prems(2) by (auto simp: loop_actions_def)
  note p = worker_pass_handles [OF Cons.prems(1) this(1), of h username] and acts = this(2)
  show ?case
  proof (cases "worker_pass h client_id username wake_fd turn ss")
    case (Continue ss1)
    then have "worker_ok (ss_worker ss1)" using p by (auto simp: handles_def)
    then show ?thesis using handles_trans [OF p [unfolded Continue] Cons.IH [OF _ acts]] Continue by simp
  qed (use p in simp_all)
qed (simp add: handles_refl)

section \<open>Output\<close>

lemma worker_read_output:
  "worker_read h client_id username turn p ss = Continue ss' \<or> worker_read h client_id username turn p ss = Return ss' r \<Longrightarrow>
   tls_out (ss_tls ss') = tls_out (ss_tls ss) \<and> wk_unsent (ss_worker ss') = wk_unsent (ss_worker ss)"
  by (auto simp: worker_read_def worker_wait_def worker_deliver_def fail_io_def Let_def
      split: if_splits read_answer.splits retry.splits option.splits prod.splits)

abbreviation envelopes :: "OutgoingFrame list \<Rightarrow> bytes" where
  "envelopes fs \<equiv> concat (map (\<lambda>f. frame_bytes (of_type f) (of_payload f)) fs)"

lemma worker_pass_output:
  assumes "worker_pass h client_id username wake_fd turn ss = Continue ss' \<or>
    worker_pass h client_id username wake_fd turn ss = Return ss' r"
  shows "tls_out (ss_tls ss') @ wk_unsent (ss_worker ss') = tls_out (ss_tls ss) @ wk_unsent (ss_worker ss) @
    envelopes (fetched_frame client_id wake_fd turn ss)"
proof (cases "worker_prepare client_id wake_fd turn ss")
  case None
  then show ?thesis using assms by (simp add: worker_pass_def)
next
  case (Some x)
  show ?thesis
  proof (cases x)
    case (Inl y)
    then show ?thesis using worker_prepare_output [of client_id wake_fd turn ss ss'] Some assms
      by (cases y) (auto simp: worker_pass_def)
  next
    case (Inr y)
    obtain ss5 p where y: "y = (ss5, p)" by (cases y)
    then show ?thesis using worker_prepare_output [of client_id wake_fd turn ss ss5 _ p] assms Some Inr
        worker_read_output [where ss = ss5 and ss' = ss' and r = r and p = p and turn = turn]
      by (simp add: worker_pass_def)
  qed
qed

lemma worker_loop_output:
  "worker_loop h client_id username wake_fd turns ss = Continue ss' \<or>
   worker_loop h client_id username wake_fd turns ss = Return ss' r \<Longrightarrow>
   tls_out (ss_tls ss') @ wk_unsent (ss_worker ss') = tls_out (ss_tls ss) @ wk_unsent (ss_worker ss) @
     envelopes (fetched_frames h client_id username wake_fd turns ss)"
proof (induction turns arbitrary: ss)
  case (Cons turn turns)
  show ?case
  proof (cases "worker_pass h client_id username wake_fd turn ss")
    case (Continue ss1)
    then show ?thesis using Cons.IH [of ss1] Cons.prems worker_pass_output [of h client_id username wake_fd turn ss ss1]
      by simp
  next
    case (Return ss1 x)
    then show ?thesis using Cons.prems worker_pass_output [of h client_id username wake_fd turn ss ss1 x] by auto
  next
    case Stuck
    then show ?thesis using Cons.prems by simp
  qed
qed simp

section \<open>The contract of a handler\<close>

text \<open>What other threads do in a turn keeps the state well formed.\<close>

definition turn_keeps :: "(Server \<Rightarrow> bool) \<Rightarrow> Turn \<Rightarrow> bool" where
  "turn_keeps P turn \<longleftrightarrow>
     (\<forall>s. P s \<longrightarrow> P (tn_before turn s) \<and> P (tn_woken turn s) \<and> P (tn_checked turn s) \<and> P (tn_waiting turn s))"

text \<open>
  What the loop needs of the function it is given: on a well-formed state and frame it
  answers without leaving its buffers, and it keeps the state well formed; and of that state:
  the steps of the loop itself keep it, and queued frames fit the array they are sent from.
\<close>

locale frame_handler =
  fixes handle :: "Server \<Rightarrow> ClientId \<Rightarrow> bytes \<Rightarrow> bytes \<Rightarrow> (Server \<times> bool) option"
    and inv :: "Server \<Rightarrow> bool"
    and name_ok :: "bytes \<Rightarrow> bool"
  assumes total: "inv s \<Longrightarrow> client_id \<noteq> 0 \<Longrightarrow> name_ok name \<Longrightarrow> frame_wf frame \<Longrightarrow>
      \<exists>s' b. handle s client_id name frame = Some (s', b) \<and> inv s'"
    and wake: "inv s \<Longrightarrow> inv (consume_wakeup fd s)"
    and fetch: "inv s \<Longrightarrow> inv (s\<lparr>registry := fst (take_outgoing_frame (registry s) client_id)\<rparr>)"
    and fits: "inv s \<Longrightarrow> take_outgoing_frame (registry s) client_id = (reg, Inr (Some f)) \<Longrightarrow> length (of_payload f) < FRAME_MAX_SIZE"
begin

lemma fetch_inv:
  assumes "inv (ss_server ss)"
  shows "\<exists>ss' r. worker_fetch client_id ss = Some (ss', r) \<and> inv (ss_server ss')"
  using assms fetch [of "ss_server ss" client_id] fits [of "ss_server ss" client_id]
  by (auto simp: worker_fetch_def load_frame_eq split: prod.splits sum.splits option.splits)

lemma write_server: "ss_server (fst (worker_write a ss)) = ss_server ss"
  by (auto simp: worker_write_def Let_def split: write_answer.splits retry.splits)

lemma prepare_inv:
  assumes "inv (ss_server ss)" "turn_keeps inv turn"
  shows "case worker_prepare client_id fd turn ss of
    None \<Rightarrow> False | Some (Inl (ss', e)) \<Rightarrow> inv (ss_server ss') | Some (Inr (ss', p)) \<Rightarrow> inv (ss_server ss')"
proof -
  let ?ss1 = "on_server (tn_before turn) ss"
  let ?ss2 = "on_server (\<lambda>s. tn_woken turn (consume_wakeup fd s)) ?ss1"
  let ?ss3 = "on_server (tn_checked turn) ?ss2"
  have i: "inv (ss_server ?ss1)" "inv (ss_server ?ss2)" "inv (ss_server ?ss3)"
    using assms wake by (simp_all add: turn_keeps_def)
  obtain ss4 r where f: "worker_fetch client_id ?ss3 = Some (ss4, r)" and i4: "inv (ss_server ss4)"
    using fetch_inv [OF i(3), of client_id] by blast
  obtain ss5 q where w: "worker_write (tn_write turn) ss4 = (ss5, q)" by fastforce
  have i5: "inv (ss_server ss5)" using write_server [of "tn_write turn" ss4] w i4 by simp
  show ?thesis using i i4 i5 f w
    by (auto simp: worker_prepare_def Let_def split: option.splits sum.splits)
qed

lemma read_inv:
  assumes "inv (ss_server ss)" "turn_keeps inv turn" "worker_ok (ss_worker ss)" "client_id \<noteq> 0" "name_ok name"
  shows "case worker_read handle client_id name turn p ss of
    Continue ss' \<Rightarrow> inv (ss_server ss') | Return ss' r \<Rightarrow> inv (ss_server ss') | Stuck \<Rightarrow> False"
proof -
  have wait: "case worker_wait turn ss1 of
    Continue ss' \<Rightarrow> inv (ss_server ss') | Return ss' r \<Rightarrow> inv (ss_server ss') | Stuck \<Rightarrow> False"
    if "inv (ss_server ss1)" for ss1
    using that assms(2) by (auto simp: worker_wait_def turn_keeps_def split: option.splits)
  have deliver: "case worker_deliver handle client_id name ss1 of
    Continue ss' \<Rightarrow> inv (ss_server ss') | Return ss' r \<Rightarrow> inv (ss_server ss') | Stuck \<Rightarrow> False"
    if i: "inv (ss_server ss1)" and f: "length (wk_incoming (ss_worker ss1)) = wk_needed (ss_worker ss1) \<longrightarrow>
      wk_needed (ss_worker ss1) = 4 \<or> 4 < wk_needed (ss_worker ss1) \<and> wk_needed (ss_worker ss1) \<le> 4 + FRAME_MAX_SIZE" for ss1
  proof (cases "length (wk_incoming (ss_worker ss1)) = wk_needed (ss_worker ss1) \<and> wk_needed (ss_worker ss1) \<noteq> 4 \<and>
      is_valid_frame_type (FrameType_of (drop 4 (wk_incoming (ss_worker ss1)) ! 0))")
    case True
    then have wf: "frame_wf (drop 4 (wk_incoming (ss_worker ss1)))" using f by (auto simp: frame_wf_def)
    obtain s' b where "handle (ss_server ss1) client_id name (drop 4 (wk_incoming (ss_worker ss1))) = Some (s', b)" "inv s'"
      using total [OF i assms(4,5) wf] by blast
    moreover have "drop 4 (wk_incoming (ss_worker ss1)) \<noteq> []" using wf by (simp add: frame_wf_def)
    ultimately show ?thesis using True by (simp add: worker_deliver_def Let_def del: drop_eq_Nil)
  qed (use i f in \<open>auto simp: worker_deliver_def Let_def\<close>)
  show ?thesis
    using assms(1,3) wait worker_ok_array [OF assms(3)]
    by (auto simp: worker_read_def Let_def worker_ok_def split: read_answer.splits retry.splits intro!: deliver)
qed

lemma loop_inv:
  "inv (ss_server ss) \<Longrightarrow> list_all (turn_keeps inv) turns \<Longrightarrow> worker_ok (ss_worker ss) \<Longrightarrow> client_id \<noteq> 0 \<Longrightarrow> name_ok name \<Longrightarrow>
   case worker_loop handle client_id name fd turns ss of
     Continue ss' \<Rightarrow> inv (ss_server ss') | Return ss' r \<Rightarrow> inv (ss_server ss') | Stuck \<Rightarrow> False"
proof (induction turns arbitrary: ss)
  case (Cons turn turns)
  have p: "case worker_prepare client_id fd turn ss of
      None \<Rightarrow> False | Some (Inl (ss', e)) \<Rightarrow> inv (ss_server ss') | Some (Inr (ss', p)) \<Rightarrow> inv (ss_server ss')"
    by (rule prepare_inv) (use Cons.prems in simp_all)
  then obtain x where Some: "worker_prepare client_id fd turn ss = Some x" by (cases "worker_prepare client_id fd turn ss") auto
  show ?case
  proof (cases x)
    case (Inl y)
    then show ?thesis using p Some by (cases y) (auto simp: worker_pass_def)
  next
    case (Inr y)
    obtain ss5 b where x: "y = (ss5, b)" by (cases y)
    note eq = Some [unfolded Inr x]
    have ok5: "worker_ok (ss_worker ss5)"
      using Cons.prems(3) worker_prepare_input [OF eq] by (simp add: worker_ok_def)
    have r: "case worker_read handle client_id name turn b ss5 of
      Continue ss' \<Rightarrow> inv (ss_server ss') | Return ss' r \<Rightarrow> inv (ss_server ss') | Stuck \<Rightarrow> False"
      using p Cons.prems eq by (intro read_inv [OF _ _ ok5]) auto
    show ?thesis
    proof (cases "worker_read handle client_id name turn b ss5")
      case (Continue ss1)
      then have "worker_ok (ss_worker ss1)"
        using worker_read_handles [OF ok5 UNIV_I, of handle client_id name turn b] by (auto simp: handles_def)
      then show ?thesis using Cons.IH [of ss1] Cons.prems r eq Continue by (simp add: worker_pass_def)
    qed (use r eq in \<open>auto simp: worker_pass_def\<close>)
  qed
qed simp

end

end
