(* ===== verification/Server_Steps.thy ===== *)
theory Server_Steps
  imports Server_Files
begin

text \<open>
  The server under any interleaving of its threads. A step of the table of routes is one
  critical section of \<open>server_file_routes.c\<close>; a step of the server is one of these or one of
  the registry. Every handler of \<open>server_files.c\<close> is a run of such steps, so what holds of
  all runs holds whatever the handlers of several clients do between each other's steps.
\<close>

section \<open>Steps of the route table\<close>

type_synonym transfer_key = "ClientId \<times> u32"

datatype route_event =
    Began transfer_key nat
  | Accepted transfer_key nat
  | Completed transfer_key

fun event_key :: "route_event \<Rightarrow> transfer_key" where
  "event_key (Began k _) = k"
| "event_key (Accepted k _) = k"
| "event_key (Completed k) = k"

inductive route_step :: "RouteTable \<Rightarrow> route_event list \<Rightarrow> RouteTable \<Rightarrow> bool" where
  add: "file_routes_add t s x target fsize discard = (t', r, ep, replaced) \<Longrightarrow> s \<noteq> 0 \<Longrightarrow>
        discard = (target = 0 \<or> target = s) \<Longrightarrow>
        route_step t (if r = FILE_ROUTE_ADD_READY then [Began (s, x) (unat fsize)] else []) t'"
| quarantine: "file_routes_quarantine t s x keep = (t', r) \<Longrightarrow> s \<noteq> 0 \<Longrightarrow> route_step t [] t'"
| chunk: "file_routes_accept_chunk t s x n = (t', r, ep) \<Longrightarrow> s \<noteq> 0 \<Longrightarrow> n < 2 ^ 64 \<Longrightarrow>
        route_step t (if r = FILE_ROUTE_CHUNK_READY then [Accepted (s, x) n] else []) t'"
| mark: "file_routes_mark_forward_failed t s x out = (t', r) \<Longrightarrow> route_step t [] t'"
| finish: "file_routes_finish t s x validate = (t', r, ep) \<Longrightarrow>
        route_step t (if validate \<and> r = FILE_ROUTE_FINISH_READY then [Completed (s, x)] else []) t'"
| abort: "file_routes_abort_client t c cap = (t', actions) \<Longrightarrow> route_step t [] t'"

text \<open>Routes belong to real clients and never lead back to their sender.\<close>

definition route_wf :: "ClientId \<Rightarrow> route \<Rightarrow> bool" where
  "route_wf s v \<longleftrightarrow> s \<noteq> 0 \<and> (case v of Discarding \<Rightarrow> True | Forwarding target _ _ _ \<Rightarrow> target \<noteq> 0 \<and> target \<noteq> s)"

definition routes_wf :: "RouteTable \<Rightarrow> bool" where
  "routes_wf t \<longleftrightarrow> (\<forall>k v. route_map t k = Some v \<longrightarrow> route_wf (fst k) v)"

lemma routes_wfD: "routes_wf t \<Longrightarrow> route_map t (s, x) = Some v \<Longrightarrow> route_wf s v"
  by (auto simp: routes_wf_def)

lemma routes_wf_upd:
  assumes "routes_wf t" "\<And>w. v = Some w \<Longrightarrow> route_wf s w" and "route_map t' = (route_map t)((s, x) := v)"
  shows "routes_wf t'"
  unfolding routes_wf_def
proof (intro allI impI)
  fix k w
  assume w: "route_map t' k = Some w"
  show "route_wf (fst k) w"
  proof (cases "k = (s, x)")
    case False
    then show ?thesis using assms(3) w routes_wfD [OF assms(1), of "fst k" "snd k"] by simp
  qed (use assms w in simp)
qed

text \<open>How one step changes the abstract view of one key, with the events it shows.\<close>

inductive key_step :: "transfer_key \<Rightarrow> route option \<Rightarrow> route_event list \<Rightarrow> route option \<Rightarrow> bool" where
  stay: "(\<And>e. e \<in> set es \<Longrightarrow> event_key e \<noteq> k) \<Longrightarrow> key_step k v es v"
| start: "key_step k None [Began k n] (Some (Forwarding target out n 0))"
| accept: "f + n \<le> m \<Longrightarrow> key_step k (Some (Forwarding target out m f)) [Accepted k n] (Some (Forwarding target out m (f + n)))"
| complete: "key_step k (Some (Forwarding target out m m)) [Completed k] None"
| drop: "key_step k v [] (Some Discarding)"
| forget: "key_step k v [] None"

lemma key_step_same: "key_step k v [] v"
  by (rule key_step.stay) simp

lemma key_step_updI:
  assumes "m' = m(k := v)" "key_step k (m k) es v"
    and "\<And>e. e \<in> set es \<Longrightarrow> event_key e = k"
  shows "key_step j (m j) es (m' j)"
proof (cases "j = k")
  case False
  then show ?thesis using assms by (auto intro!: key_step.stay)
qed (use assms in simp)

text \<open>Changes that show no event: at most one key is forgotten or becomes a tombstone.\<close>

definition quiet :: "(transfer_key \<rightharpoonup> route) \<Rightarrow> transfer_key \<Rightarrow> (transfer_key \<rightharpoonup> route) \<Rightarrow> bool" where
  "quiet m k m' \<longleftrightarrow> m' = m \<or> (\<exists>v. m' = m(k := v) \<and> (v = None \<or> v = Some Discarding))"

lemma key_step_quiet: "quiet m k m' \<Longrightarrow> key_step j (m j) [] (m' j)"
  by (cases "j = k") (auto simp: quiet_def intro: key_step_same key_step.drop key_step.forget)

lemma routes_wf_quiet: "routes_wf t \<Longrightarrow> s \<noteq> 0 \<Longrightarrow> quiet (route_map t) (s, x) (route_map t') \<Longrightarrow> routes_wf t'"
  unfolding quiet_def
  by (elim disjE exE conjE) (simp add: routes_wf_def, auto elim: routes_wf_upd [rotated 2] simp: route_wf_def)

text \<open>The table stays well formed, and each key makes one step of its own that fits the events.\<close>

definition route_sound :: "RouteTable \<Rightarrow> route_event list \<Rightarrow> RouteTable \<Rightarrow> bool" where
  "route_sound t es t' \<longleftrightarrow> routes_inv t' \<and> routes_wf t' \<and> (\<forall>k. key_step k (route_map t k) es (route_map t' k))"

lemma quiet_sound:
  "routes_wf t \<Longrightarrow> s \<noteq> 0 \<Longrightarrow> routes_inv t' \<Longrightarrow> quiet (route_map t) (s, x) (route_map t') \<Longrightarrow> route_sound t [] t'"
  unfolding route_sound_def using routes_wf_quiet key_step_quiet by blast

lemma update_sound:
  assumes "routes_wf t" "routes_inv t'" "route_map t' = (route_map t)((s, x) \<mapsto> w)" "route_wf s w"
    and "key_step (s, x) (route_map t (s, x)) es (Some w)" "\<And>e. e \<in> set es \<Longrightarrow> event_key e = (s, x)"
  shows "route_sound t es t'"
  unfolding route_sound_def
  using routes_wf_upd [OF assms(1) _ assms(3)] key_step_updI [OF assms(3,5)] assms(2,4,6) by blast

lemma add_sound:
  assumes "routes_inv t" "routes_wf t" "file_routes_add t s x target fsize discard = (t', r, ep, replaced)" "s \<noteq> 0"
    "discard = (target = 0 \<or> target = s)"
  shows "route_sound t (if r = FILE_ROUTE_ADD_READY then [Began (s, x) (unat fsize)] else []) t'"
proof -
  note sp = add_route_spec [OF assms(1,3)]
  show ?thesis
  proof (cases "route_map t (s, x) = None \<and> \<not> routes_full t \<and> \<not> discard")
    case True
    then have v: "r = FILE_ROUTE_ADD_READY" "routes_inv t'" "route_map t' = (route_map t)((s, x) \<mapsto>
        Forwarding target (ep_outbound_transfer_id ep) (unat fsize) 0)"
      using sp by auto
    show ?thesis
      by (rule update_sound [OF assms(2) v(2,3)]) (use True v(1) assms(4,5) in \<open>auto simp: route_wf_def intro: key_step.start\<close>)
  next
    case False
    then have "r \<noteq> FILE_ROUTE_ADD_READY" "routes_inv t'" "quiet (route_map t) (s, x) (route_map t')"
      using sp by (auto simp: quiet_def split: option.splits if_splits)
    then show ?thesis using quiet_sound [OF assms(2,4)] by simp
  qed
qed

lemma quarantine_sound:
  assumes "routes_inv t" "routes_wf t" "file_routes_quarantine t s x keep = (t', r)" "s \<noteq> 0"
  shows "route_sound t [] t'"
proof -
  obtain was prev where r: "r = (was, prev)" by (cases r)
  have "routes_inv t'" "quiet (route_map t) (s, x) (route_map t')"
    using quarantine_spec [OF assms(1) assms(3) [unfolded r]] by (auto simp: quiet_def split: option.splits if_splits)
  then show ?thesis by (rule quiet_sound [OF assms(2,4)])
qed

lemma chunk_sound:
  assumes "routes_inv t" "routes_wf t" "file_routes_accept_chunk t s x n = (t', r, ep)" "s \<noteq> 0" "n < 2 ^ 64"
  shows "route_sound t (if r = FILE_ROUTE_CHUNK_READY then [Accepted (s, x) n] else []) t'"
proof -
  note sp = accept_chunk_spec [OF assms(1,3,5)]
  show ?thesis
  proof (cases "\<exists>target out m f. route_map t (s, x) = Some (Forwarding target out m f) \<and> f + n \<le> m")
    case True
    then obtain target out m f where old: "route_map t (s, x) = Some (Forwarding target out m f)" "f + n \<le> m" by blast
    then have v: "r = FILE_ROUTE_CHUNK_READY" "routes_inv t'"
        "route_map t' = (route_map t)((s, x) \<mapsto> Forwarding target out m (f + n))"
      using sp by auto
    have "route_wf s (Forwarding target out m (f + n))" using routes_wfD [OF assms(2) old(1)] by (simp add: route_wf_def)
    then show ?thesis by (rule update_sound [OF assms(2) v(2,3)]) (use old v(1) in \<open>auto intro: key_step.accept\<close>)
  next
    case False
    then have "r \<noteq> FILE_ROUTE_CHUNK_READY" "routes_inv t'" "quiet (route_map t) (s, x) (route_map t')"
      using sp by (auto simp: quiet_def split: option.splits if_splits route.splits)
    then show ?thesis using quiet_sound [OF assms(2,4)] by simp
  qed
qed

lemma mark_sound:
  assumes "routes_inv t" "routes_wf t" "file_routes_mark_forward_failed t s x out = (t', r)"
  shows "route_sound t [] t'"
proof -
  note sp = mark_failed_spec [OF assms(1,3)]
  show ?thesis
  proof (cases r)
    case True
    then obtain w where "route_map t (s, x) = Some w" using sp by auto
    then have "s \<noteq> 0" using routes_wfD [OF assms(2)] by (auto simp: route_wf_def)
    moreover have "quiet (route_map t) (s, x) (route_map t')" using sp by (auto simp: quiet_def)
    ultimately show ?thesis using quiet_sound [OF assms(2)] sp by blast
  qed (use assms(2) sp key_step_same in \<open>simp add: route_sound_def routes_wf_def\<close>)
qed

lemma finish_sound:
  assumes "routes_inv t" "routes_wf t" "file_routes_finish t s x validate = (t', r, ep)"
  shows "route_sound t (if validate \<and> r = FILE_ROUTE_FINISH_READY then [Completed (s, x)] else []) t'"
    (is "route_sound t ?es t'")
proof -
  note sp = finish_spec [OF assms(1,3)]
  have "routes_wf t'" using sp routes_wf_upd [OF assms(2), of None] by auto
  moreover have "key_step k (route_map t k) ?es (route_map t' k)" for k
  proof (rule key_step_updI [where k = "(s, x)"])
    show "route_map t' = (route_map t)((s, x) := None)" using sp by blast
    show "key_step (s, x) (route_map t (s, x)) ?es None"
      using sp by (auto intro: key_step.forget key_step.complete split: option.splits route.splits if_splits)
  qed (auto split: if_splits)
  ultimately show ?thesis using sp by (auto simp: route_sound_def)
qed

lemma abort_sound:
  assumes "routes_inv t" "routes_wf t" "file_routes_abort_client t c cap = (t', actions)"
  shows "route_sound t [] t'"
proof (cases "c = 0")
  case True
  then show ?thesis using assms key_step_same by (auto simp: route_sound_def file_routes_abort_client_def)
next
  case False
  note sp = abort_client_spec [OF assms(1) False assms(3)]
  have same: "route_map t' k = None \<or> route_map t' k = Some Discarding \<and> route_map t k \<noteq> None \<or> route_map t' k = route_map t k" for k
  proof (cases k)
    case (Pair s x)
    then show ?thesis using sp(2) [of s x] by (cases "route_map t (s, x)"; cases "the (route_map t (s, x))") auto
  qed
  have "key_step k (route_map t k) [] (route_map t' k)" for k
    using same [of k] by (metis key_step.drop key_step.forget key_step_same)
  moreover have "routes_wf t'"
    unfolding routes_wf_def
  proof (intro allI impI)
    fix k v
    assume v: "route_map t' k = Some v"
    obtain w where "route_map t k = Some w" "v = Discarding \<or> v = w"
      using same [of k] v by (cases "route_map t k") auto
    then show "route_wf (fst k) v" using routes_wfD [OF assms(2), of "fst k" "snd k" w] by (auto simp: route_wf_def)
  qed
  ultimately show ?thesis using sp(1) by (simp add: route_sound_def)
qed

lemma route_step_sound:
  assumes "route_step t es t'" "routes_inv t" "routes_wf t"
  shows "routes_inv t' \<and> routes_wf t' \<and> (\<forall>k. key_step k (route_map t k) es (route_map t' k))"
  unfolding route_sound_def [symmetric] using assms
  by (induction rule: route_step.induct)
     (blast intro: add_sound quarantine_sound chunk_sound mark_sound finish_sound abort_sound)+

section \<open>Steps of the server\<close>

datatype server_event = Reg registry_event | Route route_event

inductive server_step :: "Server \<Rightarrow> server_event list \<Rightarrow> Server \<Rightarrow> bool" where
  registry: "registry_step (registry s) es reg \<Longrightarrow> server_step s (map Reg es) (s\<lparr>registry := reg\<rparr>)"
| routes: "route_step (table s) es t \<Longrightarrow> server_step s (map Route es) (s\<lparr>table := t\<rparr>)"

inductive server_run :: "Server \<Rightarrow> server_event list \<Rightarrow> Server \<Rightarrow> bool" where
  stop: "server_run s [] s"
| step: "server_run s es s1 \<Longrightarrow> server_step s1 fs s' \<Longrightarrow> server_run s (es @ fs) s'"

inductive_cases server_stepE: "server_step s es s'"

definition server_inv :: "Server \<Rightarrow> bool" where
  "server_inv s \<longleftrightarrow> registry_inv (registry s) \<and> routes_inv (table s) \<and> routes_wf (table s)"

definition server_init :: "Os \<Rightarrow> Server" where
  "server_init oracle =
     init_file_routes \<lparr>registry = init_clients (static_registry oracle),
       table = \<lparr>routes = replicate FILE_ROUTE_CAPACITY zero_route, next_outbound_transfer_id = 1\<rparr>\<rparr>"

lemma server_init_inv: "server_inv (server_init oracle)"
  by (simp add: server_inv_def server_init_def init_file_routes_def file_routes_init_def init_clients_inv
      routes_inv_def routes_wf_def route_map_def by_key.unique_blank_table by_outbound.unique_blank_table
      by_key.lookup_blank_table list_all_length)

lemma server_step_inv: "server_step s es s' \<Longrightarrow> server_inv s \<Longrightarrow> server_inv s'"
  by (induction rule: server_step.induct)
     (auto simp: server_inv_def dest: registry_step_inv route_step_sound)

lemma server_run_inv: "server_run s es s' \<Longrightarrow> server_inv s \<Longrightarrow> server_inv s'"
  by (induction rule: server_run.induct) (auto dest: server_step_inv)

lemma server_run_append: "server_run s1 fs s' \<Longrightarrow> server_run s es s1 \<Longrightarrow> server_run s (es @ fs) s'"
  by (induction arbitrary: es rule: server_run.induct)
     (auto simp flip: append_assoc intro: server_run.step)

text \<open>
  \<open>reaches s s'\<close>: some sequence of steps that removes no client leads from \<open>s\<close> to \<open>s'\<close>. Each rule
  below extends a sequence by one call, so a handler is covered by chaining the rules along its
  branches.
\<close>

definition reaches :: "Server \<Rightarrow> Server \<Rightarrow> bool" where
  "reaches s s' \<longleftrightarrow> (\<exists>es. server_run s es s' \<and> (\<forall>c. Reg (Closed c) \<notin> set es))"

named_theorems reaches_intros \<open>extending a run by one call\<close>

lemma reaches_refl [reaches_intros]: "reaches s s"
  unfolding reaches_def using server_run.stop by fastforce

lemma reaches_trans:
  assumes "reaches s s1" "reaches s1 s'"
  shows "reaches s s'"
proof -
  obtain es fs where "server_run s es s1" "\<forall>c. Reg (Closed c) \<notin> set es" "server_run s1 fs s'" "\<forall>c. Reg (Closed c) \<notin> set fs"
    using assms unfolding reaches_def by blast
  then show ?thesis unfolding reaches_def by (intro exI [of _ "es @ fs"]) (auto intro: server_run_append)
qed

lemma reaches_step:
  assumes "reaches s s1" "server_step s1 fs s'" "\<And>c. Reg (Closed c) \<notin> set fs"
  shows "reaches s s'"
proof -
  obtain es where "server_run s es s1" "\<forall>c. Reg (Closed c) \<notin> set es" using assms(1) unfolding reaches_def by blast
  then show ?thesis unfolding reaches_def using assms(2,3) by (intro exI [of _ "es @ fs"]) (auto intro: server_run.step)
qed

lemma reaches_inv: "reaches s s' \<Longrightarrow> server_inv s \<Longrightarrow> server_inv s'"
  unfolding reaches_def by (blast intro: server_run_inv)

lemma reaches_registry:
  "reaches s s1 \<Longrightarrow> registry_step (registry s1) es reg \<Longrightarrow> (\<And>c. Closed c \<notin> set es) \<Longrightarrow> reaches s (s1\<lparr>registry := reg\<rparr>)"
  by (erule reaches_step [OF _ server_step.registry]) auto

lemma reaches_table: "reaches s s1 \<Longrightarrow> route_step (table s1) es t \<Longrightarrow> reaches s (s1\<lparr>table := t\<rparr>)"
  by (erule reaches_step [OF _ server_step.routes]) auto

lemma reaches_queue:
  "reaches s s1 \<Longrightarrow> reaches s (s1\<lparr>registry := fst (queue_frame_to_client_id (registry s1) c type payload)\<rparr>)"
  by (erule reaches_registry [OF _ registry_step.queue [OF prod.collapse [symmetric]]]) (auto split: sum.splits)

lemma same_registry [simp]: "s\<lparr>registry := registry s\<rparr> = s"
  by simp

lemma reaches_send [reaches_intros]: "reaches s s1 \<Longrightarrow> reaches s (fst (server_send s1 c type payload))"
  unfolding server_send_def send_frame_to_client_id_def
  using reaches_queue [of s s1 c type payload] by (auto split: prod.splits)

lemma reaches_text [reaches_intros]: "reaches s s1 \<Longrightarrow> reaches s (fst (server_text s1 c message))"
  unfolding server_text_def send_text_to_client_id_def send_frame_to_client_id_def
  using reaches_queue [of s s1 c FRAME_TEXT message] by (auto split: prod.splits if_splits)

lemma reaches_error [reaches_intros]: "reaches s s1 \<Longrightarrow> reaches s (fst (send_receiver_error s1 ep))"
  unfolding send_receiver_error_def by (auto intro: reaches_intros split: sum.splits)

lemma reaches_notify [reaches_intros]: "reaches s s1 \<Longrightarrow> reaches s (fst (notify_sender s1 c message))"
  unfolding notify_sender_def by (auto intro: reaches_intros)

lemma reaches_notify_transfer [reaches_intros]:
  "reaches s s1 \<Longrightarrow> reaches s (fst (notify_sender_for_transfer s1 c x message))"
  unfolding notify_sender_for_transfer_def by (auto simp: Let_def snprintf_def intro: reaches_intros)

lemma reaches_quarantine [reaches_intros]:
  "reaches s s1 \<Longrightarrow> c \<noteq> 0 \<Longrightarrow> reaches s (s1\<lparr>table := fst (file_routes_quarantine (table s1) c x keep)\<rparr>)"
  by (rule reaches_table [OF _ route_step.quarantine [OF prod.collapse [symmetric]]])

lemma reaches_mark [reaches_intros]:
  "reaches s s1 \<Longrightarrow> reaches s (s1\<lparr>table := fst (file_routes_mark_forward_failed (table s1) c x out)\<rparr>)"
  by (rule reaches_table [OF _ route_step.mark [OF prod.collapse [symmetric]]])

lemma reaches_reject [reaches_intros]:
  "reaches s s1 \<Longrightarrow> c \<noteq> 0 \<Longrightarrow> reaches s (fst (reject_known_transfer s1 c x message keep))"
  unfolding reject_known_transfer_def by (auto simp: Let_def case_prod_beta intro: reaches_intros)

lemma reaches_malformed [reaches_intros]:
  "reaches s s1 \<Longrightarrow> c \<noteq> 0 \<Longrightarrow> reaches s (fst (reject_malformed s1 c frame m1 m2 keep))"
  unfolding reject_malformed_def by (auto intro: reaches_intros split: sum.splits)

lemma chunk_length_bound: "file_protocol_decode_chunk frame = Inr chunk \<Longrightarrow> length (fc_data chunk) < 2 ^ 64"
  by (auto simp: file_protocol_decode_chunk_def Let_def const_simps split: if_splits)

lemma reaches_end [reaches_intros]:
  assumes "reaches s s1" "c \<noteq> 0"
  shows "reaches s (fst (handle_file_end s1 c frame))"
proof -
  have "reaches s (s1\<lparr>table := fst (file_routes_finish (table s1) c x v)\<rparr>)" for x v
  proof -
    obtain t r ep where "file_routes_finish (table s1) c x v = (t, r, ep)" by (rule prod_cases3)
    from reaches_table [OF assms(1) route_step.finish [OF this]] this show ?thesis by simp
  qed
  then show ?thesis using assms unfolding handle_file_end_def
    by (auto simp: Let_def case_prod_beta intro!: reaches_intros
        split: sum.splits FileRouteFinishResult.splits prod.splits)
qed

lemma reaches_file_error [reaches_intros]:
  assumes "reaches s s1" "c \<noteq> 0"
  shows "reaches s (fst (handle_file_error s1 c frame))"
proof -
  have "reaches s (s1\<lparr>table := fst (file_routes_finish (table s1) c x v)\<rparr>)" for x v
  proof -
    obtain t r ep where "file_routes_finish (table s1) c x v = (t, r, ep)" by (rule prod_cases3)
    from reaches_table [OF assms(1) route_step.finish [OF this]] this show ?thesis by simp
  qed
  then show ?thesis using assms unfolding handle_file_error_def
    by (auto simp: Let_def case_prod_beta intro!: reaches_intros
        split: sum.splits FileRouteFinishResult.splits prod.splits)
qed

lemma reaches_chunk [reaches_intros]:
  assumes "reaches s s1" "c \<noteq> 0"
  shows "reaches s (fst (handle_file_chunk s1 c frame))"
proof (cases "file_protocol_decode_chunk frame")
  case (Inl e)
  then show ?thesis using assms by (auto simp: handle_file_chunk_def intro!: reaches_intros)
next
  case (Inr chunk)
  obtain t r ep where a: "file_routes_accept_chunk (table s1) c (fc_transfer_id chunk) (length (fc_data chunk)) = (t, r, ep)"
    by (rule prod_cases3)
  have r1: "reaches s (s1\<lparr>table := t\<rparr>)"
    by (rule reaches_table [OF assms(1) route_step.chunk [OF a assms(2) chunk_length_bound [OF Inr]]])
  show ?thesis using assms(2) r1
    by (cases r) (auto simp: handle_file_chunk_def Inr a Let_def case_prod_beta intro!: reaches_intros split: sum.splits)
qed

lemma reaches_begin [reaches_intros]:
  assumes "reaches s s1" "c \<noteq> 0"
  shows "reaches s (fst (handle_file_begin s1 c name frame))"
proof (cases "get_username_length name = None \<or> \<not> file_protocol_valid_peer_name name")
  case True
  then show ?thesis using assms by (auto simp: handle_file_begin_def intro!: reaches_intros)
next
  case name: False
  show ?thesis
  proof (cases "file_protocol_decode_begin frame")
    case (Inl e)
    then show ?thesis using assms name by (auto simp: handle_file_begin_def intro!: reaches_intros)
  next
    case (Inr b)
    let ?target = "find_client_id (registry s1) (fb_peer b)"
    let ?discard = "?target = INVALID_CLIENT_ID \<or> ?target = c"
    obtain t r ep rep where a:
      "file_routes_add (table s1) c (fb_transfer_id b) ?target (fb_file_size b) ?discard = (t, r, ep, rep)"
      by (rule prod_cases4)
    have r1: "reaches s (s1\<lparr>table := t\<rparr>)"
      by (rule reaches_table [OF assms(1) route_step.add [OF a assms(2) refl]])
    note eq = handle_file_begin_def Inr a Let_def case_prod_beta
    show ?thesis using assms(2) r1 name
      by (cases r) (auto simp: eq intro!: reaches_intros split: sum.splits)
  qed
qed

lemma reaches_route [reaches_intros]:
  "reaches s s1 \<Longrightarrow> reaches s (fst (route_file_frame s1 c name frame))"
  unfolding route_file_frame_def by (auto intro!: reaches_intros split: FrameType.splits)

lemma reaches_actions: "reaches s s1 \<Longrightarrow> reaches s (perform_abort_actions s1 as)"
  by (induction as arbitrary: s1) (auto intro: reaches_intros)

lemma reaches_abort [reaches_intros]: "reaches s s1 \<Longrightarrow> reaches s (abort_file_routes_for_client s1 c)"
  unfolding abort_file_routes_for_client_def
  using reaches_table [OF _ route_step.abort, of s s1 c FILE_ROUTE_CAPACITY] reaches_actions
  by (auto split: prod.splits)

end
