(* ===== verification/Command_Parser.thy ===== *)
theory Command_Parser
  imports Common
begin

text \<open>
  \<open>command_parser.c\<close>: the in-place parser of a command line. The model works on the buffer
  the C code works on: pointers are offsets into it, every read and write checks that the
  offset lies inside the buffer, and an access outside it makes the whole call \<open>None\<close>.
  The parser is then shown equal to a specification on plain strings, which includes that
  no access leaves the buffer.
\<close>

section \<open>Memory accesses\<close>

definition deref :: "bytes \<Rightarrow> nat \<Rightarrow> byte option" where
  "deref buf p = (if p < length buf then Some (buf ! p) else None)"

definition store :: "bytes \<Rightarrow> nat \<Rightarrow> byte \<Rightarrow> bytes option" where
  "store buf p b = (if p < length buf then Some (buf[p := b]) else None)"

text \<open>\<open>while (*p != 0 && P (*p)) p++\<close>\<close>

function skip_while :: "(byte \<Rightarrow> bool) \<Rightarrow> bytes \<Rightarrow> nat \<Rightarrow> nat option" where
  "skip_while P buf p =
     (case deref buf p of
        None \<Rightarrow> None
      | Some b \<Rightarrow> if b \<noteq> 0 \<and> P b then skip_while P buf (Suc p) else Some p)"
  by pat_completeness auto
termination
  by (relation "measure (\<lambda>(P, buf, p). length buf - p)") (auto simp: deref_def split: if_splits)

declare skip_while.simps [simp del]

definition skip_whitespace :: "bytes \<Rightarrow> nat \<Rightarrow> nat option" where
  "skip_whitespace buf text = skip_while isspace buf text"

definition skip_word :: "bytes \<Rightarrow> nat \<Rightarrow> nat option" where
  "skip_word buf p = skip_while (\<lambda>b. \<not> isspace b) buf p"

definition strlen :: "bytes \<Rightarrow> nat \<Rightarrow> nat option" where
  "strlen buf p = map_option (\<lambda>q. q - p) (skip_while (\<lambda>_. True) buf p)"

text \<open>The string a pointer denotes, as \<open>strcmp\<close> and the callers read it.\<close>

definition string_at :: "bytes \<Rightarrow> nat \<Rightarrow> bytes option" where
  "string_at buf p = (if 0 \<in> set (drop p buf) then Some (c_string (drop p buf)) else None)"

text \<open>\<open>while (length > 0 && P (text[length - 1])) text[--length] = 0\<close>\<close>

fun trim_end :: "(byte \<Rightarrow> bool) \<Rightarrow> bytes \<Rightarrow> nat \<Rightarrow> nat \<Rightarrow> bytes option" where
  "trim_end P buf text 0 = Some buf"
| "trim_end P buf text (Suc len) =
     do { b \<leftarrow> deref buf (text + len);
          if P b then do { buf' \<leftarrow> store buf (text + len) 0; trim_end P buf' text len }
          else Some buf }"

definition is_line_ending :: "byte \<Rightarrow> bool" where
  "is_line_ending b \<longleftrightarrow> b = 10 \<or> b = 13"

definition remove_line_ending :: "bytes \<Rightarrow> nat \<Rightarrow> bytes option" where
  "remove_line_ending buf text = do { len \<leftarrow> strlen buf text; trim_end is_line_ending buf text len }"

section \<open>The parser\<close>

datatype ClientCommand =
    CMD_UNKNOWN | CMD_INVALID | CMD_PRIVATE_MESSAGE | CMD_BROADCAST_MESSAGE | CMD_LIST_USERS
  | CMD_HELP | CMD_QUIT | CMD_FILE_TRANSFER

record ParsedCommand =
  pc_type :: ClientCommand
  pc_username :: "nat option"
  pc_message :: "nat option"
  pc_filepath :: "nat option"

definition parsed :: "ClientCommand \<Rightarrow> ParsedCommand" where
  "parsed type = \<lparr>pc_type = type, pc_username = None, pc_message = None, pc_filepath = None\<rparr>"

definition parse_no_arguments :: "ClientCommand \<Rightarrow> bytes \<Rightarrow> nat \<Rightarrow> (ParsedCommand \<times> bytes) option" where
  "parse_no_arguments type buf arguments =
     do { a \<leftarrow> deref buf arguments; Some (parsed (if a = 0 then type else CMD_INVALID), buf) }"

definition parse_broadcast :: "bytes \<Rightarrow> nat \<Rightarrow> (ParsedCommand \<times> bytes) option" where
  "parse_broadcast buf arguments =
     do { a \<leftarrow> deref buf arguments;
          Some (if a = 0 then parsed CMD_INVALID
                else (parsed CMD_BROADCAST_MESSAGE)\<lparr>pc_message := Some arguments\<rparr>, buf) }"

definition parse_msg :: "bytes \<Rightarrow> nat \<Rightarrow> (ParsedCommand \<times> bytes) option" where
  "parse_msg buf username =
     do { a \<leftarrow> deref buf username;
          if a = 0 then Some (parsed CMD_INVALID, buf)
          else do {
            arguments \<leftarrow> skip_word buf username;
            c \<leftarrow> deref buf arguments;
            if c = 0 then Some (parsed CMD_INVALID, buf)
            else do {
              buf1 \<leftarrow> store buf arguments 0;
              message \<leftarrow> skip_whitespace buf1 (arguments + 1);
              m \<leftarrow> deref buf1 message;
              n \<leftarrow> strlen buf1 username;
              Some (if m = 0 \<or> USERNAME_SIZE \<le> n then parsed CMD_INVALID
                    else (parsed CMD_PRIVATE_MESSAGE)
                           \<lparr>pc_username := Some username, pc_message := Some message\<rparr>, buf1) } } }"

definition parse_file :: "bytes \<Rightarrow> nat \<Rightarrow> (ParsedCommand \<times> bytes) option" where
  "parse_file buf username =
     do { a \<leftarrow> deref buf username;
          if a = 0 then Some (parsed CMD_INVALID, buf)
          else do {
            arguments \<leftarrow> skip_word buf username;
            c \<leftarrow> deref buf arguments;
            if c = 0 then Some (parsed CMD_INVALID, buf)
            else do {
              buf1 \<leftarrow> store buf arguments 0;
              filepath \<leftarrow> skip_whitespace buf1 (arguments + 1);
              filepath_length \<leftarrow> strlen buf1 filepath;
              buf2 \<leftarrow> trim_end isspace buf1 filepath filepath_length;
              f \<leftarrow> deref buf2 filepath;
              n \<leftarrow> strlen buf2 username;
              Some (if f = 0 \<or> USERNAME_SIZE \<le> n then parsed CMD_INVALID
                    else (parsed CMD_FILE_TRANSFER)
                           \<lparr>pc_username := Some username, pc_filepath := Some filepath\<rparr>, buf2) } } }"

text \<open>Separate the command name from its arguments.\<close>

definition split_verb :: "bytes \<Rightarrow> nat \<Rightarrow> (bytes \<times> nat) option" where
  "split_verb buf verb =
     do { cursor \<leftarrow> skip_word buf verb;
          c \<leftarrow> deref buf cursor;
          if c \<noteq> 0 then do { buf1 \<leftarrow> store buf cursor 0;
                             arguments \<leftarrow> skip_whitespace buf1 (cursor + 1);
                             Some (buf1, arguments) }
          else Some (buf, cursor) }"

text \<open>The chain of \<open>strcmp\<close> tests on the command name.\<close>

definition dispatch_command :: "bytes \<Rightarrow> bytes \<Rightarrow> nat \<Rightarrow> (ParsedCommand \<times> bytes) option" where
  "dispatch_command name buf arguments =
     (if name = str ''/list'' then parse_no_arguments CMD_LIST_USERS buf arguments
      else if name = str ''/help'' then parse_no_arguments CMD_HELP buf arguments
      else if name = str ''/quit'' then parse_no_arguments CMD_QUIT buf arguments
      else if name = str ''/broadcast'' then parse_broadcast buf arguments
      else if name = str ''/msg'' then parse_msg buf arguments
      else if name = str ''/file'' then parse_file buf arguments
      else Some (parsed CMD_UNKNOWN, buf))"

definition parse_command :: "bytes \<Rightarrow> (ParsedCommand \<times> bytes) option" where
  "parse_command command =
     do { buf0 \<leftarrow> remove_line_ending command 0;
          verb \<leftarrow> skip_whitespace buf0 0;
          (buf, arguments) \<leftarrow> split_verb buf0 verb;
          name \<leftarrow> string_at buf verb;
          dispatch_command name buf arguments }"

section \<open>Specification on strings\<close>

datatype command =
    Unknown | Invalid | PrivateMessage bytes bytes | Broadcast bytes | ListUsers | Help | Quit
  | FileTransfer bytes bytes

definition rstrip :: "(byte \<Rightarrow> bool) \<Rightarrow> bytes \<Rightarrow> bytes" where
  "rstrip P s = rev (dropWhile P (rev s))"

definition first_word :: "bytes \<Rightarrow> bytes" where
  "first_word s = takeWhile (\<lambda>b. \<not> isspace b) s"

definition after_word :: "bytes \<Rightarrow> bytes" where
  "after_word s = dropWhile isspace (dropWhile (\<lambda>b. \<not> isspace b) s)"

definition spec_arguments :: "bytes \<Rightarrow> bytes \<Rightarrow> command" where
  "spec_arguments verb args =
     (if verb = str ''/list'' then (if args = [] then ListUsers else Invalid)
      else if verb = str ''/help'' then (if args = [] then Help else Invalid)
      else if verb = str ''/quit'' then (if args = [] then Quit else Invalid)
      else if verb = str ''/broadcast'' then (if args = [] then Invalid else Broadcast args)
      else if verb = str ''/msg'' then
        (if after_word args = [] \<or> 32 \<le> length (first_word args) then Invalid
         else PrivateMessage (first_word args) (after_word args))
      else if verb = str ''/file'' then
        (if rstrip isspace (after_word args) = [] \<or> 32 \<le> length (first_word args) then Invalid
         else FileTransfer (first_word args) (rstrip isspace (after_word args)))
      else Unknown)"

definition parse_spec :: "bytes \<Rightarrow> command" where
  "parse_spec line =
     (let s = dropWhile isspace (rstrip is_line_ending line)
      in spec_arguments (first_word s) (after_word s))"

text \<open>What a caller sees of a parsed command: the strings its pointers denote.\<close>

fun command_view :: "ParsedCommand \<times> bytes \<Rightarrow> command option" where
  "command_view (pc, buf) =
     (case pc_type pc of
        CMD_UNKNOWN \<Rightarrow> Some Unknown
      | CMD_INVALID \<Rightarrow> Some Invalid
      | CMD_LIST_USERS \<Rightarrow> Some ListUsers
      | CMD_HELP \<Rightarrow> Some Help
      | CMD_QUIT \<Rightarrow> Some Quit
      | CMD_BROADCAST_MESSAGE \<Rightarrow>
          do { m \<leftarrow> pc_message pc; s \<leftarrow> string_at buf m; Some (Broadcast s) }
      | CMD_PRIVATE_MESSAGE \<Rightarrow>
          do { u \<leftarrow> pc_username pc; m \<leftarrow> pc_message pc; s \<leftarrow> string_at buf u; t \<leftarrow> string_at buf m;
               Some (PrivateMessage s t) }
      | CMD_FILE_TRANSFER \<Rightarrow>
          do { u \<leftarrow> pc_username pc; m \<leftarrow> pc_filepath pc; s \<leftarrow> string_at buf u; t \<leftarrow> string_at buf m;
               Some (FileTransfer s t) })"

section \<open>The memory operations on a buffer that holds a string\<close>

lemma deref_here [simp]: "deref (pre @ b # post) (length pre) = Some b"
  by (simp add: deref_def)

lemma store_here [simp]: "store (pre @ b # post) (length pre) c = Some (pre @ c # post)"
  by (simp add: store_def)

lemma skip_while_here:
  "0 \<notin> set s \<Longrightarrow>
   skip_while P (pre @ s @ 0 # post) (length pre) = Some (length pre + length (takeWhile P s))"
proof (induction s arbitrary: pre)
  case Nil
  then show ?case by (simp add: skip_while.simps)
next
  case (Cons b s)
  show ?case
  proof (cases "P b")
    case True
    then show ?thesis
      using Cons.prems Cons.IH [of "pre @ [b]"] by (subst skip_while.simps) simp
  next
    case False
    then show ?thesis by (subst skip_while.simps) simp
  qed
qed

lemma strlen_here [simp]: "0 \<notin> set s \<Longrightarrow> strlen (pre @ s @ 0 # post) (length pre) = Some (length s)"
  by (simp add: strlen_def skip_while_here takeWhile_eq_all_conv [THEN iffD2])

lemma string_at_here [simp]: "0 \<notin> set s \<Longrightarrow> string_at (pre @ s @ 0 # post) (length pre) = Some s"
  by (simp add: string_at_def)

lemma rstrip_snoc [simp]: "rstrip P (s @ [b]) = (if P b then rstrip P s else s @ [b])"
  by (simp add: rstrip_def)

lemma rstrip_Nil [simp]: "rstrip P [] = []"
  by (simp add: rstrip_def)

lemma rstrip_split: "rstrip P s @ rev (takeWhile P (rev s)) = s"
  by (metis rstrip_def rev_append rev_rev_ident takeWhile_dropWhile_id)

lemma set_rstrip: "b \<in> set (rstrip P s) \<Longrightarrow> b \<in> set s"
  by (metis Un_iff rstrip_split set_append)

lemma length_rstrip: "length (rstrip P s) \<le> length s"
  by (metis length_append le_add1 rstrip_split)

lemma trim_end_here:
  "trim_end P (pre @ s @ post) (length pre) (length s) =
     Some (pre @ rstrip P s @ replicate (length s - length (rstrip P s)) 0 @ post)"
proof (induction s arbitrary: post rule: rev_induct)
  case Nil
  then show ?case by simp
next
  case (snoc b s)
  have d: "deref (pre @ (s @ [b]) @ post) (length pre + length s) = Some b"
    using deref_here [of "pre @ s" b post] by simp
  have st: "store (pre @ (s @ [b]) @ post) (length pre + length s) 0 = Some (pre @ s @ 0 # post)"
    using store_here [of "pre @ s" b post 0] by simp
  show ?case
  proof (cases "P b")
    case True
    have "Suc (length s) - length (rstrip P s) = Suc (length s - length (rstrip P s))"
      using length_rstrip [of P s] by linarith
    then show ?thesis using True d st snoc.IH [of "0 # post"]
      by (simp add: replicate_app_Cons_same)
  next
    case False
    then show ?thesis using d by simp
  qed
qed

section \<open>Splitting off a word\<close>

lemma word_cases:
  obtains (whole) "first_word s = s" "after_word s = []"
  | (split) c g where "s = first_word s @ c # g @ after_word s" "isspace c" "\<forall>b\<in>set g. isspace b"
proof (cases "dropWhile (\<lambda>b. \<not> isspace b) s")
  case Nil
  then have "first_word s = s" by (metis append_Nil2 first_word_def takeWhile_dropWhile_id)
  moreover have "after_word s = []" by (simp only: after_word_def Nil dropWhile.simps)
  ultimately show ?thesis by (rule whole)
next
  case (Cons c r)
  then have c: "isspace c" by (metis hd_dropWhile list.discI list.sel(1))
  then have a: "after_word s = dropWhile isspace r" by (simp add: after_word_def Cons)
  have "s = first_word s @ c # r" by (metis Cons first_word_def takeWhile_dropWhile_id)
  then have "s = first_word s @ c # takeWhile isspace r @ after_word s" by (simp add: a)
  then show ?thesis using c set_takeWhileD by (intro split) (auto dest: set_takeWhileD)
qed

lemma skip_word_here:
  "0 \<notin> set s \<Longrightarrow> skip_word (pre @ s @ 0 # post) (length pre) = Some (length pre + length (first_word s))"
  by (simp add: skip_word_def skip_while_here first_word_def)

lemma skip_spaces_here:
  assumes "0 \<notin> set g" "0 \<notin> set a" "\<forall>b\<in>set g. isspace b" "a = [] \<or> \<not> isspace (hd a)"
  shows "skip_whitespace (pre @ g @ a @ 0 # post) (length pre) = Some (length (pre @ g))"
proof -
  have "takeWhile isspace (g @ a) = g" using assms(3,4) by (cases a) (auto simp: takeWhile_append)
  then show ?thesis using skip_while_here [of "g @ a" isspace pre post] assms by (simp add: skip_whitespace_def)
qed

lemma after_word_head: "after_word s = [] \<or> \<not> isspace (hd (after_word s))"
  by (metis after_word_def hd_dropWhile)

lemma set_words: "b \<in> set (first_word s) \<Longrightarrow> b \<in> set s" "b \<in> set (after_word s) \<Longrightarrow> b \<in> set s"
  by (auto simp: first_word_def after_word_def dest: set_takeWhileD set_dropWhileD)

text \<open>
  The code's way of splitting a word: find its end, overwrite the separator with NUL, skip
  the blanks. With a separator, the buffer becomes the word, a NUL, the skipped blanks and
  the rest; without one, nothing is written.
\<close>

lemma split_word_here:
  fixes pre post :: bytes
  assumes z: "0 \<notin> set s" and s: "s = first_word s @ c # g @ after_word s"
    and blanks: "isspace c" "\<forall>b\<in>set g. isspace b"
  defines "buf \<equiv> pre @ s @ 0 # post"
    and "buf1 \<equiv> pre @ first_word s @ 0 # g @ after_word s @ 0 # post"
  shows "deref buf (length pre + length (first_word s)) = Some c"
    and "store buf (length pre + length (first_word s)) 0 = Some buf1"
    and "skip_whitespace buf1 (length pre + length (first_word s) + 1)
           = Some (length (pre @ first_word s @ 0 # g))"
    and "string_at buf1 (length pre) = Some (first_word s)"
    and "strlen buf1 (length pre) = Some (length (first_word s))"
proof -
  let ?w = "first_word s" and ?a = "after_word s"
  have b: "buf = (pre @ ?w) @ c # g @ ?a @ 0 # post" unfolding buf_def by (subst s) simp
  show "deref buf (length pre + length ?w) = Some c"
    using deref_here [of "pre @ ?w" c "g @ ?a @ 0 # post"] b by simp
  show "store buf (length pre + length ?w) 0 = Some buf1"
    using store_here [of "pre @ ?w" c "g @ ?a @ 0 # post" 0] b by (simp add: buf1_def)
  have zw: "0 \<notin> set ?w" "0 \<notin> set g" "0 \<notin> set ?a"
    using z set_words(1) [of 0 s] set_words(2) [of 0 s] blanks(2) isspace_0 by blast+
  show "skip_whitespace buf1 (length pre + length ?w + 1) = Some (length (pre @ ?w @ 0 # g))"
    using skip_spaces_here [OF zw(2,3) blanks(2) after_word_head, of "pre @ ?w @ [0]" post]
    by (simp add: buf1_def)
  show "string_at buf1 (length pre) = Some ?w" and "strlen buf1 (length pre) = Some (length ?w)"
    using zw(1) by (simp_all add: buf1_def)
qed

section \<open>The sub-parsers meet the specification\<close>

text \<open>
  \<open>parses_to r v pre n post\<close>: the call returned, the caller sees command \<open>v\<close>, and only the
  \<open>n\<close> bytes after \<open>pre\<close> may have changed.
\<close>

definition parses_to :: "(ParsedCommand \<times> bytes) option \<Rightarrow> command \<Rightarrow> bytes \<Rightarrow> nat \<Rightarrow> bytes \<Rightarrow> bool" where
  "parses_to r v pre n post \<longleftrightarrow>
     (\<exists>pc buf s. r = Some (pc, buf) \<and> command_view (pc, buf) = Some v \<and>
                 buf = pre @ s @ 0 # post \<and> length s = n)"

lemma parse_no_arguments_spec:
  assumes "0 \<notin> set a" "type \<in> {CMD_LIST_USERS, CMD_HELP, CMD_QUIT}"
    and "command_view (parsed type, []) = Some v"
  shows "parses_to (parse_no_arguments type (pre @ a @ 0 # post) (length pre))
           (if a = [] then v else Invalid) pre (length a) post"
  using assms by (cases a) (auto simp: parse_no_arguments_def parses_to_def parsed_def)

lemma parse_broadcast_spec:
  assumes "0 \<notin> set a"
  shows "parses_to (parse_broadcast (pre @ a @ 0 # post) (length pre))
           (if a = [] then Invalid else Broadcast a) pre (length a) post"
proof (cases a)
  case (Cons c r)
  then show ?thesis using assms string_at_here [OF assms, of pre post]
    by (auto simp: parse_broadcast_def parses_to_def parsed_def)
qed (auto simp: parse_broadcast_def parses_to_def parsed_def)

lemma parse_msg_spec:
  assumes z: "0 \<notin> set a"
  shows "parses_to (parse_msg (pre @ a @ 0 # post) (length pre))
           (if after_word a = [] \<or> 32 \<le> length (first_word a) then Invalid
            else PrivateMessage (first_word a) (after_word a)) pre (length a) post"
proof (cases a rule: word_cases)
  case whole
  have "deref (pre @ a @ 0 # post) (length pre + length a) = Some 0"
    using deref_here [of "pre @ a" 0 post] by simp
  then show ?thesis using z whole skip_word_here [OF z, of pre post]
    by (cases a) (auto simp: parse_msg_def parses_to_def parsed_def)
next
  case (split c g)
  let ?w = "first_word a" and ?m = "after_word a"
  let ?buf1 = "pre @ ?w @ 0 # g @ ?m @ 0 # post" and ?p = "length (pre @ ?w @ 0 # g)"
  note here = split_word_here [OF z split, where pre = pre and post = post]
  have c0: "c \<noteq> 0" using split(2) by auto
  obtain x where x: "deref (pre @ a @ 0 # post) (length pre) = Some x"
    by (simp add: deref_def)
  show ?thesis
  proof (cases "x = 0")
    case True
    then have "a = []" using x z by (cases a) auto
    then show ?thesis using split by simp
  next
    case False
    have zm: "0 \<notin> set ?m" using z set_words by blast
    have m: "deref ?buf1 ?p = Some (hd (?m @ [0]))"
      using deref_here [of "pre @ ?w @ 0 # g"] by (cases ?m) auto
    have s: "string_at ?buf1 ?p = Some ?m" using string_at_here [OF zm, of "pre @ ?w @ 0 # g" post] by simp
    have hd0: "hd (?m @ [0]) = 0 \<longleftrightarrow> ?m = []" using zm by (cases ?m) auto
    have l: "length a = length (?w @ 0 # g @ ?m)" by (subst split(1)) simp
    show ?thesis using False x c0 here skip_word_here [OF z, of pre post] m s hd0 l
      by (auto simp: parse_msg_def parses_to_def parsed_def const_simps
          intro!: exI [of _ "?w @ 0 # g @ ?m"])
  qed
qed

lemma string_at_zeros:
  assumes "0 \<notin> set s"
  shows "string_at (pre @ s @ replicate k 0 @ 0 # post) (length pre) = Some s"
    and "deref (pre @ s @ replicate k 0 @ 0 # post) (length pre) = Some (hd (s @ [0]))"
proof -
  obtain r where r: "replicate k 0 @ 0 # post = 0 # r" by (cases k) auto
  show "string_at (pre @ s @ replicate k 0 @ 0 # post) (length pre) = Some s"
    unfolding r by (rule string_at_here [OF assms])
  show "deref (pre @ s @ replicate k 0 @ 0 # post) (length pre) = Some (hd (s @ [0]))"
    unfolding r using deref_here [of pre] by (cases s) auto
qed

lemma parse_file_spec:
  assumes z: "0 \<notin> set a"
  shows "parses_to (parse_file (pre @ a @ 0 # post) (length pre))
           (if rstrip isspace (after_word a) = [] \<or> 32 \<le> length (first_word a) then Invalid
            else FileTransfer (first_word a) (rstrip isspace (after_word a))) pre (length a) post"
proof (cases a rule: word_cases)
  case whole
  have "deref (pre @ a @ 0 # post) (length pre + length a) = Some 0"
    using deref_here [of "pre @ a" 0 post] by simp
  then show ?thesis using z whole skip_word_here [OF z, of pre post]
    by (cases a) (auto simp: parse_file_def parses_to_def parsed_def)
next
  case (split c g)
  let ?w = "first_word a" and ?m = "after_word a"
  let ?f = "rstrip isspace ?m" and ?P = "pre @ ?w @ 0 # g"
  let ?k = "length ?m - length ?f"
  let ?buf1 = "pre @ ?w @ 0 # g @ ?m @ 0 # post"
  let ?buf2 = "pre @ ?w @ 0 # g @ ?f @ replicate ?k 0 @ 0 # post"
  note here = split_word_here [OF z split, where pre = pre and post = post]
  have c0: "c \<noteq> 0" using split(2) by auto
  obtain x where x: "deref (pre @ a @ 0 # post) (length pre) = Some x" by (simp add: deref_def)
  have x0: "x \<noteq> 0" using x z split(1) by (cases a) auto
  have zm: "0 \<notin> set ?m" and zw: "0 \<notin> set ?w" using z set_words by blast+
  then have zf: "0 \<notin> set ?f" by (auto dest: set_rstrip)
  have n: "strlen ?buf1 (length ?P) = Some (length ?m)" using strlen_here [OF zm, of ?P post] by simp
  have t: "trim_end isspace ?buf1 (length ?P) (length ?m) = Some ?buf2"
    using trim_end_here [of isspace ?P ?m "0 # post"] by simp
  have f: "string_at ?buf2 (length ?P) = Some ?f" "deref ?buf2 (length ?P) = Some (hd (?f @ [0]))"
    using string_at_zeros [OF zf, of ?P ?k post] by simp_all
  have u: "string_at ?buf2 (length pre) = Some ?w" "strlen ?buf2 (length pre) = Some (length ?w)"
    using zw by simp_all
  have hd0: "hd (?f @ [0]) = 0 \<longleftrightarrow> ?f = []" using zf by (cases ?f) auto
  have l: "length a = length (?w @ 0 # g @ ?f @ replicate ?k 0)"
    using length_rstrip [of isspace ?m] by (subst split(1)) simp
  show ?thesis using x x0 c0 here skip_word_here [OF z, of pre post] n t f u hd0 l
    by (auto simp: parse_file_def parses_to_def parsed_def const_simps
        intro!: exI [of _ "?w @ 0 # g @ ?f @ replicate ?k 0"])
qed

lemma dispatch_command_spec:
  assumes z: "0 \<notin> set a"
  shows "parses_to (dispatch_command name (pre @ a @ 0 # post) (length pre))
           (spec_arguments name a) pre (length a) post"
proof -
  have none: "parses_to (Some (parsed CMD_UNKNOWN, pre @ a @ 0 # post)) Unknown pre (length a) post"
    by (auto simp: parses_to_def parsed_def)
  show ?thesis
    unfolding dispatch_command_def spec_arguments_def
    using parse_no_arguments_spec [OF z, of CMD_LIST_USERS ListUsers pre post]
      parse_no_arguments_spec [OF z, of CMD_HELP Help pre post]
      parse_no_arguments_spec [OF z, of CMD_QUIT Quit pre post]
      parse_broadcast_spec [OF z, of pre post] parse_msg_spec [OF z, of pre post]
      parse_file_spec [OF z, of pre post] none
    by (simp add: parsed_def split del: if_split cong: if_cong) (simp split: if_split)
qed

text \<open>
  After the verb is split off, the buffer before the arguments still holds the verb and
  its terminator (the separator, or the end of the whole line).
\<close>

lemma split_verb_here:
  assumes z: "0 \<notin> set s"
  obtains pre1 where
    "split_verb (pre @ s @ 0 # post) (length pre) = Some (pre1 @ after_word s @ 0 # post, length pre1)"
    "string_at (pre1 @ after_word s @ 0 # post) (length pre) = Some (first_word s)"
    "length (pre1 @ after_word s) = length (pre @ s)"
proof (cases s rule: word_cases)
  case whole
  have "deref (pre @ s @ 0 # post) (length pre + length s) = Some 0"
    using deref_here [of "pre @ s" 0 post] by simp
  then show ?thesis
    using z whole skip_word_here [OF z, of pre post] by (intro that [of "pre @ s"]) (simp_all add: split_verb_def)
next
  case (split c g)
  note here = split_word_here [OF z split, where pre = pre and post = post]
  have c0: "c \<noteq> 0" using split(2) by auto
  have l: "length s = length (first_word s @ 0 # g @ after_word s)" by (subst split(1)) simp
  show ?thesis using here c0 l skip_word_here [OF z, of pre post]
    by (intro that [of "pre @ first_word s @ 0 # g"]) (simp_all add: split_verb_def)
qed

lemma parse_command_meets_spec:
  assumes z: "0 \<notin> set line"
  shows "\<exists>pc buf. parse_command (line @ 0 # post) = Some (pc, buf) \<and>
           command_view (pc, buf) = Some (parse_spec line) \<and>
           length buf = length (line @ 0 # post) \<and> drop (length line) buf = 0 # post"
proof -
  let ?t = "rstrip is_line_ending line"
  let ?s = "dropWhile isspace ?t" and ?g = "takeWhile isspace ?t"
  obtain post1 where post1: "replicate (length line - length ?t) 0 @ 0 # post = 0 # post1"
    by (cases "length line - length ?t") auto
  have zt: "0 \<notin> set ?t" using z by (auto dest: set_rstrip)
  have zs: "0 \<notin> set ?s" using zt by (auto dest: set_dropWhileD)
  have rm: "remove_line_ending (line @ 0 # post) 0 = Some (?g @ ?s @ 0 # post1)"
    using strlen_here [OF z, of "[]" post] trim_end_here [of is_line_ending "[]" line "0 # post"] post1
    by (simp add: remove_line_ending_def)
  have ws: "skip_whitespace (?g @ ?s @ 0 # post1) 0 = Some (length ?g)"
  proof -
    have eq: "?g @ ?s @ 0 # post1 = ?t @ 0 # post1" by (simp flip: append_assoc)
    show ?thesis unfolding skip_whitespace_def eq using skip_while_here [OF zt, of isspace "[]" post1] by simp
  qed
  obtain pre1 where v: "split_verb (?g @ ?s @ 0 # post1) (length ?g) = Some (pre1 @ after_word ?s @ 0 # post1, length pre1)"
    and name: "string_at (pre1 @ after_word ?s @ 0 # post1) (length ?g) = Some (first_word ?s)"
    and len: "length (pre1 @ after_word ?s) = length (?g @ ?s)"
    by (rule split_verb_here [OF zs])
  have za: "0 \<notin> set (after_word ?s)" using zs set_words by blast
  have p: "parses_to (parse_command (line @ 0 # post)) (parse_spec line) pre1 (length (after_word ?s)) post1"
    using dispatch_command_spec [OF za, of "first_word ?s" pre1 post1]
    by (simp add: parse_command_def rm ws v name parse_spec_def Let_def)
  then obtain pc buf s where r: "parse_command (line @ 0 # post) = Some (pc, buf)"
      "command_view (pc, buf) = Some (parse_spec line)"
    and buf: "buf = (pre1 @ s) @ replicate (length line - length ?t) 0 @ 0 # post"
    and s: "length s = length (after_word ?s)"
    unfolding parses_to_def post1 by auto
  have "length ?g + length ?s = length ?t" by (metis length_append takeWhile_dropWhile_id)
  then have "length (pre1 @ s) = length ?t" using s len by simp
  moreover have "length ?t \<le> length line" by (rule length_rstrip)
  ultimately have "length buf = length (line @ 0 # post)" "drop (length line) buf = 0 # post"
    unfolding buf by simp_all
  with r show ?thesis by blast
qed

text \<open>
  C23. \<open>parse_command\<close> on a NUL-terminated line returns (no read or write leaves the buffer,
  and the bytes behind the terminator keep their values), and the command it reports, read
  through the pointers it returns, is the one the string specification assigns to the line.
\<close>

theorem parse_command_correct:
  assumes z: "0 \<notin> set line"
  shows "\<exists>pc buf. parse_command (line @ 0 # post) = Some (pc, buf) \<and>
           command_view (pc, buf) = Some (parse_spec line) \<and>
           length buf = length (line @ 0 # post) \<and> drop (length line) buf = 0 # post"
  by (rule parse_command_meets_spec [OF z])

lemma example_line_spec: "parse_spec (str ''/msg bob hi there'' @ [10]) = PrivateMessage (str ''bob'') (str ''hi there'')"
  by (simp add: parse_spec_def spec_arguments_def rstrip_def is_line_ending_def isspace_def first_word_def
      after_word_def)

theorem parse_command_correct_witness:
  "\<exists>pc buf. parse_command ((str ''/msg bob hi there'' @ [10]) @ 0 # [7]) = Some (pc, buf) \<and>
     command_view (pc, buf) = Some (PrivateMessage (str ''bob'') (str ''hi there''))"
proof -
  have "0 \<notin> set (str ''/msg bob hi there'' @ [10])" by simp
  from parse_command_correct [OF this, of "[7]"] example_line_spec show ?thesis by (simp only:) blast
qed

lemma first_word_nonempty: "a \<noteq> [] \<Longrightarrow> \<not> isspace (hd a) \<Longrightarrow> first_word a \<noteq> []"
  by (cases a) (simp_all add: first_word_def)

lemma first_word_no_space: "list_all (\<lambda>b. \<not> isspace b) (first_word a)"
  by (auto simp: first_word_def list_all_iff dest: set_takeWhileD)

lemma rstrip_ends:
  assumes "rstrip P s \<noteq> []"
  shows "hd (rstrip P s) = hd s" and "\<not> P (last (rstrip P s))"
proof -
  show "hd (rstrip P s) = hd s" by (metis assms hd_append2 rstrip_split)
  show "\<not> P (last (rstrip P s))" using assms by (simp add: rstrip_def last_rev hd_dropWhile)
qed

lemma after_word_Nil [simp]: "after_word [] = []"
  by (simp add: after_word_def)

lemma parsed_arguments_ok:
  assumes "0 \<notin> set line" and "parse_command (line @ 0 # post) = Some r"
  shows "case command_view r of
     Some (PrivateMessage u m) \<Rightarrow> u \<noteq> [] \<and> length u < USERNAME_SIZE \<and> list_all (\<lambda>b. \<not> isspace b) u \<and> m \<noteq> []
   | Some (FileTransfer u f) \<Rightarrow> u \<noteq> [] \<and> length u < USERNAME_SIZE \<and> list_all (\<lambda>b. \<not> isspace b) u \<and> f \<noteq> [] \<and>
       \<not> isspace (hd f) \<and> \<not> isspace (last f)
   | Some (Broadcast m) \<Rightarrow> m \<noteq> []
   | Some _ \<Rightarrow> True
   | None \<Rightarrow> False"
proof -
  define args where "args = after_word (dropWhile isspace (rstrip is_line_ending line))"
  have h: "args = [] \<or> \<not> isspace (hd args)" unfolding args_def by (rule after_word_head)
  have u: "first_word args \<noteq> []" if "after_word args \<noteq> []"
    using that h first_word_nonempty [of args] by (cases args) auto
  have f: "hd (rstrip isspace (after_word args)) = hd (after_word args)" "after_word args \<noteq> []"
      "\<not> isspace (last (rstrip isspace (after_word args)))" if "rstrip isspace (after_word args) \<noteq> []"
    using rstrip_ends [OF that] that by auto
  have "command_view r = Some (parse_spec line)"
    using parse_command_meets_spec [OF assms(1), of post] assms(2) by auto
  then show ?thesis
    using u f after_word_head [of args] first_word_no_space [of args]
    by (auto simp: parse_spec_def spec_arguments_def Let_def const_simps simp flip: args_def)
qed

text \<open>
  C39. The arguments of a parsed command are well formed: user names are non-empty, shorter
  than \<open>USERNAME_SIZE\<close> and free of blanks, messages and paths are non-empty, and a path
  has no blank at either end.
\<close>

theorem parsed_arguments_wf:
  assumes "0 \<notin> set line" and "parse_command (line @ 0 # post) = Some r"
  shows "case command_view r of
     Some (PrivateMessage u m) \<Rightarrow> u \<noteq> [] \<and> length u < USERNAME_SIZE \<and> list_all (\<lambda>b. \<not> isspace b) u \<and> m \<noteq> []
   | Some (FileTransfer u f) \<Rightarrow> u \<noteq> [] \<and> length u < USERNAME_SIZE \<and> list_all (\<lambda>b. \<not> isspace b) u \<and> f \<noteq> [] \<and>
       \<not> isspace (hd f) \<and> \<not> isspace (last f)
   | Some (Broadcast m) \<Rightarrow> m \<noteq> []
   | Some _ \<Rightarrow> True
   | None \<Rightarrow> False"
  using parsed_arguments_ok [OF assms] .

theorem parsed_arguments_wf_witness:
  "\<exists>r u m. parse_command (str ''/msg bob hi'' @ 0 # []) = Some r \<and> command_view r = Some (PrivateMessage u m) \<and>
     length u < USERNAME_SIZE \<and> list_all (\<lambda>b. \<not> isspace b) u \<and> m \<noteq> []"
proof -
  have z: "0 \<notin> set (str ''/msg bob hi'')" by simp
  obtain r where r: "parse_command (str ''/msg bob hi'' @ 0 # []) = Some r"
      "command_view r = Some (parse_spec (str ''/msg bob hi''))"
    using parse_command_meets_spec [OF z, of "[]"] by (metis (no_types))
  have "parse_spec (str ''/msg bob hi'') = PrivateMessage (str ''bob'') (str ''hi'')"
    by (simp add: parse_spec_def spec_arguments_def rstrip_def is_line_ending_def isspace_def first_word_def after_word_def const_simps)
  with parsed_arguments_wf [OF z r(1)] r show ?thesis by auto
qed

end
