(* ===== verification/Chat_Server.thy ===== *)
theory Chat_Server
  imports Server_Worker Server_Steps Command_Parser
begin

text \<open>
  \<open>server.c\<close>: the welcome message, the handlers of the frames a client sends, and the logout.
  Handlers run on the state of \<open>Server_Files\<close>. The frame, the arrays that commands are copied to and
  parsed in, and the arrays of the chat handler are accessed with checks: a handler is \<open>None\<close> if an
  access would leave one of them. \<open>handle_encrypted_chat_eq\<close> and \<open>handle_client_frame_total\<close> show that
  none does.
\<close>

section \<open>Encrypted chat\<close>

text \<open>The first result is \<open>None\<close> when the copy would leave the array of \<open>USERNAME_SIZE\<close> bytes.\<close>

definition copy_peer_name :: "bytes \<Rightarrow> bytes option option" where
  "copy_peer_name bs =
     (if length bs = 0 \<or> USERNAME_SIZE \<le> length bs then Some None
      else if list_ex (\<lambda>b. isspace b \<or> iscntrl b) bs then Some None
      else do { name \<leftarrow> memcpy (fresh_array USERNAME_SIZE) 0 bs;
                name \<leftarrow> memcpy name (length bs) [0];
                Some (Some (take (length bs) name)) })"

abbreviation on_registry :: "(Registry \<Rightarrow> Registry) \<Rightarrow> Server \<Rightarrow> Server" where
  "on_registry f s \<equiv> s\<lparr>registry := f (registry s)\<rparr>"

abbreviation reply_invalid :: "ClientId \<Rightarrow> string \<Rightarrow> Server \<Rightarrow> Server" where
  "reply_invalid client_id what \<equiv> on_registry (\<lambda>reg. send_invalid_command reg client_id (str what))"

text \<open>A registration: the key is read out of the frame.\<close>

definition chat_register :: "Server \<Rightarrow> ClientId \<Rightarrow> bytes \<Rightarrow> Server option" where
  "chat_register s client_id payload =
     (if length payload \<noteq> CHAT_PUBLIC_KEY_SIZE
      then Some (reply_invalid client_id ''public key registration'' s)
      else do { key \<leftarrow> read_bytes payload 0 CHAT_PUBLIC_KEY_SIZE;
                Some (case register_client_public_key (registry s) client_id key of
                        (reg, Inl _) \<Rightarrow> reply_invalid client_id ''public key registration'' (s\<lparr>registry := reg\<rparr>)
                      | (reg, Inr _) \<Rightarrow> s\<lparr>registry := reg\<rparr>) })"

text \<open>A key request: the reply is built in an array of its own.\<close>

definition chat_request :: "Server \<Rightarrow> ClientId \<Rightarrow> bytes \<Rightarrow> Server option" where
  "chat_request s client_id payload =
     do { name \<leftarrow> copy_peer_name payload;
          case name of
            None \<Rightarrow> Some (reply_invalid client_id ''public key request'' s)
          | Some recipient \<Rightarrow>
              do { response \<leftarrow> memcpy (fresh_array (1 + USERNAME_SIZE - 1 + CHAT_PUBLIC_KEY_SIZE)) 0 [of_nat (length payload)];
                   response \<leftarrow> memcpy response 1 payload;
                   let response_length = 1 + length payload;
                       recipient_id = find_client_id (registry s) recipient
                   in do { (response, response_length) \<leftarrow>
                             (case get_client_public_key (registry s) recipient_id of
                                Inl _ \<Rightarrow> Some (response, response_length)
                              | Inr key \<Rightarrow>
                                  let copied = take CHAT_PUBLIC_KEY_SIZE key
                                  in map_option (\<lambda>r. (r, response_length + length copied)) (memcpy response response_length copied));
                           reply \<leftarrow> read_bytes response 0 response_length;
                           Some (fst (server_send s client_id FRAME_PEER_PK reply)) } } }"

text \<open>A ciphertext that has passed the checks, built anew with the sender's name and sent on.\<close>

definition chat_forward :: "Server \<Rightarrow> ClientId \<Rightarrow> bytes \<Rightarrow> bytes \<Rightarrow> nat \<Rightarrow> bytes \<Rightarrow> Server option" where
  "chat_forward s client_id sender_username payload encrypted_offset recipient =
     (let sender_length = length sender_username;
          encrypted_length = length payload - encrypted_offset;
          forwarded_length = 1 + sender_length + encrypted_length
      in if sender_length = 0 \<or> USERNAME_SIZE \<le> sender_length \<or> FRAME_MAX_SIZE - 1 < forwarded_length
         then Some (reply_invalid client_id ''encrypted message sender'' s)
         else do { forwarded \<leftarrow> memcpy (fresh_array (FRAME_MAX_SIZE - 1)) 0 [of_nat sender_length];
                   forwarded \<leftarrow> memcpy forwarded 1 sender_username;
                   encrypted \<leftarrow> read_bytes payload encrypted_offset encrypted_length;
                   forwarded \<leftarrow> memcpy forwarded (1 + sender_length) encrypted;
                   message \<leftarrow> read_bytes forwarded 0 forwarded_length;
                   let recipient_id = find_client_id (registry s) recipient
                   in Some (case server_send s recipient_id FRAME_CIPHERTEXT message of
                              (s1, Inr _) \<Rightarrow> s1
                            | (s1, Inl _) \<Rightarrow>
                                (case format_message BUFFER_SIZE MSG_USER_NOT_FOUND [recipient] of
                                   None \<Rightarrow> s1
                                 | Some error \<Rightarrow> fst (server_text s1 client_id error))) })"

definition chat_ciphertext :: "Server \<Rightarrow> ClientId \<Rightarrow> bytes \<Rightarrow> bytes \<Rightarrow> Server option" where
  "chat_ciphertext s client_id sender_username payload =
     do { name \<leftarrow> (if length payload < CHAT_OVERHEAD then Some None
                    else do { first \<leftarrow> read_bytes payload 0 1;
                              if length payload < CHAT_OVERHEAD + unat (hd first) then Some None
                              else do { bs \<leftarrow> read_bytes payload 1 (unat (hd first)); copy_peer_name bs } });
          case name of
            None \<Rightarrow> Some (reply_invalid client_id ''encrypted message'' s)
          | Some recipient \<Rightarrow>
              do { first \<leftarrow> read_bytes payload 0 1;
                   let recipient_length = unat (hd first);
                       encrypted_offset = 1 + recipient_length;
                       encrypted_length = length payload - encrypted_offset;
                       message_length = encrypted_length - CHAT_NONCE_SIZE - CHAT_PUBLIC_KEY_SIZE - CHAT_MAC_SIZE
                   in if CHAT_MAX_MESSAGE_SIZE < message_length
                      then Some (reply_invalid client_id ''encrypted message too long'' s)
                      else do { claimed_key \<leftarrow> read_bytes payload (encrypted_offset + CHAT_NONCE_SIZE) CHAT_PUBLIC_KEY_SIZE;
                                if get_client_public_key (registry s) client_id \<noteq> Inr claimed_key
                                then Some (reply_invalid client_id ''encrypted message sender key'' s)
                                else chat_forward s client_id sender_username payload encrypted_offset recipient } } }"

text \<open>
  The whole handler: \<open>None\<close> when an access would leave the frame or one of the arrays \<open>recipient\<close>,
  \<open>response\<close> and \<open>forwarded\<close>.
\<close>

definition handle_encrypted_chat :: "Server \<Rightarrow> ClientId \<Rightarrow> bytes \<Rightarrow> bytes \<Rightarrow> Server option" where
  "handle_encrypted_chat s client_id sender_username frame =
     do { first \<leftarrow> read_bytes frame 0 1;
          let type = FrameType_of (hd first); payload = drop 1 frame
          in if type = FRAME_REGISTER_PK then chat_register s client_id payload
             else if type = FRAME_REQUEST_PK then chat_request s client_id payload
             else chat_ciphertext s client_id sender_username payload }"

section \<open>Text commands\<close>

definition MSG_TOO_LONG :: bytes where
  "MSG_TOO_LONG = str ''Message too long (maximum: 65536 bytes)'' @ [10]"

definition handle_command :: "Server \<Rightarrow> ClientId \<Rightarrow> bytes \<Rightarrow> bytes \<Rightarrow> bytes \<Rightarrow> (Server \<times> bool) option" where
  "handle_command s client_id sender_username command original_command =
     do { (pc, buf) \<leftarrow> parse_command command;
          case pc_type pc of
            CMD_PRIVATE_MESSAGE \<Rightarrow>
              do { m \<leftarrow> pc_message pc; message \<leftarrow> string_at buf m;
                   u \<leftarrow> pc_username pc; username \<leftarrow> string_at buf u;
                   Some (if MESSAGE_MAX_SIZE < length message
                         then fst (server_text s client_id MSG_TOO_LONG)
                         else (case format_message FRAME_MAX_SIZE MSG_PRIVATE_MESSAGE [sender_username, message] of
                                 None \<Rightarrow> s
                               | Some text \<Rightarrow> on_registry (\<lambda>reg. send_message_to_client reg username text client_id) s),
                         True) }
          | CMD_BROADCAST_MESSAGE \<Rightarrow>
              do { m \<leftarrow> pc_message pc; message \<leftarrow> string_at buf m;
                   Some (if MESSAGE_MAX_SIZE < length message
                         then fst (server_text s client_id MSG_TOO_LONG)
                         else (case format_message FRAME_MAX_SIZE MSG_BROADCAST [sender_username, message] of
                                 None \<Rightarrow> s
                               | Some text \<Rightarrow> on_registry (\<lambda>reg. send_message_to_all_clients reg text client_id) s),
                         True) }
          | CMD_LIST_USERS \<Rightarrow> Some (on_registry (\<lambda>reg. log_connected_clients reg client_id) s, True)
          | CMD_HELP \<Rightarrow> Some (on_registry (\<lambda>reg. send_help reg client_id) s, True)
          | CMD_QUIT \<Rightarrow> Some (s, False)
          | CMD_INVALID \<Rightarrow> Some (on_registry (\<lambda>reg. send_invalid_command reg client_id original_command) s, True)
          | _ \<Rightarrow> Some (on_registry (\<lambda>reg. send_unknown_command reg client_id original_command) s, True) }"

text \<open>
  The command is copied into two arrays of \<open>FRAME_MAX_SIZE\<close> bytes, one for the parser to work in.
\<close>

definition handle_client_frame :: "Server \<Rightarrow> ClientId \<Rightarrow> bytes \<Rightarrow> bytes \<Rightarrow> (Server \<times> bool) option" where
  "handle_client_frame s client_id username frame =
     do { first \<leftarrow> read_bytes frame 0 1;
          let type = FrameType_of (hd first)
          in if type = FRAME_TEXT
             then let text = drop 1 frame; command_length = length frame - 1
                  in if command_length = 0 \<or> 0 \<in> set text
                     then Some (reply_invalid client_id ''binary text frame'' s, True)
                     else do { command \<leftarrow> memcpy (fresh_array FRAME_MAX_SIZE) 0 text;
                               command \<leftarrow> memcpy command command_length [0];
                               copied \<leftarrow> read_bytes command 0 (command_length + 1);
                               original_command \<leftarrow> memcpy (fresh_array FRAME_MAX_SIZE) 0 copied;
                               original \<leftarrow> string_at original_command 0;
                               handle_command s client_id username command original }
             else if type = FRAME_REGISTER_PK \<or> type = FRAME_REQUEST_PK \<or> type = FRAME_CIPHERTEXT
             then do { s1 \<leftarrow> handle_encrypted_chat s client_id username frame; Some (s1, True) }
             else if type = FRAME_PEER_PK
             then Some (reply_invalid client_id ''unexpected public key reply'' s, True)
             else Some (fst (route_file_frame s client_id username frame), True) }"

section \<open>Welcome and logout\<close>

definition send_welcome_message :: "bytes \<Rightarrow> Tls \<Rightarrow> (unit result \<times> Tls) option" where
  "send_welcome_message username t =
     (let (written, welcome_message) = snprintf BUFFER_SIZE (format MSG_WELCOME [username])
      in if BUFFER_SIZE \<le> written then Some (Inl EMSGSIZE, t)
         else do { (r, t1) \<leftarrow> send_message t welcome_message; Some (map_sum id (\<lambda>_. ()) r, t1) })"

text \<open>
  The end of \<open>handle_client\<close>; \<open>gap\<close> is what other threads do between its two calls. The second
  result is what \<open>remove_client\<close> releases.
\<close>

definition logout_client ::
  "(Server \<Rightarrow> Server) \<Rightarrow> Server \<Rightarrow> nat \<Rightarrow> ClientId \<Rightarrow> Server \<times> (int \<times> OutgoingFrame list \<times> Connection) option" where
  "logout_client gap s client_index client_id =
     (let (reg, released) = remove_client (registry s) (int client_index)
      in (abort_file_routes_for_client (gap (s\<lparr>registry := reg\<rparr>)) client_id, released))"

section \<open>What the chat handler does\<close>

text \<open>The same handler on lists, without the arrays: what it does when no access leaves one.\<close>

definition peer_name :: "bytes \<Rightarrow> bytes option" where
  "peer_name bs =
     (if length bs = 0 \<or> USERNAME_SIZE \<le> length bs then None
      else if list_ex (\<lambda>b. isspace b \<or> iscntrl b) bs then None
      else Some bs)"

definition chat_effect :: "Server \<Rightarrow> ClientId \<Rightarrow> bytes \<Rightarrow> bytes \<Rightarrow> Server" where
  "chat_effect s client_id sender_username frame =
     (let type = FrameType_of (frame ! 0); payload = drop 1 frame; payload_length = length frame - 1
      in if type = FRAME_REGISTER_PK
         then if payload_length \<noteq> CHAT_PUBLIC_KEY_SIZE
              then reply_invalid client_id ''public key registration'' s
              else (case register_client_public_key (registry s) client_id payload of
                      (reg, Inl _) \<Rightarrow> reply_invalid client_id ''public key registration'' (s\<lparr>registry := reg\<rparr>)
                    | (reg, Inr _) \<Rightarrow> s\<lparr>registry := reg\<rparr>)
         else if type = FRAME_REQUEST_PK
         then (case peer_name payload of
                 None \<Rightarrow> reply_invalid client_id ''public key request'' s
               | Some recipient \<Rightarrow>
                   let recipient_id = find_client_id (registry s) recipient;
                       response = of_nat payload_length # payload @
                         (case get_client_public_key (registry s) recipient_id of Inr key \<Rightarrow> take CHAT_PUBLIC_KEY_SIZE key | Inl _ \<Rightarrow> [])
                   in fst (server_send s client_id FRAME_PEER_PK response))
         else case (if payload_length < CHAT_OVERHEAD \<or> payload_length < CHAT_OVERHEAD + unat (payload ! 0) then None
                    else peer_name (take (unat (payload ! 0)) (drop 1 payload))) of
                None \<Rightarrow> reply_invalid client_id ''encrypted message'' s
              | Some recipient \<Rightarrow>
                  let recipient_length = unat (payload ! 0);
                      encrypted_offset = 1 + recipient_length;
                      encrypted_length = payload_length - encrypted_offset;
                      message_length = encrypted_length - CHAT_NONCE_SIZE - CHAT_PUBLIC_KEY_SIZE - CHAT_MAC_SIZE
                  in if CHAT_MAX_MESSAGE_SIZE < message_length
                     then reply_invalid client_id ''encrypted message too long'' s
                     else let claimed_key = take CHAT_PUBLIC_KEY_SIZE (drop (encrypted_offset + CHAT_NONCE_SIZE) payload)
                     in if get_client_public_key (registry s) client_id \<noteq> Inr claimed_key
                     then reply_invalid client_id ''encrypted message sender key'' s
                     else let sender_length = length sender_username;
                              forwarded_length = 1 + sender_length + encrypted_length
                     in if sender_length = 0 \<or> USERNAME_SIZE \<le> sender_length \<or> FRAME_MAX_SIZE - 1 < forwarded_length
                     then reply_invalid client_id ''encrypted message sender'' s
                     else let forwarded = of_nat sender_length # sender_username @ drop encrypted_offset payload;
                              recipient_id = find_client_id (registry s) recipient
                     in case server_send s recipient_id FRAME_CIPHERTEXT forwarded of
                          (s1, Inr _) \<Rightarrow> s1
                        | (s1, Inl _) \<Rightarrow>
                            (case format_message BUFFER_SIZE MSG_USER_NOT_FOUND [recipient] of
                               None \<Rightarrow> s1
                             | Some error \<Rightarrow> fst (server_text s1 client_id error)))"

section \<open>Handlers are runs of the server\<close>

lemma reaches_registry_run:
  "registry_run reg es reg' \<Longrightarrow> (\<And>c. Closed c \<notin> set es) \<Longrightarrow> reaches s (s1\<lparr>registry := reg\<rparr>) \<Longrightarrow> reaches s (s1\<lparr>registry := reg'\<rparr>)"
proof (induction rule: registry_run.induct)
  case (step reg es reg1 fs reg')
  then show ?case using reaches_registry [of s "s1\<lparr>registry := reg\<rparr>" es reg1] by simp
qed

text \<open>A run of the registry that removes no client.\<close>

definition registry_reaches :: "Registry \<Rightarrow> Registry \<Rightarrow> bool" where
  "registry_reaches reg reg' \<longleftrightarrow> (\<exists>es. registry_run reg es reg' \<and> (\<forall>c. Closed c \<notin> set es))"

named_theorems registry_intros \<open>extending a run of the registry by one call\<close>

lemma registry_reaches_refl [registry_intros]: "registry_reaches reg reg"
  unfolding registry_reaches_def using registry_run.stop by fastforce

lemma registry_reaches_step:
  assumes "registry_reaches reg reg1" "registry_step reg1 fs reg'" "\<And>c. Closed c \<notin> set fs"
  shows "registry_reaches reg reg'"
proof -
  obtain es where "registry_run reg es reg1" "\<forall>c. Closed c \<notin> set es" using assms(1) unfolding registry_reaches_def by blast
  then show ?thesis unfolding registry_reaches_def using assms(2,3)
    by (intro exI [of _ "es @ fs"]) (auto intro: registry_run_append registry_run_single)
qed

lemma reaches_on_registry: "reaches s s1 \<Longrightarrow> registry_reaches (registry s1) reg \<Longrightarrow> reaches s (s1\<lparr>registry := reg\<rparr>)"
  unfolding registry_reaches_def using reaches_registry_run [of "registry s1" _ reg s s1] by auto

lemma registry_text [registry_intros]:
  assumes "registry_reaches reg reg1"
  shows "registry_reaches reg (fst (send_text_to_client_id reg1 c m))"
proof -
  have "registry_reaches reg (fst (queue_frame_to_client_id reg1 c FRAME_TEXT m))"
    by (rule registry_reaches_step [OF assms registry_step.queue [OF prod.collapse [symmetric]]]) (auto split: sum.splits)
  then show ?thesis using assms by (simp add: send_text_to_client_id_def send_frame_to_client_id_def)
qed

lemma registry_formatted [registry_intros]:
  "registry_reaches reg reg1 \<Longrightarrow> registry_reaches reg (send_formatted reg1 c out)"
  unfolding send_formatted_def by (auto simp: Let_def snprintf_def intro: registry_intros)

lemma registry_message [registry_intros]:
  "registry_reaches reg reg1 \<Longrightarrow> registry_reaches reg (send_message_to_client reg1 u m c)"
  unfolding send_message_to_client_def by (auto simp: Let_def case_prod_beta intro: registry_intros)

lemma registry_each: "registry_reaches reg reg1 \<Longrightarrow> registry_reaches reg (send_text_to_each reg1 m ids)"
  by (induction ids arbitrary: reg1) (auto intro: registry_intros)

lemma registry_broadcast [registry_intros]:
  "registry_reaches reg reg1 \<Longrightarrow> registry_reaches reg (send_message_to_all_clients reg1 m c)"
  unfolding send_message_to_all_clients_def by (auto intro: registry_each)

lemma registry_replies [registry_intros]:
  "registry_reaches reg reg1 \<Longrightarrow> registry_reaches reg (log_connected_clients reg1 c)"
  "registry_reaches reg reg1 \<Longrightarrow> registry_reaches reg (send_help reg1 c)"
  "registry_reaches reg reg1 \<Longrightarrow> registry_reaches reg (send_unknown_command reg1 c m)"
  "registry_reaches reg reg1 \<Longrightarrow> registry_reaches reg (send_invalid_command reg1 c m)"
  unfolding log_connected_clients_def send_help_def send_unknown_command_def send_invalid_command_def
  by (auto intro: registry_intros)

lemma reaches_reply [reaches_intros]:
  "reaches s s1 \<Longrightarrow> reaches s (s1\<lparr>registry := send_invalid_command (registry s1) c m\<rparr>)"
  by (rule reaches_on_registry) (auto intro: registry_intros)

lemma reaches_if: "(b \<Longrightarrow> reaches s x) \<Longrightarrow> (\<not> b \<Longrightarrow> reaches s y) \<Longrightarrow> reaches s (if b then x else y)"
  by simp

lemma reaches_option:
  "(v = None \<Longrightarrow> reaches s x) \<Longrightarrow> (\<And>w. v = Some w \<Longrightarrow> reaches s (f w)) \<Longrightarrow> reaches s (case v of None \<Rightarrow> x | Some w \<Rightarrow> f w)"
  by (cases v) auto

lemma reaches_result:
  "(\<And>s1 e. p = (s1, Inl e) \<Longrightarrow> reaches s (f s1 e)) \<Longrightarrow> (\<And>s1 v. p = (s1, Inr v) \<Longrightarrow> reaches s (g s1 v)) \<Longrightarrow>
   reaches s (case p of (s1, Inl e) \<Rightarrow> f s1 e | (s1, Inr v) \<Rightarrow> g s1 v)"
  by (cases p; cases "snd p") auto

lemma copy_peer_name_eq: "copy_peer_name bs = Some (peer_name bs)"
  by (auto simp: copy_peer_name_def peer_name_def array_simps)

lemma chat_register_eq:
  "FrameType_of (frame ! 0) = FRAME_REGISTER_PK \<Longrightarrow> chat_register s c (drop 1 frame) = Some (chat_effect s c name frame)"
  by (simp add: chat_register_def chat_effect_def array_simps Let_def)

lemma chat_request_eq:
  assumes "FrameType_of (frame ! 0) = FRAME_REQUEST_PK"
  shows "chat_request s c (drop 1 frame) = Some (chat_effect s c name frame)"
proof (cases "peer_name (drop 1 frame)")
  case None
  then show ?thesis using assms by (simp add: chat_request_def chat_effect_def copy_peer_name_eq Let_def)
next
  case (Some recipient)
  then have len: "length (drop 1 frame) < USERNAME_SIZE" by (simp add: peer_name_def split: if_splits)
  note eqs = chat_request_def chat_effect_def copy_peer_name_eq array_simps Let_def const_simps
  show ?thesis
    by (cases "get_client_public_key (registry s) (find_client_id (registry s) recipient)")
       (use Some assms len in \<open>simp_all add: eqs\<close>)
qed

lemma chat_forward_eq:
  assumes "encrypted_offset \<le> length payload"
  shows "chat_forward s c name payload encrypted_offset recipient = Some
     (let sender_length = length name; forwarded_length = 1 + sender_length + (length payload - encrypted_offset)
      in if sender_length = 0 \<or> USERNAME_SIZE \<le> sender_length \<or> FRAME_MAX_SIZE - 1 < forwarded_length
         then reply_invalid c ''encrypted message sender'' s
         else case server_send s (find_client_id (registry s) recipient) FRAME_CIPHERTEXT
                (of_nat sender_length # name @ drop encrypted_offset payload) of
                (s1, Inr _) \<Rightarrow> s1
              | (s1, Inl _) \<Rightarrow>
                  (case format_message BUFFER_SIZE MSG_USER_NOT_FOUND [recipient] of
                     None \<Rightarrow> s1 | Some error \<Rightarrow> fst (server_text s1 c error)))"
  using assms by (simp add: chat_forward_def array_simps Let_def const_simps del: str_Cons)

lemma chat_ciphertext_eq:
  assumes t: "FrameType_of (frame ! 0) \<noteq> FRAME_REGISTER_PK" "FrameType_of (frame ! 0) \<noteq> FRAME_REQUEST_PK"
  shows "chat_ciphertext s c name (drop 1 frame) = Some (chat_effect s c name frame)"
proof (cases "length frame - 1 < CHAT_OVERHEAD \<or> length frame - 1 < CHAT_OVERHEAD + unat (drop 1 frame ! 0)")
  case True
  then show ?thesis using t
    by (auto simp: chat_ciphertext_def chat_effect_def array_simps Let_def const_simps hd_conv_nth simp del: str_Cons)
next
  case False
  define p where "p = drop 1 frame"
  have len: "length frame - 1 = length p" by (simp add: p_def)
  have long: "CHAT_OVERHEAD + unat (p ! 0) \<le> length p" using False unfolding p_def by (simp only: length_drop) simp
  have first: "read_bytes p 0 1 = Some [p ! 0]" using long by (cases p) (auto simp: read_inside const_simps)
  have key: "read_bytes p (1 + unat (p ! 0) + CHAT_NONCE_SIZE) CHAT_PUBLIC_KEY_SIZE =
      Some (take CHAT_PUBLIC_KEY_SIZE (drop (1 + unat (p ! 0) + CHAT_NONCE_SIZE) p))"
    using long by (intro read_inside) (simp add: const_simps)
  have name: "read_bytes p 1 (unat (p ! 0)) = Some (take (unat (p ! 0)) (drop 1 p))"
    using long by (intro read_inside) (simp add: const_simps)
  have off: "1 + unat (p ! 0) \<le> length p" using long by (simp add: const_simps)
  show ?thesis using False t long
    unfolding p_def [symmetric] chat_ciphertext_def chat_effect_def Let_def len first bind.bind_lunit list.sel key name
    by (simp add: chat_forward_eq [OF off, unfolded Let_def plus_1_eq_Suc] copy_peer_name_eq del: str_Cons split: option.splits)
qed

theorem handle_encrypted_chat_eq:
  assumes "frame \<noteq> []"
  shows "handle_encrypted_chat s c name frame = Some (chat_effect s c name frame)"
proof -
  have "read_bytes frame 0 1 = Some [frame ! 0]" using assms by (cases frame) (auto simp: read_inside)
  then show ?thesis
    using chat_register_eq [of frame s c name] chat_request_eq [of frame s c name] chat_ciphertext_eq [of frame s c name]
    by (simp add: handle_encrypted_chat_def Let_def)
qed

lemma reaches_encrypted [reaches_intros]:
  assumes "reaches s s1"
  shows "reaches s (chat_effect s1 c name frame)"
proof -
  have reg: "reaches s (s1\<lparr>registry := reg\<rparr>)"
    if "register_client_public_key (registry s1) c (drop 1 frame) = (reg, r)" "\<not> length frame - 1 \<noteq> CHAT_PUBLIC_KEY_SIZE" for reg r
    using reaches_registry [OF assms registry_step.register [OF that(1)]] that(2) by simp
  have send: "reaches s s2" if "server_send s1 d type p = (s2, x)" for d type p s2 x
    using reaches_send [OF assms, of d type p] that by simp
  show ?thesis unfolding chat_effect_def Let_def
    by (intro reaches_if reaches_option reaches_result reaches_intros assms reg send; assumption)
qed

lemma handle_command_total:
  assumes "0 \<notin> set text" "reaches s s1"
  shows "\<exists>s2 b. handle_command s1 c name (text @ 0 # post) text = Some (s2, b) \<and> reaches s s2"
proof -
  obtain pc buf where pc: "parse_command (text @ 0 # post) = Some (pc, buf)" "command_view (pc, buf) = Some (parse_spec text)"
    using parse_command_meets_spec [OF assms(1), of post] by blast
  have r: "reaches s (on_registry f s1)" if "\<And>reg. registry_reaches reg (f reg)" for f
    using reaches_on_registry [OF assms(2)] that by blast
  show ?thesis
  proof (cases "pc_type pc")
    case CMD_PRIVATE_MESSAGE
    then obtain m u message user where "pc_message pc = Some m" "string_at buf m = Some message"
        "pc_username pc = Some u" "string_at buf u = Some user"
      using pc by (auto simp: bind_eq_Some_conv)
    then have "handle_command s1 c name (text @ 0 # post) text = Some (if MESSAGE_MAX_SIZE < length message
        then fst (server_text s1 c MSG_TOO_LONG)
        else (case format_message FRAME_MAX_SIZE MSG_PRIVATE_MESSAGE [name, message] of
                None \<Rightarrow> s1 | Some t \<Rightarrow> on_registry (\<lambda>reg. send_message_to_client reg user t c) s1), True)"
      using pc CMD_PRIVATE_MESSAGE by (simp add: handle_command_def)
    then show ?thesis
      by (intro exI conjI) (assumption, intro reaches_if reaches_option reaches_intros assms(2) r registry_intros)
  next
    case CMD_BROADCAST_MESSAGE
    then obtain m message where "pc_message pc = Some m" "string_at buf m = Some message"
      using pc by (auto simp: bind_eq_Some_conv)
    then have "handle_command s1 c name (text @ 0 # post) text = Some (if MESSAGE_MAX_SIZE < length message
        then fst (server_text s1 c MSG_TOO_LONG)
        else (case format_message FRAME_MAX_SIZE MSG_BROADCAST [name, message] of
                None \<Rightarrow> s1 | Some t \<Rightarrow> on_registry (\<lambda>reg. send_message_to_all_clients reg t c) s1), True)"
      using pc CMD_BROADCAST_MESSAGE by (simp add: handle_command_def)
    then show ?thesis
      by (intro exI conjI) (assumption, intro reaches_if reaches_option reaches_intros assms(2) r registry_intros)
  qed (use pc assms(2) in \<open>auto simp: handle_command_def intro!: r registry_intros\<close>)
qed

lemma handle_text_frame:
  assumes t: "FrameType_of (frame ! 0) = FRAME_TEXT" and len: "0 < length frame" "length frame \<le> FRAME_MAX_SIZE"
    and body: "drop 1 frame \<noteq> []" "0 \<notin> set (drop 1 frame)"
  shows "handle_client_frame s c name frame =
    handle_command s c name (drop 1 frame @ 0 # fresh_array (FRAME_MAX_SIZE - length frame)) (drop 1 frame)"
proof -
  obtain b bs where f: "frame = b # bs" using len(1) by (cases frame) auto
  have "string_at (bs @ 0 # post) 0 = Some bs" for post using body by (simp add: f string_at_def)
  then show ?thesis using t len body by (simp add: handle_client_frame_def f array_simps Let_def)
qed

lemma handle_client_frame_total:
  assumes "reaches s s1" and len: "0 < length frame" "length frame \<le> FRAME_MAX_SIZE"
  shows "\<exists>s2 b. handle_client_frame s1 c name frame = Some (s2, b) \<and> reaches s s2"
proof (cases "FrameType_of (frame ! 0) = FRAME_TEXT \<and> \<not> (length (drop 1 frame) = 0 \<or> 0 \<in> set (drop 1 frame))")
  case True
  then show ?thesis using handle_command_total [of "drop 1 frame" s s1 c name] assms
    by (simp add: handle_text_frame)
next
  case False
  have "read_bytes frame 0 1 = Some [frame ! 0]" "frame \<noteq> []" using len(1) by (cases frame; auto simp: read_inside)+
  then show ?thesis using False assms(1)
    by (auto simp: handle_client_frame_def handle_encrypted_chat_eq Let_def simp del: str_Cons intro!: reaches_intros)
qed

end
