(* ===== verification/File_Transfer.thy ===== *)
theory File_Transfer
  imports Chat_Server
begin

text \<open>
  What the file handlers achieve: how each valid frame of a transfer is forwarded, a whole
  transfer from the first frame to the last, the accounting of bytes under any
  interleaving, and what a disconnection does to the transfers of a client.
\<close>

section \<open>Sending with room in the queue\<close>

text \<open>Client \<open>c\<close> is ready, has record \<open>cl\<close> and room for \<open>n\<close> more frames; all calls are granted.\<close>

definition has_room :: "Server \<Rightarrow> ClientId \<Rightarrow> Client \<Rightarrow> nat \<Rightarrow> bool" where
  "has_room s c cl n \<longleftrightarrow>
     server_inv s \<and> os_grants (os (registry s)) \<and> client_of (registry s) c = Some cl \<and> c_ready cl \<and>
     c_outgoing_count cl + n \<le> MAX_OUTGOING_FRAMES"

definition push_frames :: "OutgoingFrame list \<Rightarrow> Client \<Rightarrow> Client" where
  "push_frames fs cl = cl\<lparr>c_outgoing := c_outgoing cl @ fs, c_outgoing_count := c_outgoing_count cl + length fs\<rparr>"

lemma push_frames_simps [simp]:
  "c_outgoing_count (push_frames fs cl) = c_outgoing_count cl + length fs"
  "c_outgoing (push_frames fs cl) = c_outgoing cl @ fs" "c_ready (push_frames fs cl) = c_ready cl"
  "push_frames gs (push_frames fs cl) = push_frames (fs @ gs) cl" "push_frames [] cl = cl"
  by (simp_all add: push_frames_def)

lemma server_send_room:
  assumes room: "has_room s c cl (Suc n)" and f: "is_valid_frame_type type" "length payload \<le> FRAME_MAX_SIZE - 1"
  obtains s' where "server_send s c type payload = (s', Inr ())" "table s' = table s"
    "client_of (registry s') = (client_of (registry s))(c \<mapsto> push_frames [\<lparr>of_type = type, of_payload = payload\<rparr>] cl)"
    "has_room s' c (push_frames [\<lparr>of_type = type, of_payload = payload\<rparr>] cl) n"
proof -
  let ?f = "\<lparr>of_type = type, of_payload = payload\<rparr>"
  have i: "registry_inv (registry s)" and g: "os_grants (os (registry s))" and cl: "client_of (registry s) c = Some cl"
    "c_ready cl" "\<not> MAX_OUTGOING_FRAMES \<le> c_outgoing_count cl"
    using room by (auto simp: has_room_def server_inv_def)
  have c: "c \<noteq> 0" using client_of_ok [OF i cl(1)] by (auto simp: client_ok_def)
  obtain reg where q: "queue_frame_to_client_id (registry s) c type payload = (reg, Inr ())"
      "client_of reg = (client_of (registry s))(c \<mapsto> push_frames [?f] cl)" "os_grants (os reg)"
    using queue_frame_granted [OF i g c f] cl by (auto simp: deliver_def push_frames_def)
  have send: "server_send s c type payload = (s\<lparr>registry := reg\<rparr>, Inr ())"
    using q by (simp add: server_send_def send_frame_to_client_id_def)
  then have "server_inv (s\<lparr>registry := reg\<rparr>)"
    using reaches_inv [OF reaches_send [OF reaches_refl], of s c type payload] room by (simp add: has_room_def)
  then show ?thesis using that [OF send] q room by (simp add: has_room_def)
qed

section \<open>Forwarding the frames of a transfer\<close>

lemma begin_forwarded:
  assumes room: "has_room s target cl (Suc n)" and sender: "sender \<noteq> 0" "file_protocol_valid_peer_name name"
    and b: "file_protocol_decode_begin frame = Inr b" and t: "find_client_id (registry s) (fb_peer b) = target" "target \<noteq> sender"
    and new: "route_map (table s) (sender, fb_transfer_id b) = None" "\<not> routes_full (table s)"
  obtains s' out payload where "handle_file_begin s sender name frame = (s', Inr ())"
    "route_map (table s') = (route_map (table s))((sender, fb_transfer_id b) \<mapsto> Forwarding target out (unat (fb_file_size b)) 0)"
    "client_of (registry s') = (client_of (registry s))
       (target \<mapsto> push_frames [\<lparr>of_type = FRAME_FILE_BEGIN, of_payload = payload\<rparr>] cl)"
    "file_protocol_decode_begin (frame_byte FRAME_FILE_BEGIN # payload) =
       Inr \<lparr>fb_transfer_id = out, fb_file_size = fb_file_size b, fb_peer = name, fb_filename = fb_filename b\<rparr>"
    "\<forall>k target' fsize fwd. route_map (table s) k \<noteq> Some (Forwarding target' out fsize fwd)"
    "has_room s' target (push_frames [\<lparr>of_type = FRAME_FILE_BEGIN, of_payload = payload\<rparr>] cl) n"
proof -
  have inv: "server_inv s" "routes_inv (table s)" "registry_inv (registry s)"
    using room by (simp_all add: has_room_def server_inv_def)
  have t0: "target \<noteq> 0" using room client_of_ok [OF inv(3), of target cl] by (auto simp: has_room_def client_ok_def)
  have len: "get_username_length name \<noteq> None"
    using sender(2) by (auto simp: get_username_length_def file_protocol_valid_peer_name_def Let_def)
  obtain t1 r ep rep where a: "file_routes_add (table s) sender (fb_transfer_id b) target (fb_file_size b) False = (t1, r, ep, rep)"
    by (rule prod_cases4)
  note sp = add_route_spec [OF inv(2) a]
  have sp': "r = FILE_ROUTE_ADD_READY" "ep_target_id ep = target"
    "\<forall>k target' fsize fwd. route_map (table s) k \<noteq> Some (Forwarding target' (ep_outbound_transfer_id ep) fsize fwd)"
    "route_map t1 = (route_map (table s))((sender, fb_transfer_id b) \<mapsto>
       Forwarding target (ep_outbound_transfer_id ep) (unat (fb_file_size b)) 0)"
    using sp new by auto
  let ?out = "ep_outbound_transfer_id ep"
  let ?fwd = "\<lparr>fb_transfer_id = ?out, fb_file_size = fb_file_size b, fb_peer = name, fb_filename = fb_filename b\<rparr>"
  have "file_protocol_valid_filename (fb_filename b)"
    using b by (auto simp: file_protocol_decode_begin_def Let_def split: if_splits)
  then obtain payload where p: "encode_begin ?fwd = Inr payload" and lp: "length payload < 400"
    using sender(2) valid_name_lengths by (fastforce simp: encode_begin_def encode_begin_Inr const_simps)
  have "server_inv (s\<lparr>table := t1\<rparr>)"
    using reaches_inv [OF reaches_table [OF reaches_refl route_step.add [OF a sender(1)]] inv(1)] t0 t(2) by simp
  then have room1: "has_room (s\<lparr>table := t1\<rparr>) target cl (Suc n)" using room by (simp add: has_room_def)
  have "length payload \<le> FRAME_MAX_SIZE - 1" using lp by (simp add: const_simps)
  then obtain s' where s': "server_send (s\<lparr>table := t1\<rparr>) target FRAME_FILE_BEGIN payload = (s', Inr ())" "table s' = t1"
      "client_of (registry s') = (client_of (registry s))(target \<mapsto> push_frames [\<lparr>of_type = FRAME_FILE_BEGIN, of_payload = payload\<rparr>] cl)"
      "has_room s' target (push_frames [\<lparr>of_type = FRAME_FILE_BEGIN, of_payload = payload\<rparr>] cl) n"
    using server_send_room [OF room1, of FRAME_FILE_BEGIN payload] by auto
  have "handle_file_begin s sender name frame = (s', Inr ())"
    using sender len b t t0 a sp' p s' by (simp add: handle_file_begin_def Let_def encode_begin_def)
  then show ?thesis
    using that [of s' ?out payload] sp' s' begin_codec.decode_encode [OF p] by simp
qed

lemma chunk_forwarded:
  assumes room: "has_room s target cl (Suc n)" and sender: "sender \<noteq> 0"
    and b: "file_protocol_decode_chunk frame = Inr ch"
    and rt: "route_map (table s) (sender, fc_transfer_id ch) = Some (Forwarding target out fsize fwd)"
    and fits: "fwd + length (fc_data ch) \<le> fsize"
  obtains s' where "handle_file_chunk s sender frame = (s', Inr ())"
    "route_map (table s') = (route_map (table s))((sender, fc_transfer_id ch) \<mapsto>
       Forwarding target out fsize (fwd + length (fc_data ch)))"
    "client_of (registry s') = (client_of (registry s))
       (target \<mapsto> push_frames [\<lparr>of_type = FRAME_FILE_CHUNK, of_payload = write_u32 out @ fc_data ch\<rparr>] cl)"
    "has_room s' target (push_frames [\<lparr>of_type = FRAME_FILE_CHUNK, of_payload = write_u32 out @ fc_data ch\<rparr>] cl) n"
proof -
  have inv: "server_inv s" "routes_inv (table s)" using room by (simp_all add: has_room_def server_inv_def)
  obtain t1 r ep where a: "file_routes_accept_chunk (table s) sender (fc_transfer_id ch) (length (fc_data ch)) = (t1, r, ep)"
    by (rule prod_cases3)
  note sp = accept_chunk_spec [OF inv(2) a chunk_length_bound [OF b]]
  have sp': "r = FILE_ROUTE_CHUNK_READY" "ep = \<lparr>ep_target_id = target, ep_outbound_transfer_id = out\<rparr>"
    "route_map t1 = (route_map (table s))((sender, fc_transfer_id ch) \<mapsto> Forwarding target out fsize (fwd + length (fc_data ch)))"
    using sp rt fits by auto
  have d: "fc_data ch \<noteq> []" "length (fc_data ch) \<le> FILE_CHUNK_SIZE"
    using b by (auto simp: decode_chunk_Inr encode_chunk_def encode_chunk_Inr)
  then have e: "file_protocol_encode_chunk FILE_CHUNK_PAYLOAD_MAX_SIZE out (fc_data ch) = Inr (write_u32 out @ fc_data ch)"
    by (simp add: encode_chunk_Inr const_simps)
  have "server_inv (s\<lparr>table := t1\<rparr>)"
    using reaches_inv [OF reaches_table [OF reaches_refl route_step.chunk [OF a sender chunk_length_bound [OF b]]] inv(1)] .
  then have room1: "has_room (s\<lparr>table := t1\<rparr>) target cl (Suc n)" using room by (simp add: has_room_def)
  have "length (write_u32 out @ fc_data ch) \<le> FRAME_MAX_SIZE - 1" using d by (simp add: const_simps)
  then obtain s' where "server_send (s\<lparr>table := t1\<rparr>) target FRAME_FILE_CHUNK (write_u32 out @ fc_data ch) = (s', Inr ())"
      "table s' = t1"
      "client_of (registry s') = (client_of (registry s))(target \<mapsto> push_frames [\<lparr>of_type = FRAME_FILE_CHUNK, of_payload = write_u32 out @ fc_data ch\<rparr>] cl)"
      "has_room s' target (push_frames [\<lparr>of_type = FRAME_FILE_CHUNK, of_payload = write_u32 out @ fc_data ch\<rparr>] cl) n"
    using server_send_room [OF room1, of FRAME_FILE_CHUNK "write_u32 out @ fc_data ch"] by auto
  then show ?thesis using that [of s'] b a sp' e by (simp add: handle_file_chunk_def Let_def)
qed

lemma end_forwarded:
  assumes room: "has_room s target cl (Suc n)" and sender: "sender \<noteq> 0"
    and b: "file_protocol_decode_control frame FRAME_FILE_END = Inr x"
    and rt: "route_map (table s) (sender, x) = Some (Forwarding target out fsize fsize)"
  obtains s' where "handle_file_end s sender frame = (s', Inr ())"
    "route_map (table s') = (route_map (table s))((sender, x) := None)"
    "client_of (registry s') = (client_of (registry s))
       (target \<mapsto> push_frames [\<lparr>of_type = FRAME_FILE_END, of_payload = write_u32 out\<rparr>] cl)"
    "has_room s' target (push_frames [\<lparr>of_type = FRAME_FILE_END, of_payload = write_u32 out\<rparr>] cl) n"
proof -
  have inv: "server_inv s" "routes_inv (table s)" using room by (simp_all add: has_room_def server_inv_def)
  obtain t1 r ep where a: "file_routes_finish (table s) sender x True = (t1, r, ep)" by (rule prod_cases3)
  note sp = finish_spec [OF inv(2) a]
  have sp': "r = FILE_ROUTE_FINISH_READY" "ep = \<lparr>ep_target_id = target, ep_outbound_transfer_id = out\<rparr>"
    "route_map t1 = (route_map (table s))((sender, x) := None)"
    using sp rt by auto
  have e: "file_protocol_encode_control FILE_CONTROL_PAYLOAD_SIZE out = Inr (write_u32 out)"
    by (simp add: file_protocol_encode_control_def)
  have "server_inv (s\<lparr>table := t1\<rparr>)"
    using reaches_inv [OF reaches_table [OF reaches_refl route_step.finish [OF a]] inv(1)] .
  then have room1: "has_room (s\<lparr>table := t1\<rparr>) target cl (Suc n)" using room by (simp add: has_room_def)
  have "length (write_u32 out) \<le> FRAME_MAX_SIZE - 1" by (simp add: const_simps)
  then obtain s' where "server_send (s\<lparr>table := t1\<rparr>) target FRAME_FILE_END (write_u32 out) = (s', Inr ())" "table s' = t1"
      "client_of (registry s') = (client_of (registry s))(target \<mapsto> push_frames [\<lparr>of_type = FRAME_FILE_END, of_payload = write_u32 out\<rparr>] cl)"
      "has_room s' target (push_frames [\<lparr>of_type = FRAME_FILE_END, of_payload = write_u32 out\<rparr>] cl) n"
    using server_send_room [OF room1, of FRAME_FILE_END "write_u32 out"] by auto
  then show ?thesis using that [of s'] b a sp' e by (simp add: handle_file_end_def Let_def)
qed

section \<open>A whole transfer\<close>

text \<open>The handler called on each frame in turn; the results of the calls.\<close>

fun route_frames :: "Server \<Rightarrow> ClientId \<Rightarrow> bytes \<Rightarrow> bytes list \<Rightarrow> Server \<times> unit result list" where
  "route_frames s sender name [] = (s, [])"
| "route_frames s sender name (f # fs) =
     (let (s1, r) = route_file_frame s sender name f; (s2, rs) = route_frames s1 sender name fs in (s2, r # rs))"

lemma route_frames_append:
  "route_frames s sender name (fs @ gs) =
     (let (s1, rs) = route_frames s sender name fs; (s2, qs) = route_frames s1 sender name gs in (s2, rs @ qs))"
  by (induction fs arbitrary: s) (auto simp: Let_def case_prod_beta)

definition chunk_frame :: "u32 \<Rightarrow> bytes \<Rightarrow> bytes" where
  "chunk_frame x d = frame_byte FRAME_FILE_CHUNK # write_u32 x @ d"

definition end_frame :: "u32 \<Rightarrow> bytes" where
  "end_frame x = frame_byte FRAME_FILE_END # write_u32 x"

definition chunk_ok :: "bytes \<Rightarrow> bool" where
  "chunk_ok d \<longleftrightarrow> d \<noteq> [] \<and> length d \<le> FILE_CHUNK_SIZE"

lemma decode_chunk_frame: "chunk_ok d \<Longrightarrow> file_protocol_decode_chunk (chunk_frame x d) = Inr \<lparr>fc_transfer_id = x, fc_data = d\<rparr>"
  by (simp add: chunk_ok_def chunk_frame_def decode_chunk_Inr encode_chunk_def encode_chunk_Inr const_simps del: frame_byte.simps)

lemma decode_end_frame: "file_protocol_decode_control (end_frame x) FRAME_FILE_END = Inr x"
  by (simp add: end_frame_def decode_control_Inr del: frame_byte.simps)

lemma route_chunk: "sender \<noteq> 0 \<Longrightarrow> chunk_ok d \<Longrightarrow> route_file_frame s sender name (chunk_frame x d) = handle_file_chunk s sender (chunk_frame x d)"
  by (simp add: route_file_frame_def chunk_frame_def chunk_ok_def FrameType_of_def const_simps)

lemma route_end: "sender \<noteq> 0 \<Longrightarrow> route_file_frame s sender name (end_frame x) = handle_file_end s sender (end_frame x)"
  by (simp add: route_file_frame_def end_frame_def FrameType_of_def const_simps)

lemma route_begin:
  assumes "sender \<noteq> 0" "file_protocol_decode_begin frame = Inr b" "length frame \<le> FRAME_MAX_SIZE"
  shows "route_file_frame s sender name frame = handle_file_begin s sender name frame"
proof -
  have "length frame \<noteq> 0" "frame ! 0 = 0"
    using assms(2) by (auto simp: file_protocol_decode_begin_def Let_def const_simps split: if_splits)
  then show ?thesis using assms(1,3) by (simp add: route_file_frame_def FrameType_of_def)
qed

lemma chunks_forwarded:
  assumes "sender \<noteq> 0"
  shows "has_room s target cl (length ds + n) \<Longrightarrow> list_all chunk_ok ds \<Longrightarrow>
    route_map (table s) (sender, x) = Some (Forwarding target out fsize fwd) \<Longrightarrow> fwd + length (concat ds) \<le> fsize \<Longrightarrow>
    \<exists>s'. route_frames s sender name (map (chunk_frame x) ds) = (s', replicate (length ds) (Inr ())) \<and>
      route_map (table s') = (route_map (table s))((sender, x) \<mapsto> Forwarding target out fsize (fwd + length (concat ds))) \<and>
      client_of (registry s') = (client_of (registry s))
        (target \<mapsto> push_frames (map (\<lambda>d. \<lparr>of_type = FRAME_FILE_CHUNK, of_payload = write_u32 out @ d\<rparr>) ds) cl) \<and>
      has_room s' target (push_frames (map (\<lambda>d. \<lparr>of_type = FRAME_FILE_CHUNK, of_payload = write_u32 out @ d\<rparr>) ds) cl) n"
proof (induction ds arbitrary: s cl fwd)
  case Nil
  then show ?case by (auto simp: has_room_def fun_upd_idem)
next
  case (Cons d ds)
  let ?f = "\<lambda>d. \<lparr>of_type = FRAME_FILE_CHUNK, of_payload = write_u32 out @ d\<rparr>"
  have d: "chunk_ok d" and room: "has_room s target cl (Suc (length ds + n))" using Cons.prems by simp_all
  have "route_map (table s) (sender, fc_transfer_id \<lparr>fc_transfer_id = x, fc_data = d\<rparr>) = Some (Forwarding target out fsize fwd)"
    "fwd + length (fc_data \<lparr>fc_transfer_id = x, fc_data = d\<rparr>) \<le> fsize" using Cons.prems by simp_all
  from chunk_forwarded [OF room assms decode_chunk_frame [OF d] this] obtain s1 where s1:
      "handle_file_chunk s sender (chunk_frame x d) = (s1, Inr ())"
      "route_map (table s1) = (route_map (table s))((sender, x) \<mapsto> Forwarding target out fsize (fwd + length d))"
      "client_of (registry s1) = (client_of (registry s))(target \<mapsto> push_frames [?f d] cl)"
      "has_room s1 target (push_frames [?f d] cl) (length ds + n)"
    by auto
  have "list_all chunk_ok ds" "route_map (table s1) (sender, x) = Some (Forwarding target out fsize (fwd + length d))"
    "fwd + length d + length (concat ds) \<le> fsize" using Cons.prems s1 by simp_all
  from Cons.IH [OF s1(4) this] obtain s' where
      "route_frames s1 sender name (map (chunk_frame x) ds) = (s', replicate (length ds) (Inr ()))"
      "route_map (table s') = (route_map (table s1))((sender, x) \<mapsto> Forwarding target out fsize (fwd + length d + length (concat ds)))"
      "client_of (registry s') = (client_of (registry s1))(target \<mapsto> push_frames (map ?f ds) (push_frames [?f d] cl))"
      "has_room s' target (push_frames (map ?f ds) (push_frames [?f d] cl)) n"
    by blast
  then show ?case using s1 route_chunk [OF assms d] by (auto simp: Let_def add.assoc)
qed

lemma transfer_forwarded:
  assumes room: "has_room s target cl (length ds + 2)" and sender: "sender \<noteq> 0" "file_protocol_valid_peer_name name"
    and b: "file_protocol_decode_begin frame = Inr b" "length frame \<le> FRAME_MAX_SIZE"
    and t: "find_client_id (registry s) (fb_peer b) = target" "target \<noteq> sender"
    and new: "route_map (table s) (sender, fb_transfer_id b) = None" "\<not> routes_full (table s)"
    and ds: "list_all chunk_ok ds" "length (concat ds) = unat (fb_file_size b)"
  shows "\<exists>s' out payload.
    route_frames s sender name (frame # map (chunk_frame (fb_transfer_id b)) ds @ [end_frame (fb_transfer_id b)]) =
      (s', replicate (length ds + 2) (Inr ())) \<and>
    client_of (registry s') = (client_of (registry s))(target \<mapsto> push_frames
      (\<lparr>of_type = FRAME_FILE_BEGIN, of_payload = payload\<rparr> #
       map (\<lambda>d. \<lparr>of_type = FRAME_FILE_CHUNK, of_payload = write_u32 out @ d\<rparr>) ds @
       [\<lparr>of_type = FRAME_FILE_END, of_payload = write_u32 out\<rparr>]) cl) \<and>
    file_protocol_decode_begin (frame_byte FRAME_FILE_BEGIN # payload) =
      Inr \<lparr>fb_transfer_id = out, fb_file_size = fb_file_size b, fb_peer = name, fb_filename = fb_filename b\<rparr> \<and>
    route_map (table s') = route_map (table s)"
proof -
  let ?x = "fb_transfer_id b"
  have room1: "has_room s target cl (Suc (length ds + 1))" using room by simp
  obtain s1 out payload where s1: "handle_file_begin s sender name frame = (s1, Inr ())"
    "route_map (table s1) = (route_map (table s))((sender, ?x) \<mapsto> Forwarding target out (unat (fb_file_size b)) 0)"
    "client_of (registry s1) = (client_of (registry s))
       (target \<mapsto> push_frames [\<lparr>of_type = FRAME_FILE_BEGIN, of_payload = payload\<rparr>] cl)"
    "file_protocol_decode_begin (frame_byte FRAME_FILE_BEGIN # payload) =
       Inr \<lparr>fb_transfer_id = out, fb_file_size = fb_file_size b, fb_peer = name, fb_filename = fb_filename b\<rparr>"
    "has_room s1 target (push_frames [\<lparr>of_type = FRAME_FILE_BEGIN, of_payload = payload\<rparr>] cl) (length ds + 1)"
    by (rule begin_forwarded [OF room1 sender b(1) t new]) blast
  have r1: "route_map (table s1) (sender, ?x) = Some (Forwarding target out (unat (fb_file_size b)) 0)" using s1(2) by simp
  obtain s2 where s2: "route_frames s1 sender name (map (chunk_frame ?x) ds) = (s2, replicate (length ds) (Inr ()))"
      "route_map (table s2) = (route_map (table s1))((sender, ?x) \<mapsto> Forwarding target out (unat (fb_file_size b)) (unat (fb_file_size b)))"
      "client_of (registry s2) = (client_of (registry s1))(target \<mapsto> push_frames (\<lparr>of_type = FRAME_FILE_BEGIN, of_payload = payload\<rparr> #
        map (\<lambda>d. \<lparr>of_type = FRAME_FILE_CHUNK, of_payload = write_u32 out @ d\<rparr>) ds) cl)"
      "has_room s2 target (push_frames (\<lparr>of_type = FRAME_FILE_BEGIN, of_payload = payload\<rparr> #
        map (\<lambda>d. \<lparr>of_type = FRAME_FILE_CHUNK, of_payload = write_u32 out @ d\<rparr>) ds) cl) (Suc 0)"
    using chunks_forwarded [OF sender(1) s1(5) ds(1) r1] ds(2) by auto
  have r2: "route_map (table s2) (sender, ?x) = Some (Forwarding target out (unat (fb_file_size b)) (unat (fb_file_size b)))"
    using s2(2) by simp
  obtain s3 where s3: "handle_file_end s2 sender (end_frame ?x) = (s3, Inr ())"
    "route_map (table s3) = (route_map (table s2))((sender, ?x) := None)"
    "client_of (registry s3) = (client_of (registry s2))(target \<mapsto> push_frames (\<lparr>of_type = FRAME_FILE_BEGIN, of_payload = payload\<rparr> #
        map (\<lambda>d. \<lparr>of_type = FRAME_FILE_CHUNK, of_payload = write_u32 out @ d\<rparr>) ds @
        [\<lparr>of_type = FRAME_FILE_END, of_payload = write_u32 out\<rparr>]) cl)"
    using end_forwarded [OF s2(4) sender(1) decode_end_frame r2] by auto
  have "route_frames s sender name (frame # map (chunk_frame ?x) ds @ [end_frame ?x]) = (s3, replicate (length ds + 2) (Inr ()))"
    using s1(1) s2(1) s3(1) route_begin [OF sender(1) b] route_end [OF sender(1)]
    by (simp add: route_frames_append Let_def replicate_append_same)
  moreover have "route_map (table s3) = route_map (table s)"
    using s1(2) s2(2) s3(2) new(1) by (simp add: fun_upd_idem)
  ultimately show ?thesis using s1(3,4) s2(3) s3(3) by auto
qed

end
