(* ===== verification/Relay.thy ===== *)
theory Relay
  imports File_Transfer
begin

text \<open>
  Statements about what the server adds to the queues of its clients: the accounting of file
  transfers under any interleaving, and which frames a handler may send to whom.
\<close>

section \<open>Accounting of transfers\<close>

text \<open>
  Announced and accepted bytes of the transfer a key stands for, read off the history: set by
  the start of a transfer, increased by every accepted chunk, gone at its completion.
\<close>

fun tally_event :: "transfer_key \<Rightarrow> server_event \<Rightarrow> (nat \<times> nat) option \<Rightarrow> (nat \<times> nat) option" where
  "tally_event k (Route (Began k' n)) acc = (if k' = k then Some (n, 0) else acc)"
| "tally_event k (Route (Accepted k' n)) acc = (if k' = k then map_option (\<lambda>(m, f). (m, f + n)) acc else acc)"
| "tally_event k (Route (Completed k')) acc = (if k' = k then None else acc)"
| "tally_event k (Reg _) acc = acc"

definition tally :: "transfer_key \<Rightarrow> server_event list \<Rightarrow> (nat \<times> nat) option" where
  "tally k es = fold (tally_event k) es None"

lemma tally_append: "tally k (es @ fs) = fold (tally_event k) fs (tally k es)"
  by (simp add: tally_def)

lemma fold_tally_reg [simp]: "fold (tally_event k) (map Reg es) acc = acc"
  by (induction es) simp_all

definition tally_inv :: "server_event list \<Rightarrow> Server \<Rightarrow> bool" where
  "tally_inv es s \<longleftrightarrow>
     (\<forall>k target out m f. route_map (table s) k = Some (Forwarding target out m f) \<longrightarrow> tally k es = Some (m, f))"

lemma fold_tally_other:
  assumes "\<And>e. e \<in> set es \<Longrightarrow> event_key e \<noteq> k"
  shows "fold (tally_event k) (map Route es) acc = acc"
  using assms
proof (induction es)
  case (Cons e es)
  then have "event_key e \<noteq> k" by simp
  then have "tally_event k (Route e) acc = acc" by (cases e) auto
  then show ?case using Cons by simp
qed simp

lemma key_step_tally:
  assumes "key_step k v es v'" and "\<And>target out m f. v = Some (Forwarding target out m f) \<Longrightarrow> acc = Some (m, f)"
  shows "v' = Some (Forwarding target out m f) \<Longrightarrow> fold (tally_event k) (map Route es) acc = Some (m, f)"
  using assms by (induction rule: key_step.induct) (auto simp: fold_tally_other)

lemma key_step_completed:
  assumes "key_step k v es v'" "Completed k \<in> set es"
  shows "es = [Completed k] \<and> (\<exists>target out m. v = Some (Forwarding target out m m))"
  using assms by (induction rule: key_step.induct) fastforce+

lemma server_step_tally:
  assumes "server_step s fs s'" "server_inv s" "tally_inv es s"
  shows "tally_inv (es @ fs) s'"
  using assms(1)
proof cases
  case (registry gs reg)
  then show ?thesis using assms(3) by (simp add: tally_inv_def tally_append)
next
  case (routes gs t)
  have ks: "key_step k (route_map (table s) k) gs (route_map t k)" for k
    using route_step_sound [OF routes(3)] assms(2) unfolding server_inv_def by blast
  show ?thesis unfolding tally_inv_def
  proof (intro allI impI)
    fix k target out m f
    assume "route_map (table s') k = Some (Forwarding target out m f)"
    then have v: "route_map t k = Some (Forwarding target out m f)" using routes(2) by simp
    have "tally k es = Some (m', f')" if "route_map (table s) k = Some (Forwarding target' out' m' f')" for target' out' m' f'
      using assms(3) that unfolding tally_inv_def by blast
    from key_step_tally [OF ks this v] show "tally k (es @ fs) = Some (m, f)"
      by (simp add: tally_append routes(1))
  qed
qed

lemma server_run_tally:
  "server_run s es s' \<Longrightarrow> server_inv s \<Longrightarrow> tally_inv [] s \<Longrightarrow>
   tally_inv es s' \<and> (\<forall>es1 es2 k. es = es1 @ Route (Completed k) # es2 \<longrightarrow> (\<exists>n. tally k es1 = Some (n, n)))"
proof (induction rule: server_run.induct)
  case (step s es s1 fs s')
  then have inv: "server_inv s1" and t: "tally_inv es s1"
    and ih: "\<And>es1 es2 k. es = es1 @ Route (Completed k) # es2 \<Longrightarrow> \<exists>n. tally k es1 = Some (n, n)"
    using server_run_inv by blast+
  have "\<exists>n. tally k es1 = Some (n, n)" if split: "es @ fs = es1 @ Route (Completed k) # es2" for es1 es2 k
  proof -
    consider us where "es = es1 @ Route (Completed k) # us" | gs where "es1 = es @ gs" "fs = gs @ Route (Completed k) # es2"
      using split by (auto simp: append_eq_append_conv2 append_eq_Cons_conv)
    then show ?thesis
    proof cases
      case 1
      then show ?thesis using ih by blast
    next
      case gs: (2 gs)
    from step.hyps(2) show ?thesis
    proof cases
      case (registry hs reg)
      then have "Route (Completed k) \<in> set (map Reg hs)" using gs(2) by (metis in_set_conv_decomp)
      then show ?thesis by auto
    next
      case (routes hs t)
      have ks: "key_step k (route_map (table s1) k) hs (route_map t k)"
        using route_step_sound [OF routes(3)] inv unfolding server_inv_def by blast
      have "Route (Completed k) \<in> set (map Route hs)" using gs(2) routes(1) by simp
      then have "Completed k \<in> set hs" by auto
      from key_step_completed [OF ks this] obtain target out m where
        "hs = [Completed k]" "route_map (table s1) k = Some (Forwarding target out m m)" by blast
      moreover from this(1) have "gs = []" using gs(2) routes(1) by (cases gs) auto
      ultimately show ?thesis using t gs(1) unfolding tally_inv_def by auto (metis surj_pair)
      qed
    qed
  qed
  then show ?case using server_step_tally [OF step.hyps(2) inv t] by blast
qed simp

section \<open>What a call adds to the queues\<close>

text \<open>
  \<open>adds P s s'\<close>: every queue of \<open>s'\<close> is that of \<open>s\<close> with frames appended, all satisfying \<open>P\<close>
  with their recipient.
\<close>

definition adds :: "(ClientId \<Rightarrow> OutgoingFrame \<Rightarrow> bool) \<Rightarrow> Server \<Rightarrow> Server \<Rightarrow> bool" where
  "adds P s s' \<longleftrightarrow>
     (\<forall>r. case (outboxes (registry s) r, outboxes (registry s') r) of
            (None, None) \<Rightarrow> True
          | (Some xs, Some ys) \<Rightarrow> \<exists>zs. ys = xs @ zs \<and> (\<forall>f\<in>set zs. P r f)
          | _ \<Rightarrow> False)"

lemma adds_refl: "outboxes (registry s') = outboxes (registry s) \<Longrightarrow> adds P s s'"
  by (auto simp: adds_def split: option.splits)

lemma adds_trans:
  assumes "adds P s s1" "adds P s1 s'"
  shows "adds P s s'"
  unfolding adds_def
proof
  fix r
  show "case (outboxes (registry s) r, outboxes (registry s') r) of
      (None, None) \<Rightarrow> True | (Some xs, Some ys) \<Rightarrow> \<exists>zs. ys = xs @ zs \<and> (\<forall>f\<in>set zs. P r f) | _ \<Rightarrow> False"
    using assms [unfolded adds_def, rule_format, of r] by (fastforce split: option.splits)
qed

lemma adds_send:
  assumes "server_inv s" "P c \<lparr>of_type = type, of_payload = payload\<rparr>"
  shows "adds P s (fst (server_send s c type payload))"
proof -
  obtain reg r where q: "queue_frame_to_client_id (registry s) c type payload = (reg, r)" by fastforce
  note m = mailbox_step [OF registry_step.queue [OF q]]
  show ?thesis
  proof (cases r)
    case (Inl e)
    then show ?thesis using m assms(1) q
      by (intro adds_refl) (simp add: server_send_def send_frame_to_client_id_def server_inv_def)
  next
    case (Inr u)
    then obtain xs where "outboxes (registry s) c = Some xs"
        "outboxes reg = (outboxes (registry s))(c \<mapsto> xs @ [\<lparr>of_type = type, of_payload = payload\<rparr>])"
      using m assms(1) by (auto simp: server_inv_def split: option.splits)
    then show ?thesis using q assms(2)
      by (auto simp: adds_def server_send_def send_frame_to_client_id_def split: option.splits)
  qed
qed

lemma adds_text:
  assumes "server_inv s" "P c (text_frame message)"
  shows "adds P s (fst (server_text s c message))"
proof (cases "message = []")
  case True
  then show ?thesis by (intro adds_refl) (simp add: server_text_def send_text_to_client_id_def)
next
  case False
  then have "server_text s c message = server_send s c FRAME_TEXT message"
    by (simp add: server_text_def server_send_def send_text_to_client_id_def)
  then show ?thesis using adds_send [of s P c FRAME_TEXT message] assms by simp
qed

text \<open>Answers that are text frames to the client itself.\<close>

lemma adds_invalid:
  assumes "server_inv s" "\<And>m. P c (text_frame m)"
  shows "adds P s (s\<lparr>registry := send_invalid_command (registry s) c m\<rparr>)"
proof -
  have "\<exists>t. s\<lparr>registry := send_invalid_command (registry s) c m\<rparr> = fst (server_text s c t) \<or>
      s\<lparr>registry := send_invalid_command (registry s) c m\<rparr> = s"
    by (auto simp: send_invalid_command_def send_formatted_def server_text_def Let_def case_prod_beta snprintf_def)
  then show ?thesis using adds_text [of s P c] adds_refl [of s s P] assms by (metis)
qed

lemma outboxes_register:
  assumes "registry_inv reg" "register_client_public_key reg c key = (reg', r)" "CHAT_PUBLIC_KEY_SIZE \<le> length key"
  shows "outboxes reg' = outboxes reg"
  using mailbox_step [OF registry_step.register [OF assms(2,3)] assms(1)] by simp

text \<open>
  The only frames the chat handler sends: text answers to the sender, key replies to the
  sender, and ciphertexts that carry the sender's login name and registered key, to the
  recipient the sender named.
\<close>

definition chat_frame_ok :: "Server \<Rightarrow> ClientId \<Rightarrow> bytes \<Rightarrow> bytes \<Rightarrow> ClientId \<Rightarrow> OutgoingFrame \<Rightarrow> bool" where
  "chat_frame_ok s c name frame r f \<longleftrightarrow>
     r = c \<and> of_type f = FRAME_TEXT \<or>
     r = c \<and> of_type f = FRAME_PEER_PK \<and>
       (\<exists>peer. frame = frame_byte FRAME_REQUEST_PK # peer \<and>
          of_payload f = of_nat (length peer) # peer @
            (case get_client_public_key (registry s) (find_client_id (registry s) peer) of Inr key \<Rightarrow> key | Inl _ \<Rightarrow> [])) \<or>
     of_type f = FRAME_CIPHERTEXT \<and>
       (\<exists>peer body. frame = frame_byte FRAME_CIPHERTEXT # of_nat (length peer) # peer @ body \<and>
          find_client_id (registry s) peer = r \<and> of_payload f = of_nat (length name) # name @ body \<and>
          get_client_public_key (registry s) c = Inr (take CHAT_PUBLIC_KEY_SIZE (drop CHAT_NONCE_SIZE body)))"

lemma adds_if: "(b \<Longrightarrow> adds P s x) \<Longrightarrow> (\<not> b \<Longrightarrow> adds P s y) \<Longrightarrow> adds P s (if b then x else y)"
  by simp

lemma adds_option:
  "(v = None \<Longrightarrow> adds P s x) \<Longrightarrow> (\<And>w. v = Some w \<Longrightarrow> adds P s (f w)) \<Longrightarrow> adds P s (case v of None \<Rightarrow> x | Some w \<Rightarrow> f w)"
  by (cases v) auto

lemma adds_result:
  "(\<And>s1 e. p = (s1, Inl e) \<Longrightarrow> adds P s (f s1 e)) \<Longrightarrow> (\<And>s1 v. p = (s1, Inr v) \<Longrightarrow> adds P s (g s1 v)) \<Longrightarrow>
   adds P s (case p of (s1, Inl e) \<Rightarrow> f s1 e | (s1, Inr v) \<Rightarrow> g s1 v)"
  by (cases p; cases "snd p") auto

lemma server_send_inv: "server_inv s \<Longrightarrow> server_inv (fst (server_send s c type payload))"
  by (rule reaches_inv [OF reaches_send [OF reaches_refl]])

text \<open>The shape of a ciphertext frame that passes the length checks.\<close>

lemma ciphertext_shape:
  assumes "frame \<noteq> []" "\<not> (length frame - 1 < CHAT_OVERHEAD \<or> length frame - 1 < CHAT_OVERHEAD + unat (drop 1 frame ! 0))"
  defines "n \<equiv> unat (drop 1 frame ! 0)"
  shows "frame = frame ! 0 # of_nat (length (take n (drop 1 (drop 1 frame)))) # take n (drop 1 (drop 1 frame)) @ drop (1 + n) (drop 1 frame)"
proof -
  obtain a b bs where f: "frame = a # b # bs"
    using assms(1,2) by (cases frame; cases "tl frame") (auto simp: const_simps)
  have "n \<le> length bs" using assms(2) by (simp add: f n_def const_simps)
  then have "length (take n bs) = n" by simp
  then have "of_nat (length (take n bs)) = b" by (simp add: n_def f)
  then show ?thesis by (simp add: f)
qed

text \<open>The answer to a request for a key, and the ciphertext passed on, are frames the handler may queue.\<close>

lemma adds_key_reply:
  assumes inv: "server_inv s" and ne: "frame \<noteq> []"
    and peer: "peer_name (drop 1 frame) = Some peer" and ty: "FrameType_of (frame ! 0) = FRAME_REQUEST_PK"
  shows "adds (chat_frame_ok s c name frame) s (fst (server_send s c FRAME_PEER_PK (of_nat (length frame - 1) # drop 1 frame @
      (case get_client_public_key (registry s) (find_client_id (registry s) peer) of
         Inr key \<Rightarrow> take CHAT_PUBLIC_KEY_SIZE key | Inl _ \<Rightarrow> []))))"
proof (rule adds_send [OF inv])
  have "take CHAT_PUBLIC_KEY_SIZE key = key" if "get_client_public_key (registry s) d = Inr key" for d key
    using public_key_size [OF _ that] inv by (simp add: server_inv_def)
  then have whole: "(case get_client_public_key (registry s) d of Inr key \<Rightarrow> take CHAT_PUBLIC_KEY_SIZE key | Inl _ \<Rightarrow> []) =
      (case get_client_public_key (registry s) d of Inr key \<Rightarrow> key | Inl _ \<Rightarrow> [])" for d
    by (simp split: sum.splits)
  have "peer = drop 1 frame" using peer by (auto simp: peer_name_def split: if_splits)
  moreover have "frame ! 0 = frame_byte FRAME_REQUEST_PK" using ty by (metis frame_byte_FrameType_of)
  then have "frame = frame_byte FRAME_REQUEST_PK # drop 1 frame" using ne by (cases frame) auto
  ultimately show "chat_frame_ok s c name frame c \<lparr>of_type = FRAME_PEER_PK, of_payload = of_nat (length frame - 1) # drop 1 frame @
    (case get_client_public_key (registry s) (find_client_id (registry s) peer) of
       Inr key \<Rightarrow> take CHAT_PUBLIC_KEY_SIZE key | Inl _ \<Rightarrow> [])\<rparr>"
    unfolding chat_frame_ok_def whole by (intro disjI2 disjI1 conjI exI [of _ "drop 1 frame"]) simp_all
qed

lemma adds_ciphertext:
  assumes inv: "server_inv s" and ne: "frame \<noteq> []" and ty: "FrameType_of (frame ! 0) = FRAME_CIPHERTEXT"
  defines "n \<equiv> unat (drop 1 frame ! 0)"
  assumes pk: "(if length frame - 1 < CHAT_OVERHEAD \<or> length frame - 1 < CHAT_OVERHEAD + n then None
      else peer_name (take n (drop 1 (drop 1 frame)))) = Some peer"
    and key: "get_client_public_key (registry s) c = Inr (take CHAT_PUBLIC_KEY_SIZE (drop (1 + n + CHAT_NONCE_SIZE) (drop 1 frame)))"
    and sent: "server_send s (find_client_id (registry s) peer) FRAME_CIPHERTEXT
      (of_nat (length name) # name @ drop (1 + n) (drop 1 frame)) = (s1, x)"
  shows "adds (chat_frame_ok s c name frame) s s1"
proof -
  have t: "frame ! 0 = frame_byte FRAME_CIPHERTEXT" using ty by (metis frame_byte_FrameType_of)
  have l: "\<not> (length frame - 1 < CHAT_OVERHEAD \<or> length frame - 1 < CHAT_OVERHEAD + n)" using pk by (auto split: if_splits)
  have peer: "peer = take n (drop 1 (drop 1 frame))" using pk by (auto simp: peer_name_def split: if_splits)
  have "frame = frame_byte FRAME_CIPHERTEXT # of_nat (length peer) # peer @ drop (1 + n) (drop 1 frame)"
    using ciphertext_shape [OF ne l [unfolded n_def]] unfolding peer t n_def .
  moreover have "get_client_public_key (registry s) c = Inr (take CHAT_PUBLIC_KEY_SIZE (drop CHAT_NONCE_SIZE (drop (1 + n) (drop 1 frame))))"
    using key by (simp add: add.commute)
  ultimately have "chat_frame_ok s c name frame (find_client_id (registry s) peer)
      \<lparr>of_type = FRAME_CIPHERTEXT, of_payload = of_nat (length name) # name @ drop (1 + n) (drop 1 frame)\<rparr>"
    unfolding chat_frame_ok_def by (intro disjI2 conjI exI [of _ peer] exI [of _ "drop (1 + n) (drop 1 frame)"]) simp_all
  then show ?thesis using adds_send [where P = "chat_frame_ok s c name frame", OF inv] sent by (metis fst_conv)
qed

lemma chat_adds:
  assumes inv: "server_inv s" and wf: "frame_wf frame"
    and ty: "FrameType_of (frame ! 0) \<in> {FRAME_REGISTER_PK, FRAME_REQUEST_PK, FRAME_CIPHERTEXT}"
  shows "adds (chat_frame_ok s c name frame) s (chat_effect s c name frame)"
proof -
  let ?P = "chat_frame_ok s c name frame"
  have plain: "?P c (text_frame m)" for m by (simp add: chat_frame_ok_def)
  have ne: "frame \<noteq> []" using wf by (simp add: frame_wf_def)
  have inv1: "server_inv s1" if "server_send s d type p = (s1, x)" for d type p s1 x
    using server_send_inv [OF inv, of d type p] that by simp
  have reg: "adds ?P s (s\<lparr>registry := reg\<rparr>)" "server_inv (s\<lparr>registry := reg\<rparr>)"
    if "register_client_public_key (registry s) c (drop 1 frame) = (reg, r)" "\<not> length frame - 1 \<noteq> CHAT_PUBLIC_KEY_SIZE" for reg r
  proof -
    have l: "CHAT_PUBLIC_KEY_SIZE \<le> length (drop 1 frame)" using that(2) by simp
    show "adds ?P s (s\<lparr>registry := reg\<rparr>)"
      using outboxes_register [OF _ that(1) l] inv by (intro adds_refl) (simp add: server_inv_def)
    show "server_inv (s\<lparr>registry := reg\<rparr>)"
      using server_step_inv [OF server_step.registry [OF registry_step.register [OF that(1) l]] inv] .
  qed
  note reply = adds_key_reply [OF inv ne]
  have relayed: "adds ?P s s1"
    if "server_send s (find_client_id (registry s) peer) FRAME_CIPHERTEXT
        (of_nat (length name) # name @ drop (1 + unat (drop 1 frame ! 0)) (drop 1 frame)) = (s1, x)"
      "(if length frame - 1 < CHAT_OVERHEAD \<or> length frame - 1 < CHAT_OVERHEAD + unat (drop 1 frame ! 0) then None
        else peer_name (take (unat (drop 1 frame ! 0)) (drop 1 (drop 1 frame)))) = Some peer"
      "\<not> get_client_public_key (registry s) c \<noteq> Inr (take CHAT_PUBLIC_KEY_SIZE
        (drop (1 + unat (drop 1 frame ! 0) + CHAT_NONCE_SIZE) (drop 1 frame)))"
      "\<not> FrameType_of (frame ! 0) = FRAME_REGISTER_PK" "\<not> FrameType_of (frame ! 0) = FRAME_REQUEST_PK" for peer s1 x
    using adds_ciphertext [OF inv ne _ that(2) _ that(1)] that(3-5) ty by simp
  note invalid = adds_invalid [where P = ?P and c = c, OF _ plain] and answer = adds_text [where P = ?P and c = c, OF _ plain]
  show ?thesis
    unfolding chat_effect_def Let_def
    by (intro adds_if adds_option adds_result)
       (rule invalid [OF inv] reply reg(1) adds_trans [OF reg(1) invalid [OF reg(2)]]
          relayed adds_trans [OF relayed answer [OF inv1]]; assumption)+
qed

section \<open>Logout\<close>

lemma table_sends [simp]:
  "table (fst (server_send s c type payload)) = table s" "table (fst (server_text s c message)) = table s"
  "table (fst (send_receiver_error s ep)) = table s" "table (fst (notify_sender s c message)) = table s"
  by (simp_all add: server_send_def server_text_def send_receiver_error_def notify_sender_def case_prod_beta split: sum.splits)

lemma table_actions [simp]: "table (perform_abort_actions s as) = table s"
  by (induction as arbitrary: s) simp_all

lemma adds_error: "server_inv s \<Longrightarrow> adds (\<lambda>_ _. True) s (fst (send_receiver_error s ep))"
  by (auto simp: send_receiver_error_def intro: adds_send adds_refl split: sum.splits)

lemma adds_notify: "server_inv s \<Longrightarrow> adds (\<lambda>_ _. True) s (fst (notify_sender s c message))"
  by (auto simp: notify_sender_def intro: adds_text adds_refl)

lemma adds_actions: "server_inv s \<Longrightarrow> adds (\<lambda>_ _. True) s (perform_abort_actions s as)"
proof (induction as arbitrary: s)
  case Nil
  then show ?case by (simp add: adds_refl)
next
  case (Cons a as)
  have r: "server_inv (fst (send_receiver_error s ep))" "server_inv (fst (notify_sender s c m))" for ep c m
    using reaches_inv [OF _ Cons.prems] reaches_intros by blast+
  show ?case unfolding perform_abort_actions.simps
    by (rule adds_trans [OF _ Cons.IH]) (use r adds_error [OF Cons.prems] adds_notify [OF Cons.prems] in \<open>simp_all del: str_Cons\<close>)
qed

lemma adds_None: "adds P s s' \<Longrightarrow> client_of (registry s) c = None \<Longrightarrow> client_of (registry s') c = None"
  unfolding adds_def outboxes_client_of by (drule spec [of _ c]) (auto split: option.splits)

lemma remove_client_gone:
  assumes inv: "registry_inv reg" and cl: "client_of reg c = Some cl" "i < MAX_CLIENTS" "clients reg ! i = cl"
  shows "client_of (fst (remove_client reg (int i))) c = None"
proof -
  have i: "i < length (clients reg)" "c_active (clients reg ! i)" "c_id (clients reg ! i) = c"
    using inv client_of_ok [OF inv cl(1)] cl by (auto simp: registry_inv_def)
  then have "fst (remove_client reg (int i)) = reg\<lparr>clients := (clients reg)[i := blank_client]\<rparr>"
    using cl(2) by (simp add: remove_client_eq Let_def)
  then show ?thesis using by_id.lookup_clear [OF registry_unique [OF inv] i(1,2) by_id.blank_inactive] i
    by (simp add: client_of_def)
qed

text \<open>
  What other threads do to a state that the client \<open>c\<close> has left: it stays well formed, and the
  identifier does not come back.
\<close>

definition keeps_gone :: "ClientId \<Rightarrow> (Server \<Rightarrow> Server) \<Rightarrow> bool" where
  "keeps_gone c f \<longleftrightarrow>
     (\<forall>s. server_inv s \<and> c < next_client_id (registry s) \<and> client_of (registry s) c = None \<longrightarrow>
        server_inv (f s) \<and> client_of (registry (f s)) c = None)"

lemma leave_effect:
  assumes inv: "server_inv s" and cl: "client_of (registry s) c = Some cl" "i < MAX_CLIENTS" "clients (registry s) ! i = cl"
  shows "server_inv (s\<lparr>registry := fst (remove_client (registry s) (int i))\<rparr>)"
    "client_of (fst (remove_client (registry s) (int i))) c = None"
    "next_client_id (fst (remove_client (registry s) (int i))) = next_client_id (registry s)"
proof -
  show "server_inv (s\<lparr>registry := fst (remove_client (registry s) (int i))\<rparr>)"
    by (rule server_step_inv [OF server_step.registry [OF registry_step.remove [OF prod.collapse [symmetric]]] inv])
  show "client_of (fst (remove_client (registry s) (int i))) c = None"
    using remove_client_gone [OF _ cl] inv by (simp add: server_inv_def)
qed (simp add: remove_client_eq Let_def)

lemma logout_effect:
  fixes gap s i
  defines "s1 \<equiv> gap (s\<lparr>registry := fst (remove_client (registry s) (int i))\<rparr>)"
  assumes inv: "server_inv s" and cl: "client_of (registry s) c = Some cl" "i < MAX_CLIENTS" "clients (registry s) ! i = cl"
    and gap: "keeps_gone c gap"
  shows "client_of (registry (fst (logout_client gap s i c))) c = None" "server_inv (fst (logout_client gap s i c))"
    "snd (logout_client gap s i c) = Some (c_wake_fd cl, c_outgoing cl, c_connection cl)"
    "route_map (table (fst (logout_client gap s i c))) (sender, x) =
       Option.bind (route_map (table s1) (sender, x)) (abort_view c sender)"
proof -
  have c: "c \<noteq> 0" "c_active cl" "c < next_client_id (registry s)"
    using client_of_ok [OF _ cl(1)] inv by (auto simp: server_inv_def client_ok_def)
  note s0 = leave_effect [OF inv cl]
  have s1: "server_inv s1" "client_of (registry s1) c = None" using gap s0 c(3) by (auto simp: s1_def keeps_gone_def)
  obtain t actions where a: "file_routes_abort_client (table s1) c FILE_ROUTE_CAPACITY = (t, actions)" by fastforce
  have inv2: "server_inv (s1\<lparr>table := t\<rparr>)" using server_step_inv [OF server_step.routes [OF route_step.abort [OF a]] s1(1)] .
  have eq: "fst (logout_client gap s i c) = perform_abort_actions (s1\<lparr>table := t\<rparr>) actions"
    using a c by (simp add: logout_client_def abort_file_routes_for_client_def s1_def case_prod_beta)
  show "server_inv (fst (logout_client gap s i c))"
    unfolding eq using reaches_inv [OF reaches_actions [OF reaches_refl] inv2] .
  show "client_of (registry (fst (logout_client gap s i c))) c = None"
    unfolding eq using adds_None [OF adds_actions [OF inv2], of c] s1(2) by simp
  show "snd (logout_client gap s i c) = Some (c_wake_fd cl, c_outgoing cl, c_connection cl)"
    using c(2) cl(2,3) by (auto simp: logout_client_def remove_client_eq Let_def)
  show "route_map (table (fst (logout_client gap s i c))) (sender, x) =
      Option.bind (route_map (table s1) (sender, x)) (abort_view c sender)"
    unfolding eq using abort_client_spec(2) [OF _ c(1) a] s1(1) by (simp add: server_inv_def)
qed

end
