(* ===== verification/Registry_Properties.thy ===== *)
theory Registry_Properties
  imports Registry_Messages
begin

text \<open>
  The properties of the client registry, each with a concrete instance: the invariant and
  the mailbox refinement in every reachable state, delivery order, queueing and overflow,
  broadcast, the list of users, logins and public keys.
\<close>

section \<open>Example states\<close>

definition example_os :: Os where
  "example_os = \<lparr>os_malloc = (\<lambda>_. True), os_eventfd = (\<lambda>_. Inr 7), os_eventfd_write = (\<lambda>_. None),
     os_clock = 0, os_counter = (\<lambda>_. 0)\<rparr>"

definition example_connection :: Connection where
  "example_connection = \<lparr>socket_fd = 5, ssl = Some 1, tls_io_failed = False\<rparr>"

definition example_client :: "ClientId \<Rightarrow> bytes \<Rightarrow> Client" where
  "example_client c name = \<lparr>c_connection = example_connection, c_wake_fd = 7, c_username = name, c_active = True,
     c_ready = True, c_id = c, c_public_key = replicate CHAT_PUBLIC_KEY_SIZE 9, c_has_public_key = True,
     c_outgoing = [], c_outgoing_count = 0, c_outgoing_failed = False\<rparr>"

definition example_registry :: Registry where
  "example_registry = \<lparr>clients = example_client 1 (str ''alice'') # example_client 2 (str ''bob'') # replicate 98 blank_client,
     next_client_id = 3, os = example_os\<rparr>"

lemma example_simps:
  "c_active (example_client c name)" "c_ready (example_client c name)" "c_id (example_client c name) = c"
  "c_username (example_client c name) = name" "c_outgoing (example_client c name) = []"
  "c_outgoing_count (example_client c name) = 0" "\<not> c_outgoing_failed (example_client c name)"
  "c_wake_fd (example_client c name) = 7" "c_has_public_key (example_client c name)"
  "c_public_key (example_client c name) = replicate CHAT_PUBLIC_KEY_SIZE 9"
  "clients example_registry =
     example_client 1 (str ''alice'') # example_client 2 (str ''bob'') # replicate 98 blank_client"
  "next_client_id example_registry = 3" "os example_registry = example_os"
  by (simp_all add: example_client_def example_registry_def)

lemma example_grants: "os_grants example_os"
  by (simp add: os_grants_def example_os_def)

lemma example_unique:
  assumes "key (example_client 1 (str ''alice'')) \<noteq> key (example_client 2 (str ''bob''))"
  shows "slot_unique c_active key (clients example_registry)"
  unfolding slot_unique_def
proof (intro allI impI)
  fix i j
  have in_use: "k = 0 \<or> k = Suc 0"
    if k: "k < length (clients example_registry)" "c_active (clients example_registry ! k)" for k
  proof (cases k)
    case (Suc l)
    then show ?thesis using k by (cases l) (auto simp: example_simps nth_Cons')
  qed simp
  assume "i < length (clients example_registry)" "j < length (clients example_registry)"
    "c_active (clients example_registry ! i)" "c_active (clients example_registry ! j)"
    "key (clients example_registry ! i) = key (clients example_registry ! j)"
  then show "i = j" using in_use [of i] in_use [of j] assms by (auto simp: example_simps)
qed

lemma example_client_ok: "c \<noteq> 0 \<Longrightarrow> c < next \<Longrightarrow> username_is_valid name \<Longrightarrow> client_ok next (example_client c name)"
  by (simp add: client_ok_def example_client_def example_connection_def)

lemma example_names: "username_is_valid (str ''alice'')" "username_is_valid (str ''bob'')" "username_is_valid (str ''eve'')"
  by (simp_all add: username_is_valid_def iscntrl_def isspace_def const_simps)

lemma example_inv: "registry_inv example_registry"
  unfolding registry_inv_def
proof (intro conjI)
  show "list_all (client_ok (next_client_id example_registry)) (clients example_registry)"
    using example_names by (simp add: example_simps example_client_ok list_all_iff del: str_Cons)
qed (rule example_unique | simp add: example_simps const_simps)+

lemma example_clients:
  "client_of example_registry 1 = Some (example_client 1 (str ''alice''))"
  "client_of example_registry 2 = Some (example_client 2 (str ''bob''))"
  by (simp_all add: client_of_def slot_lookup_def example_simps)

section \<open>All reachable states\<close>

text \<open>
  From the start of the server, after any sequence of logins, activations, removals, key
  registrations, queueing and dequeueing by any threads, the registry is well formed: 100
  slots; a free slot carries nothing of its last user; no two users share a name or an
  identifier; identifiers are non-zero and were issued; every queue is counted exactly,
  holds at most 128 frames and only frames that fit an envelope.
\<close>

theorem registry_always_wf:
  assumes "registry_run (init_clients (static_registry oracle)) es reg"
  shows "registry_inv reg"
  using registry_run_inv [OF assms init_clients_inv] .

lemma example_login:
  "\<exists>reg. registry_run (init_clients (static_registry example_os)) [Opened 1] reg \<and> find_client_id reg (str ''eve'') = 0"
proof -
  let ?r = "add_client (init_clients (static_registry example_os)) example_connection (str ''eve'')"
  have n: "next_client_id (init_clients (static_registry example_os)) = 1" by (simp add: init_clients_static)
  have r: "snd ?r = Inr 0" using example_names
    by (simp del: str_Cons add: MAX_CLIENTS_def add_client_def init_clients_static scan_clients_eq eventfd_def example_os_def example_connection_def
        allocate_client_id_def Let_def tick_def)
  then have a: "?r = (fst ?r, Inr 0)" by (metis prod.collapse)
  have "registry_run (init_clients (static_registry example_os)) [Opened 1] (fst ?r)"
    using registry_run_single [OF registry_step.add [OF a]] n by simp
  moreover have "find_client_id (fst ?r) (str ''eve'') = 0"
    using add_activate [OF init_clients_inv _ a] n by simp
  ultimately show ?thesis by blast
qed

theorem registry_always_wf_witness: "\<exists>reg. registry_run (init_clients (static_registry example_os)) [Opened 1] reg \<and> registry_inv reg"
  using example_login registry_always_wf by blast

text \<open>
  C16. The registry implements FIFO mailboxes: the successful calls from the start of the server, by
  whatever threads in whatever order, are a legal history of one mailbox per logged-in client -
  opened empty at login, closed at logout, appended to by queueing, consumed from the front - and
  the queues of the registry are the mailboxes that history leaves; and no identifier is issued
  twice. This holds for histories with fewer than \<open>2 ^ 64 - 2\<close> logins: the counter of identifiers is a
  64-bit integer that wraps around, after which identifiers are issued again.
\<close>

theorem registry_refines_mailboxes:
  assumes "registry_calls (init_clients (static_registry oracle)) es reg" and "length (opened es) < 2 ^ 64 - 2"
  shows "mailbox_events es Map.empty = Some (outboxes reg) \<and> distinct (opened es)"
proof -
  have "outboxes (init_clients (static_registry oracle)) = Map.empty"
    by (simp add: outboxes_def init_clients_static by_id.lookup_blank_table fun_eq_iff)
  moreover have run: "registry_run (init_clients (static_registry oracle)) es reg"
    using registry_calls_run [OF assms(1) init_clients_inv] assms(2) by (simp add: init_clients_static)
  ultimately show ?thesis using mailbox_run [OF run init_clients_inv] registry_run_distinct [OF run init_clients_inv]
    by simp
qed

text \<open>A first login: the client is added and activated, and one of two frames queued for it is taken.\<close>

definition first_client :: Client where
  "first_client = blank_client\<lparr>c_wake_fd := 7, c_outgoing_failed := False, c_connection := example_connection,
     c_active := True, c_ready := False, c_id := 1, c_has_public_key := False, c_username := str ''eve''\<rparr>"

definition first_registry :: "bool \<Rightarrow> OutgoingFrame list \<Rightarrow> nat \<Rightarrow> (int \<Rightarrow> nat) \<Rightarrow> Registry" where
  "first_registry ready fs clock counter =
     \<lparr>clients = first_client\<lparr>c_ready := ready, c_outgoing := fs, c_outgoing_count := length fs\<rparr> # replicate 99 blank_client,
      next_client_id = 2, os = example_os\<lparr>os_clock := clock, os_counter := counter\<rparr>\<rparr>"

lemma first_steps:
  "add_client (init_clients (static_registry example_os)) example_connection (str ''eve'') =
     (first_registry False [] 1 (\<lambda>_. 0), Inr 0)"
  "activate_client (first_registry False fs clock counter) 0 = (first_registry True fs clock counter, Inr ())"
  "length fs < 128 \<Longrightarrow> counter 7 < 2 ^ 64 - 2 \<Longrightarrow>
   queue_frame_to_client_id (first_registry True fs clock counter) 1 FRAME_TEXT [x] =
     (first_registry True (fs @ [text_frame [x]]) (clock + 2) (counter(7 := counter 7 + 1)), Inr ())"
  "take_outgoing_frame (first_registry True (f # fs) clock counter) 1 = (first_registry True fs clock counter, Inr (Some f))"
proof -
  have r: "replicate 100 c = c # replicate 99 c" for c :: Client using replicate_Suc [of 99 c] by simp
  note first = first_registry_def first_client_def example_connection_def example_os_def Let_def const_simps
  show "add_client (init_clients (static_registry example_os)) example_connection (str ''eve'') =
     (first_registry False [] 1 (\<lambda>_. 0), Inr 0)"
    using example_names by (simp add: add_client_def init_clients_static scan_clients_eq eventfd_def allocate_client_id_def tick_def
        r first fun_eq_iff blank_client_def)
  show "activate_client (first_registry False fs clock counter) 0 = (first_registry True fs clock counter, Inr ())"
    by (simp add: activate_client_def first)
  show "queue_frame_to_client_id (first_registry True fs clock counter) 1 FRAME_TEXT [x] =
     (first_registry True (fs @ [text_frame [x]]) (clock + 2) (counter(7 := counter 7 + 1)), Inr ())"
    if "length fs < 128" "counter 7 < 2 ^ 64 - 2"
    using that by (simp add: queue_frame_to_client_id_def malloc_def eventfd_write_def tick_def first)
  show "take_outgoing_frame (first_registry True (f # fs) clock counter) 1 = (first_registry True fs clock counter, Inr (Some f))"
    by (simp add: take_outgoing_frame_def first)
qed

theorem registry_refines_mailboxes_witness:
  "\<exists>reg. registry_calls (init_clients (static_registry example_os))
       [Opened 1, Queued 1 (text_frame [104]), Queued 1 (text_frame [105]), Taken 1 (text_frame [104])] reg \<and>
     outboxes reg = [1 \<mapsto> [text_frame [105]]]"
proof -
  let ?es = "[Opened 1, Queued 1 (text_frame [104]), Queued 1 (text_frame [105]), Taken 1 (text_frame [104])]"
  let ?r0 = "init_clients (static_registry example_os)" and ?c = "\<lambda>_ :: int. 0 :: nat"
  let ?r1 = "first_registry False [] 1 ?c" and ?r2 = "first_registry True [] 1 ?c"
  let ?r3 = "first_registry True [text_frame [104]] 3 (?c(7 := 1))"
  let ?r4 = "first_registry True [text_frame [104], text_frame [105]] 5 (?c(7 := Suc (Suc 0)))"
  let ?r5 = "first_registry True [text_frame [105]] 5 (?c(7 := Suc (Suc 0)))"
  have "registry_call ?r0 [Opened 1] ?r1"
    using registry_call.add [OF first_steps(1)] by (simp add: allocate_client_id_def init_clients_static)
  moreover have "registry_call ?r1 [] ?r2" by (rule registry_call.activate [OF first_steps(2)])
  moreover have "registry_call ?r2 [Queued 1 (text_frame [104])] ?r3"
    using registry_call.queue [OF first_steps(3), of "[]" ?c 1 104] by (simp add: numeral_3_eq_3)
  moreover have "registry_call ?r3 [Queued 1 (text_frame [105])] ?r4"
    using registry_call.queue [OF first_steps(3), of "[text_frame [104]]" "?c(7 := 1)" 3 105] by simp
  moreover have "registry_call ?r4 [Taken 1 (text_frame [104])] ?r5"
    using registry_call.take [OF first_steps(4)] by simp
  ultimately have "registry_calls ?r0 ([Opened 1] @ [] @ [Queued 1 (text_frame [104])] @ [Queued 1 (text_frame [105])] @
      [Taken 1 (text_frame [104])] @ []) ?r5"
    by (blast intro: registry_calls.intros)
  then have calls: "registry_calls ?r0 ?es ?r5" by simp
  have "length (opened ?es) < 2 ^ 64 - 2" by (simp add: opened_def)
  from registry_refines_mailboxes [OF calls this] have "outboxes ?r5 = [1 \<mapsto> [text_frame [105]]]" by simp
  with calls show ?thesis by blast
qed

section \<open>Delivery\<close>

lemma example_queue:
  "\<exists>reg. registry_run example_registry [Queued 1 (text_frame [104, 105]), Taken 1 (text_frame [104, 105])] reg"
proof -
  have "(0::ClientId) \<noteq> 1" "is_valid_frame_type FRAME_TEXT" "length [104, 105::byte] \<le> FRAME_MAX_SIZE - 1"
    by (simp_all add: const_simps)
  then obtain reg1 where q: "queue_frame_to_client_id example_registry 1 FRAME_TEXT [104, 105] = (reg1, Inr ())"
    and c: "client_of reg1 = (client_of example_registry)
      (1 := map_option (deliver (text_frame [104, 105])) (client_of example_registry 1))" and inv: "registry_inv reg1"
    using queue_frame_granted [OF example_inv, of 1 FRAME_TEXT "[104, 105]"] example_grants
    by (auto simp: example_simps example_clients const_simps)
  have "outboxes reg1 1 = Some [text_frame [104, 105]]"
    using c by (simp add: outboxes_client_of example_clients deliver_def example_simps const_simps)
  moreover obtain reg2 r where t: "take_outgoing_frame reg1 1 = (reg2, r)" by fastforce
  moreover have "r = Inr (Some (text_frame [104, 105]))"
  proof -
    obtain i where i: "find_slot (\<lambda>c. c_active c \<and> c_id c = 1) (clients reg1) = Some i"
      "clients reg1 ! i = deliver (text_frame [104, 105]) (example_client 1 (str ''alice''))"
      using c by (auto simp: client_of_def slot_lookup_def fun_upd_def example_simps dest!: fun_cong [of _ _ 1])
    then show ?thesis using t
      by (simp add: take_outgoing_frame_def deliver_def example_simps const_simps)
  qed
  ultimately have "registry_step example_registry [Queued 1 (text_frame [104, 105])] reg1"
      "registry_step reg1 [Taken 1 (text_frame [104, 105])] reg2"
    using registry_step.queue [OF q] registry_step.take [OF t] by simp_all
  then show ?thesis using registry_run.step [OF _ registry_run_single] by fastforce
qed

text \<open>
  C4. Delivery order and no loss: over any run, what a client's connection takes out of its
  queue, followed by what is left when the client is still logged in, is exactly what the
  queue held before followed by what was accepted for it since, in the order of acceptance.
  (A run has no login at the last value of the 64-bit counter of identifiers.)
\<close>

theorem delivery_fifo:
  assumes "registry_inv reg" and "registry_run reg es reg'" and "outboxes reg c = Some xs"
  shows "\<exists>rest. taken c es @ rest = xs @ queued c es \<and> (\<forall>ys. outboxes reg' c = Some ys \<longrightarrow> ys = rest)"
  using registry_fifo [OF assms] .

theorem delivery_fifo_witness:
  "\<exists>reg'. registry_run example_registry [Queued 1 (text_frame [104, 105]), Taken 1 (text_frame [104, 105])] reg' \<and>
     (\<forall>ys. outboxes reg' 1 = Some ys \<longrightarrow> ys = [])"
proof -
  obtain reg' where run: "registry_run example_registry [Queued 1 (text_frame [104, 105]), Taken 1 (text_frame [104, 105])] reg'"
    using example_queue by blast
  have "outboxes example_registry 1 = Some []" by (simp add: outboxes_client_of example_clients example_simps)
  from delivery_fifo [OF example_inv run this] run show ?thesis by auto
qed

text \<open>
  C32. Queueing for a client that is ready: with memory and a working wake descriptor, a frame
  that fits an envelope is accepted exactly when fewer than 128 frames wait; then it is the
  last frame of that client's queue and no other queue changed. When 128 wait, the call
  fails with ENOBUFS and the client is cut off: no frame can be queued for it, none can be
  taken, and its connection is told ENOBUFS. In both cases the connection's wake-up counter
  is positive, so its owner notices.
\<close>

theorem queue_frame_outcome:
  assumes "registry_inv reg" and "os_grants (os reg)" and "is_valid_frame_type type"
    and "length payload \<le> FRAME_MAX_SIZE - 1" and "client_of reg c = Some cl" and "c_ready cl"
  shows "case queue_frame_to_client_id reg c type payload of (reg', r) \<Rightarrow>
    0 < os_counter (os reg') (c_wake_fd cl) \<and>
    (if c_outgoing_count cl < MAX_OUTGOING_FRAMES
     then r = Inr () \<and> outboxes reg' = (outboxes reg)(c \<mapsto> c_outgoing cl @ [\<lparr>of_type = type, of_payload = payload\<rparr>])
     else r = Inl ENOBUFS \<and> outboxes reg' = outboxes reg \<and> client_output_status reg' c = Inl ENOBUFS \<and>
          take_outgoing_frame reg' c = (reg', Inl ENOBUFS) \<and>
          (\<forall>type' payload'. isl (snd (queue_frame_to_client_id reg' c type' payload'))))"
proof -
  have c: "c \<noteq> 0" using client_of_ok [OF assms(1,5)] by (auto simp: client_ok_def)
  obtain reg' where q: "queue_frame_to_client_id reg c type payload =
      (reg', if MAX_OUTGOING_FRAMES \<le> c_outgoing_count cl then Inl ENOBUFS else Inr ())"
    and c': "client_of reg' = (client_of reg)(c \<mapsto> deliver \<lparr>of_type = type, of_payload = payload\<rparr> cl)"
    and inv': "registry_inv reg'" and w: "0 < os_counter (os reg') (c_wake_fd cl)"
    using queue_frame_granted [OF assms(1,2) c assms(3,4)] assms(5,6) by (auto split: if_splits)
  show ?thesis
  proof (cases "c_outgoing_count cl < MAX_OUTGOING_FRAMES")
    case True
    then show ?thesis using q c' w assms(6) by (auto simp: outboxes_client_of deliver_def fun_eq_iff)
  next
    case False
    then have cl': "client_of reg' c = Some (cl\<lparr>c_outgoing_failed := True, c_ready := False\<rparr>)"
      using c' assms(6) by (simp add: deliver_def)
    then obtain i where i: "find_slot (\<lambda>c'. c_active c' \<and> c_id c' = c) (clients reg') = Some i"
        "clients reg' ! i = cl\<lparr>c_outgoing_failed := True, c_ready := False\<rparr>"
      by (auto simp: client_of_def slot_lookup_def)
    have "isl (snd (queue_frame_to_client_id reg' c type' payload'))" for type' payload'
    proof (cases "queue_frame_to_client_id reg' c type' payload'" rule: prod.exhaust)
      case (Pair reg2 r)
      from Pair show ?thesis
      proof (cases rule: queue_frame_cases)
        case (queued k)
        have "clients reg' ! k = cl\<lparr>c_outgoing_failed := True, c_ready := False\<rparr>"
          using client_of_nth [OF inv' queued(1,2,4)] cl' by simp
        then show ?thesis using queued(3) by simp
      qed (use Pair in auto)
    qed
    moreover have "outboxes reg' = outboxes reg"
      using c' assms(5,6) False by (auto simp: outboxes_client_of deliver_def fun_eq_iff)
    ultimately show ?thesis using False q w i c
      by (simp add: client_output_status_def take_outgoing_frame_def)
  qed
qed

theorem queue_frame_outcome_witness:
  "snd (queue_frame_to_client_id example_registry 2 FRAME_TEXT [104, 105]) = Inr () \<and>
   outboxes (fst (queue_frame_to_client_id example_registry 2 FRAME_TEXT [104, 105])) 2 = Some [text_frame [104, 105]]"
  using queue_frame_outcome [of example_registry FRAME_TEXT "[104, 105]" 2 "example_client 2 (str ''bob'')"]
    example_inv example_grants example_clients
  by (simp add: example_simps const_simps case_prod_beta del: str_Cons)

text \<open>
  C33. A broadcast reaches every ready client other than the sender exactly once, as the last
  frame of its queue; a ready client whose queue is full is cut off instead; the sender,
  clients still logging in and all names, keys and connections are untouched.
\<close>

theorem broadcast_reaches_all:
  assumes "registry_inv reg" and "os_grants (os reg)" and "message \<noteq> []" and "length message \<le> FRAME_MAX_SIZE - 1"
  shows "client_of (send_message_to_all_clients reg message sender_id) c =
    (case client_of reg c of
       None \<Rightarrow> None
     | Some cl \<Rightarrow>
         Some (if c = sender_id \<or> \<not> c_ready cl then cl
               else if MAX_OUTGOING_FRAMES \<le> c_outgoing_count cl then cl\<lparr>c_outgoing_failed := True, c_ready := False\<rparr>
               else cl\<lparr>c_outgoing := c_outgoing cl @ [\<lparr>of_type = FRAME_TEXT, of_payload = message\<rparr>],
                       c_outgoing_count := c_outgoing_count cl + 1\<rparr>))"
  using broadcast_granted [OF assms] by (auto simp: deliver_def split: option.splits)

theorem broadcast_reaches_all_witness:
  "map_option c_outgoing (client_of (send_message_to_all_clients example_registry [104, 105] 1) 2) = Some [text_frame [104, 105]] \<and>
   map_option c_outgoing (client_of (send_message_to_all_clients example_registry [104, 105] 1) 1) = Some []"
  using broadcast_reaches_all [OF example_inv, of "[104, 105]" 1 1] broadcast_reaches_all [OF example_inv, of "[104, 105]" 1 2]
    example_grants by (simp add: example_simps example_clients const_simps del: str_Cons)

text \<open>
  C38. The text answered to a request for the list of users is the heading followed by the
  names of the ready clients, one per line in slot order, cut after 1023 bytes; so when
  all of it fits it lists every ready client.
\<close>

theorem client_list_exact:
  "log_connected_clients reg client_id =
     fst (send_text_to_client_id reg client_id
       (take (BUFFER_SIZE - 1)
         (MSG_CLIENT_LIST @ concat (map (\<lambda>c. str [CHR 0x0A] @ c_username c) (filter (\<lambda>c. c_active c \<and> c_ready c) (clients reg))))))"
proof -
  have "name_lines cs = concat (map (\<lambda>c. str [CHR 0x0A] @ c_username c) (filter (\<lambda>c. c_active c \<and> c_ready c) cs))" for cs
    by (induction cs) (auto simp: name_lines_def)
  moreover have "length MSG_CLIENT_LIST < BUFFER_SIZE" by (simp add: MSG_CLIENT_LIST_def const_simps)
  ultimately show ?thesis using append_names_eq by (simp add: log_connected_clients_def)
qed

section \<open>Logins, names and keys\<close>

text \<open>
  C35. A login that succeeds reserves its name at once but the name resolves only after
  activation, then to the identifier just issued; and while a client is logged in, a second
  login under its name is refused with EEXIST and changes nothing.
\<close>

theorem login_reserves_name:
  assumes "registry_inv reg" and "next_client_id reg \<noteq> -1"
    and "add_client reg connection username = (reg1, Inr i)"
  shows "find_client_id reg1 username = INVALID_CLIENT_ID \<and>
     (\<exists>reg2. activate_client reg1 (int i) = (reg2, Inr ()) \<and> find_client_id reg2 username = next_client_id reg) \<and>
     (\<forall>connection'. 0 \<le> socket_fd connection' \<and> ssl connection' \<noteq> None \<longrightarrow>
        add_client reg1 connection' username = (reg1, Inl EEXIST))"
proof -
  note inv1 = add_client_inv [OF assms(1,3,2)] and a = add_activate [OF assms]
  obtain cl where cl: "client_of reg1 (next_client_id reg) = Some cl" "c_username cl = username"
    using assms(3)
  proof (cases rule: add_client_cases)
    case (added j fd)
    then have "client_of reg1 (next_client_id reg) = Some (clients reg1 ! j)"
      using inv1 assms(1) by (intro client_of_nth) (auto simp: registry_inv_def allocate_client_id_eq)
    then show ?thesis using that added by simp
  qed simp
  show ?thesis
    using a add_client_taken [OF inv1 cl(1)] cl(2) by (metis prod.collapse)
qed

theorem login_reserves_name_witness:
  "\<exists>reg1. add_client example_registry example_connection (str ''eve'') = (reg1, Inr 2) \<and>
     find_client_id (fst (activate_client reg1 2)) (str ''eve'') = 3"
proof -
  let ?r = "add_client example_registry example_connection (str ''eve'')"
  have "snd ?r = Inr 2" using example_names
    by (simp add: add_client_def example_connection_def example_simps scan_clients_eq eventfd_def example_os_def
        allocate_client_id_def Let_def tick_def)
  then have r: "?r = (fst ?r, Inr 2)" by (metis prod.collapse)
  from login_reserves_name [OF example_inv _ r] r show ?thesis
    by (intro exI [of _ "fst ?r"]) (auto simp: example_simps)
qed

text \<open>
  C34. The key that others encrypt to cannot be exchanged: once the key of a client can be
  read, every later read of the key of that client gives the same key, after any number of
  steps of any threads; registering another key for it fails. (The steps contain no login at the
  last value of the 64-bit counter of identifiers, which would issue identifiers again.)
\<close>

theorem public_key_stable:
  assumes "registry_inv reg" and "registry_run reg es reg'" and "get_client_public_key reg c = Inr key"
  shows "(\<forall>key'. get_client_public_key reg' c = Inr key' \<longrightarrow> key' = key) \<and>
     (\<forall>key'. take CHAT_PUBLIC_KEY_SIZE key' \<noteq> key \<longrightarrow> register_client_public_key reg c key' = (reg, Inl EINVAL))"
proof (intro conjI allI impI)
  fix key'
  assume k: "take CHAT_PUBLIC_KEY_SIZE key' \<noteq> key"
  obtain i where i: "i < length (clients reg)" "c_active (clients reg ! i)" "c_ready (clients reg ! i)"
      "c_id (clients reg ! i) = c" "c_has_public_key (clients reg ! i)" "c_public_key (clients reg ! i) = key"
    using assms(3) by (auto simp: get_key_iff [OF assms(1)] client_of_Some [OF assms(1)])
  have "find_slot (\<lambda>x. c_active x \<and> c_ready x \<and> c_id x = c) (clients reg) = Some i"
    using find_by_id [OF assms(1) i(1,2), of c_ready] i(3,4) by simp
  then show "register_client_public_key reg c key' = (reg, Inl EINVAL)"
    using k i by (simp add: register_client_public_key_def Let_def)
qed (rule key_stable [OF assms])

theorem public_key_stable_witness:
  "register_client_public_key example_registry 1 (replicate 32 8) = (example_registry, Inl EINVAL)"
proof -
  have "get_client_public_key example_registry 1 = Inr (replicate CHAT_PUBLIC_KEY_SIZE 9)"
    by (simp add: get_client_public_key_def example_simps)
  from public_key_stable [OF example_inv registry_run.stop this] show ?thesis by (simp add: const_simps)
qed

end
