(* ===== verification/Server_Properties.thy ===== *)
theory Server_Properties
  imports Relay Registry_Properties
begin

text \<open>
  The properties of the server: well-formedness and accounting in every reachable state,
  the connection loop, the relay of encrypted messages, file transfers, login and logout.
\<close>

section \<open>Example state\<close>

definition example_server :: Server where
  "example_server = \<lparr>registry = example_registry,
     table = \<lparr>routes = replicate FILE_ROUTE_CAPACITY zero_route, next_outbound_transfer_id = 1\<rparr>\<rparr>"

lemma empty_table:
  "route_map \<lparr>routes = replicate FILE_ROUTE_CAPACITY zero_route, next_outbound_transfer_id = n\<rparr> = Map.empty"
  by (simp add: route_map_def by_key.lookup_blank_table fun_eq_iff)

lemma example_server_simps:
  "registry example_server = example_registry" "route_map (table example_server) = Map.empty"
  by (simp_all add: example_server_def empty_table)

lemma example_not_full: "\<not> routes_full (table example_server)"
  by (simp add: routes_full_def example_server_simps FILE_ROUTE_CAPACITY_def MAX_CLIENTS_def)

lemma example_server_inv: "server_inv example_server"
  using example_inv
  by (simp add: server_inv_def example_server_def routes_inv_def routes_wf_def empty_table
      by_key.unique_blank_table by_outbound.unique_blank_table list_all_length)

lemma example_room: "n \<le> 128 \<Longrightarrow> has_room example_server 2 (example_client 2 (str ''bob'')) n"
  using example_server_inv example_grants example_clients
  by (simp add: has_room_def example_server_simps example_simps const_simps)

section \<open>All reachable states\<close>

interpretation chat: frame_handler handle_client_frame server_inv "\<lambda>_. True"
proof unfold_locales
  fix s client_id frame and name :: bytes
  assume "server_inv s" "frame_wf frame"
  then show "\<exists>s' b. handle_client_frame s client_id name frame = Some (s', b) \<and> server_inv s'"
    using handle_client_frame_total [OF reaches_refl] reaches_inv unfolding frame_wf_def by blast
next
  fix s fd
  assume "server_inv s"
  then show "server_inv (consume_wakeup fd s)"
    by (simp add: server_inv_def consume_wakeup_def registry_inv_def)
next
  fix s client_id
  assume "server_inv s"
  then show "server_inv (s\<lparr>registry := fst (take_outgoing_frame (registry s) client_id)\<rparr>)"
    using take_frame_inv [OF _ prod.collapse [symmetric]] by (auto simp: server_inv_def)
next
  fix s client_id reg f
  assume "server_inv s" "take_outgoing_frame (registry s) client_id = (reg, Inr (Some f))"
  then show "length (of_payload f) < FRAME_MAX_SIZE" using take_frame_fits by (auto simp: server_inv_def)
qed

lemma example_transfer_run:
  "\<exists>s. server_run (server_init example_os)
     ([Route (Began (1, 9) 5), Route (Accepted (1, 9) 5)] @ Route (Completed (1, 9)) # []) s"
proof -
  let ?t0 = "table (server_init example_os)"
  have t0: "route_map ?t0 = Map.empty" "routes_inv ?t0"
    using server_init_inv [of example_os]
    by (simp_all add: server_inv_def server_init_def init_file_routes_def file_routes_init_def empty_table)
  then have nf: "\<not> routes_full ?t0" by (simp add: routes_full_def FILE_ROUTE_CAPACITY_def MAX_CLIENTS_def)
  obtain t1 r1 ep1 rep1 where a: "file_routes_add ?t0 1 9 2 5 False = (t1, r1, ep1, rep1)" by (rule prod_cases4)
  note sa = add_route_spec [OF t0(2) a]
  have r1: "r1 = FILE_ROUTE_ADD_READY" and i1: "routes_inv t1" and
    m1: "route_map t1 (1, 9) = Some (Forwarding 2 (ep_outbound_transfer_id ep1) 5 0)"
    using sa t0 nf by (auto split: if_splits)
  obtain t2 r2 ep2 where b: "file_routes_accept_chunk t1 1 9 5 = (t2, r2, ep2)" by (rule prod_cases3)
  have r2: "r2 = FILE_ROUTE_CHUNK_READY" and i2: "routes_inv t2" and
    m2: "route_map t2 (1, 9) = Some (Forwarding 2 (ep_outbound_transfer_id ep1) 5 5)"
    using accept_chunk_spec [OF i1 b] m1 by auto
  obtain t3 r3 ep3 where c: "file_routes_finish t2 1 9 True = (t3, r3, ep3)" by (rule prod_cases3)
  have r3: "r3 = FILE_ROUTE_FINISH_READY" using finish_spec [OF i2 c] m2 by auto
  let ?s0 = "server_init example_os"
  let ?s1 = "?s0\<lparr>table := t1\<rparr>" and ?s2 = "?s0\<lparr>table := t2\<rparr>" and ?s3 = "?s0\<lparr>table := t3\<rparr>"
  have "server_step ?s0 [Route (Began (1, 9) 5)] ?s1"
    using server_step.routes [of ?s0, OF route_step.add [OF a]] r1 by simp
  moreover have "server_step ?s1 [Route (Accepted (1, 9) 5)] ?s2"
    using server_step.routes [of ?s1, OF route_step.chunk, of 1 9 5 t2 r2 ep2] b r2 by simp
  moreover have "server_step ?s2 [Route (Completed (1, 9))] ?s3"
    using server_step.routes [of ?s2, OF route_step.finish, of 1 9 True t3 r3 ep3] c r3 by simp
  ultimately have "server_run ?s0 ((([] @ [Route (Began (1, 9) 5)]) @ [Route (Accepted (1, 9) 5)]) @ [Route (Completed (1, 9))]) ?s3"
    by (blast intro: server_run.intros)
  then show ?thesis by auto
qed

text \<open>
  C14. From the start of the server, whatever its threads do in whatever order, the registry and
  the table of routes stay well formed: besides the registry's invariant, at most 400
  routes, at most one per sender and transfer number, no outbound number used twice, no
  route that forwarded more than announced, and no route back to its own sender. (A run has no
  login at the last value of the 64-bit counter of identifiers.)
\<close>

theorem server_always_wf:
  assumes "server_run (server_init oracle) es s"
  shows "server_inv s"
  using server_run_inv [OF assms server_init_inv] .

theorem server_always_wf_witness:
  "\<exists>s. server_run (server_init example_os)
     ([Route (Began (1, 9) 5), Route (Accepted (1, 9) 5)] @ Route (Completed (1, 9)) # []) s \<and> server_inv s"
  using example_transfer_run server_always_wf by blast


text \<open>
  C22. Every frame the loop can deliver is handled: in a well-formed state the handler returns on
  every frame of 1 to 65792 bytes, whatever it contains. The accesses that are checked, and all
  succeed: the type byte of the frame; the copies of a command into the two arrays of
  65792 bytes with its terminating zero, the parser's reads and writes in one of them and the
  strings taken out of both; in the chat handler every read of the frame and every copy into the
  arrays of 32 bytes for the recipient's name, of 64 bytes for a key reply and of 65791 bytes for the
  forwarded ciphertext. (File frames go through decoders that test the length first.) What
  the handler did is a sequence of the steps of the registry and the route table, so the state
  is well formed again.
\<close>

theorem handler_returns:
  assumes "server_inv s" and "0 < length frame" and "length frame \<le> FRAME_MAX_SIZE"
  shows "\<exists>s' b. handle_client_frame s client_id username frame = Some (s', b) \<and> reaches s s' \<and> server_inv s'"
  using handle_client_frame_total [OF reaches_refl assms(2,3)] reaches_inv assms(1) by blast

theorem handler_returns_witness:
  "\<exists>s' b. handle_client_frame example_server 1 (str ''alice'') (frame_byte FRAME_TEXT # str ''/msg bob hi'') = Some (s', b) \<and>
     server_inv s'"
proof -
  have "0 < length (frame_byte FRAME_TEXT # str ''/msg bob hi'')" "length (frame_byte FRAME_TEXT # str ''/msg bob hi'') \<le> FRAME_MAX_SIZE"
    by (simp_all add: const_simps)
  from handler_returns [OF example_server_inv this] show ?thesis by blast
qed

text \<open>
  C5. The books of every transfer balance, under any interleaving: whenever the server accepts
  the end of a transfer as complete, the chunks it accepted for that transfer since its
  start add up to exactly the size announced at its start. (A run has no login at the last value
  of the 64-bit counter of identifiers.)
\<close>

theorem transfer_accounting:
  assumes "server_run (server_init oracle) (es1 @ Route (Completed k) # es2) s"
  shows "\<exists>n. tally k es1 = Some (n, n)"
proof -
  have "tally_inv [] (server_init oracle)"
    by (simp add: tally_inv_def server_init_def init_file_routes_def file_routes_init_def empty_table)
  then show ?thesis using server_run_tally [OF assms server_init_inv] by blast
qed

theorem transfer_accounting_witness: "\<exists>n. tally (1, 9) [Route (Began (1, 9) 5), Route (Accepted (1, 9) 5)] = Some (n, n)"
  using example_transfer_run transfer_accounting by blast

section \<open>The connection loop\<close>

text \<open>
  C8. Framing: for every handler and every schedule, however the stream is cut into pieces and
  whatever happens on the way, the client's byte stream begins with the envelopes of some frames,
  each of 1 to 65792 bytes with a valid type, and the handler was called on exactly these
  frames, byte for byte, once each and in that order: the shared state is the one that these
  calls produce, each from the state left before it, with nothing in between but what the other
  threads did in the turns, the reset of the wake-up counter and the removal of frames from the
  client's own queue. While the loop goes on, what follows these envelopes is precisely what the
  loop holds of the frame it is reading and what is still to be read, and every call asked to go on;
  when the loop has returned, only the last call may have asked to stop, and then the loop returned 0.
\<close>

theorem worker_framing:
  "\<exists>fs rest. list_all frame_wf fs \<and> tls_in t = concat (map envelope fs) @ rest \<and>
     (case worker_loop h client_id username fd turns \<lparr>ss_server = s, ss_tls = t, ss_worker = worker_start\<rparr> of
        Continue ss \<Rightarrow> rest = wk_incoming (ss_worker ss) @ tls_in (ss_tls ss) \<and>
          serves (loop_actions client_id fd turns) h client_id username s fs (ss_server ss)
      | Return ss r \<Rightarrow> served (loop_actions client_id fd turns) h client_id username s fs (ss_server ss) r
      | Stuck \<Rightarrow> True)"
proof -
  let ?ss = "\<lparr>ss_server = s, ss_tls = t, ss_worker = worker_start\<rparr>"
  have "handles (loop_actions client_id fd turns) h client_id username ?ss (worker_loop h client_id username fd turns ?ss)"
    by (rule worker_loop_handles) simp_all
  moreover have start: "wk_incoming worker_start = []" by (simp add: worker_start_def)
  ultimately obtain fs rest where fs: "list_all frame_wf fs" "tls_in t = concat (map envelope fs) @ rest"
    "case worker_loop h client_id username fd turns ?ss of
       Continue ss \<Rightarrow> worker_ok (ss_worker ss) \<and> rest = wk_incoming (ss_worker ss) @ tls_in (ss_tls ss) \<and>
         serves (loop_actions client_id fd turns) h client_id username s fs (ss_server ss)
     | Return ss r \<Rightarrow> served (loop_actions client_id fd turns) h client_id username s fs (ss_server ss) r
     | Stuck \<Rightarrow> True"
    unfolding handles_def Session.simps start by auto
  then show ?thesis by (intro exI [of _ fs] exI [of _ rest]) (auto split: pass.splits)
qed

text \<open>
  C20. Output: for every schedule, what the loop wrote to the connection, followed by what it
  still holds of the frame it is sending, is what was written before followed by the
  envelopes of the frames it took from the client's queue, whole and in that order.
\<close>

theorem worker_output:
  "case worker_loop h client_id username fd turns \<lparr>ss_server = s, ss_tls = t, ss_worker = worker_start\<rparr> of
     Continue ss \<Rightarrow> tls_out (ss_tls ss) @ wk_unsent (ss_worker ss) = tls_out t @
       concat (map (\<lambda>f. frame_bytes (of_type f) (of_payload f))
         (fetched_frames h client_id username fd turns \<lparr>ss_server = s, ss_tls = t, ss_worker = worker_start\<rparr>))
   | Return ss r \<Rightarrow> tls_out (ss_tls ss) @ wk_unsent (ss_worker ss) = tls_out t @
       concat (map (\<lambda>f. frame_bytes (of_type f) (of_payload f))
         (fetched_frames h client_id username fd turns \<lparr>ss_server = s, ss_tls = t, ss_worker = worker_start\<rparr>))
   | Stuck \<Rightarrow> True"
proof -
  let ?ss = "\<lparr>ss_server = s, ss_tls = t, ss_worker = worker_start\<rparr>"
  show ?thesis
    using worker_loop_output [where ss = ?ss and turns = turns and h = h and client_id = client_id
        and username = username and wake_fd = fd]
    by (auto simp: worker_start_def split: pass.splits)
qed

text \<open>
  C21. The loop with the server's own handler is safe on every schedule, whatever bytes the client
  sends: if the other threads keep the shared state well formed, every read from the connection
  goes into the 65796 bytes of \<open>incoming\<close>, every frame taken from the queue fits with its header into
  the 65796 bytes of \<open>outgoing\<close>, no access of the handler leaves its arrays, and the shared state
  is well formed after every pass and when the loop returns.
\<close>

theorem worker_safe:
  assumes "server_inv s" and "client_id \<noteq> 0" and "list_all (turn_keeps server_inv) turns"
  shows "case run_client_worker handle_client_frame nonblocking turns s t client_id username of
    Continue ss \<Rightarrow> server_inv (ss_server ss) | Return ss r \<Rightarrow> server_inv (ss_server ss) | Stuck \<Rightarrow> False"
proof -
  let ?ss = "\<lparr>ss_server = s, ss_tls = t, ss_worker = worker_start\<rparr>"
  have "case worker_loop handle_client_frame client_id username fd turns ?ss of
      Continue ss \<Rightarrow> server_inv (ss_server ss) | Return ss r \<Rightarrow> server_inv (ss_server ss) | Stuck \<Rightarrow> False" for fd
    using assms by (intro chat.loop_inv) simp_all
  then show ?thesis using assms(1) by (auto simp: run_client_worker_def Let_def split: sum.splits option.splits)
qed

definition example_turn :: Turn where
  "example_turn = \<lparr>tn_before = id, tn_event_read = None, tn_woken = id, tn_checked = id, tn_write = WriteOk 3,
     tn_read = ReadOk 2, tn_waiting = id, tn_poll = None\<rparr>"

theorem worker_safe_witness:
  "run_client_worker handle_client_frame None [example_turn, example_turn] example_server example_tls 1 (str ''alice'') \<noteq> Stuck"
  using worker_safe [OF example_server_inv, of 1 "[example_turn, example_turn]" None example_tls "str ''alice''"]
  by (auto simp: turn_keeps_def example_turn_def)

section \<open>Encrypted chat\<close>

text \<open>
  C6. Authentic relay: whatever a client puts into a key registration, a key request or a
  ciphertext frame, the handler returns and only appends to queues, and only three kinds of frames: text
  answers to that client; key replies to that client, which repeat the requested name
  followed by the key registered under that name, or by nothing when there is none; and
  ciphertexts to the client whose name the frame gives, which carry the sender's login name
  in place of the recipient's, the rest of the frame unchanged, and contain as the sender's
  key the key registered for the sender.
\<close>

theorem encrypted_relay_authentic:
  assumes "server_inv s" and "frame_wf frame"
    and "FrameType_of (frame ! 0) \<in> {FRAME_REGISTER_PK, FRAME_REQUEST_PK, FRAME_CIPHERTEXT}"
  shows "\<exists>s'. handle_encrypted_chat s c username frame = Some s' \<and> adds (\<lambda>r f.
      r = c \<and> of_type f = FRAME_TEXT \<or>
      r = c \<and> of_type f = FRAME_PEER_PK \<and>
        (\<exists>peer. frame = frame_byte FRAME_REQUEST_PK # peer \<and>
           of_payload f = of_nat (length peer) # peer @
             (case get_client_public_key (registry s) (find_client_id (registry s) peer) of Inr key \<Rightarrow> key | Inl _ \<Rightarrow> [])) \<or>
      of_type f = FRAME_CIPHERTEXT \<and>
        (\<exists>peer body. frame = frame_byte FRAME_CIPHERTEXT # of_nat (length peer) # peer @ body \<and>
           find_client_id (registry s) peer = r \<and> of_payload f = of_nat (length username) # username @ body \<and>
           get_client_public_key (registry s) c = Inr (take CHAT_PUBLIC_KEY_SIZE (drop CHAT_NONCE_SIZE body))))
    s s'"
  using chat_adds [OF assms, of c username] assms(2) handle_encrypted_chat_eq [of frame s c username]
  by (simp add: chat_frame_ok_def [abs_def] frame_wf_def)

theorem encrypted_relay_authentic_witness:
  "frame_wf (frame_byte FRAME_REQUEST_PK # str ''bob'') \<and>
   (\<exists>s'. handle_encrypted_chat example_server 1 (str ''alice'') (frame_byte FRAME_REQUEST_PK # str ''bob'') = Some s' \<and>
      adds (\<lambda>r f. r = 1) example_server s')"
proof -
  let ?frame = "frame_byte FRAME_REQUEST_PK # str ''bob''"
  have wf: "frame_wf ?frame" by (simp add: frame_wf_def FrameType_of_def const_simps)
  have ty: "FrameType_of (?frame ! 0) \<in> {FRAME_REGISTER_PK, FRAME_REQUEST_PK, FRAME_CIPHERTEXT}"
    by (simp add: FrameType_of_def)
  have mono: "adds P a b \<Longrightarrow> (\<And>r f. P r f \<Longrightarrow> Q r f) \<Longrightarrow> adds Q a b" for P Q a b
    unfolding adds_def by (fastforce split: option.splits)
  obtain s' where s': "handle_encrypted_chat example_server 1 (str ''alice'') ?frame = Some s'" and
    a: "adds (\<lambda>r f.
      r = 1 \<and> of_type f = FRAME_TEXT \<or>
      r = 1 \<and> of_type f = FRAME_PEER_PK \<and>
        (\<exists>peer. ?frame = frame_byte FRAME_REQUEST_PK # peer \<and>
           of_payload f = of_nat (length peer) # peer @
             (case get_client_public_key (registry example_server) (find_client_id (registry example_server) peer) of
                Inr key \<Rightarrow> key | Inl _ \<Rightarrow> [])) \<or>
      of_type f = FRAME_CIPHERTEXT \<and>
        (\<exists>peer body. ?frame = frame_byte FRAME_CIPHERTEXT # of_nat (length peer) # peer @ body \<and>
           find_client_id (registry example_server) peer = r \<and> of_payload f = of_nat (length (str ''alice'')) # str ''alice'' @ body \<and>
           get_client_public_key (registry example_server) 1 = Inr (take CHAT_PUBLIC_KEY_SIZE (drop CHAT_NONCE_SIZE body))))
      example_server s'"
    using encrypted_relay_authentic [OF example_server_inv wf ty] by blast
  have "adds (\<lambda>r f. r = 1) example_server s'" by (rule mono [OF a]) (elim disjE conjE exE; simp)
  with wf s' show ?thesis by blast
qed

section \<open>File transfers\<close>

text \<open>
  C12. A whole transfer arrives: if a client sends the frames of a transfer - the first frame
  naming a ready client other than itself, chunks of 1 to 900 bytes that add up to the
  announced size, the final frame - then every frame is accepted and the recipient's queue
  receives one frame for each, in order: a first frame with the sender's name and the same
  size and file name, the same chunks, the final frame, all under one number chosen by the
  server; no other queue changes and the route is gone. The transfer number must not be in
  use by the sender, the table not full, and the recipient's queue must have room.
\<close>

theorem transfer_arrives:
  assumes "has_room s target cl (length chunks + 2)" and "sender \<noteq> 0" and "file_protocol_valid_peer_name name"
    and "file_protocol_decode_begin frame = Inr b" and "length frame \<le> FRAME_MAX_SIZE"
    and "find_client_id (registry s) (fb_peer b) = target" and "target \<noteq> sender"
    and "route_map (table s) (sender, fb_transfer_id b) = None" and "\<not> routes_full (table s)"
    and "list_all chunk_ok chunks" and "length (concat chunks) = unat (fb_file_size b)"
  shows "\<exists>s' out payload.
    route_frames s sender name (frame # map (chunk_frame (fb_transfer_id b)) chunks @ [end_frame (fb_transfer_id b)]) =
      (s', replicate (length chunks + 2) (Inr ())) \<and>
    client_of (registry s') = (client_of (registry s))(target \<mapsto> push_frames
      (\<lparr>of_type = FRAME_FILE_BEGIN, of_payload = payload\<rparr> #
       map (\<lambda>d. \<lparr>of_type = FRAME_FILE_CHUNK, of_payload = write_u32 out @ d\<rparr>) chunks @
       [\<lparr>of_type = FRAME_FILE_END, of_payload = write_u32 out\<rparr>]) cl) \<and>
    file_protocol_decode_begin (frame_byte FRAME_FILE_BEGIN # payload) =
      Inr \<lparr>fb_transfer_id = out, fb_file_size = fb_file_size b, fb_peer = name, fb_filename = fb_filename b\<rparr> \<and>
    route_map (table s') = route_map (table s)"
  using transfer_forwarded [OF assms] .

theorem transfer_arrives_witness:
  "\<exists>s'. route_frames example_server 1 (str ''alice'')
     (example_begin # map (chunk_frame 9) [[1, 2, 3], [4, 5]] @ [end_frame 9]) = (s', replicate 4 (Inr ()))"
proof -
  have n: "file_protocol_valid_peer_name (str ''alice'')"
    by (simp add: file_protocol_valid_peer_name_def isspace_def iscntrl_def const_simps)
  have f: "find_client_id (registry example_server) (str ''bob'') = 2"
    by (simp add: find_client_id_def example_server_simps example_simps)
  have l: "length example_begin \<le> FRAME_MAX_SIZE" by (simp add: example_begin_def const_simps)
  have ok: "list_all chunk_ok [[1, 2, 3], [4, 5]]" by (simp add: chunk_ok_def const_simps)
  have room: "has_room example_server 2 (example_client 2 (str ''bob'')) (length [[1, 2, 3], [4, 5::byte]] + 2)"
    by (rule example_room) simp
  let ?b = "\<lparr>fb_transfer_id = 9, fb_file_size = 5, fb_peer = str ''bob'', fb_filename = str ''a.txt''\<rparr>"
  have h: "(1 :: ClientId) \<noteq> 0" "find_client_id (registry example_server) (fb_peer ?b) = 2" "(2 :: ClientId) \<noteq> 1"
    "route_map (table example_server) (1, fb_transfer_id ?b) = None"
    "length (concat [[1, 2, 3], [4, 5::byte]]) = unat (fb_file_size ?b)"
    using f by (simp_all add: example_server_simps)
  have four: "length [[1, 2, 3], [4, 5::byte]] + 2 = 4" by simp
  show ?thesis
    using transfer_arrives [OF room h(1) n example_begin_decodes l h(2,3,4) example_not_full ok h(5)]
    unfolding four FileBeginFrame.simps by blast
qed

text \<open>
  C37. Opening a route on a well-formed table: a number the sender already uses turns its route
  into a tombstone and reports the old endpoint; otherwise a full table refuses, a route
  that is only to be discarded becomes a tombstone, and in all other cases a route is opened
  under a non-zero outbound number that no live route uses. In particular an outbound number
  is always found.
\<close>

theorem route_add_outcome:
  assumes "routes_inv t" and "file_routes_add t s x target fsize discard = (t', r, ep, replaced)"
  shows "routes_inv t' \<and> r \<noteq> FILE_ROUTE_ADD_ID_UNAVAILABLE \<and>
    (case route_map t (s, x) of
       Some old \<Rightarrow> r = FILE_ROUTE_ADD_DUPLICATE \<and> route_map t' = (route_map t)((s, x) \<mapsto> Discarding) \<and>
         replaced = endpoint_of old
     | None \<Rightarrow>
         if card (dom (route_map t)) = FILE_ROUTE_CAPACITY then r = FILE_ROUTE_ADD_FULL \<and> t' = t
         else if discard then r = FILE_ROUTE_ADD_DISCARD \<and> route_map t' = (route_map t)((s, x) \<mapsto> Discarding)
         else r = FILE_ROUTE_ADD_READY \<and> ep_target_id ep = target \<and> ep_outbound_transfer_id ep \<noteq> 0 \<and>
              (\<forall>k target' fsize' fwd. route_map t k \<noteq> Some (Forwarding target' (ep_outbound_transfer_id ep) fsize' fwd)) \<and>
              route_map t' = (route_map t)((s, x) \<mapsto> Forwarding target (ep_outbound_transfer_id ep) (unat fsize) 0))"
  using add_route_spec [OF assms] by (auto simp: routes_full_def split: option.splits if_splits)

theorem route_add_outcome_witness:
  "\<exists>t' ep replaced. file_routes_add (table example_server) 1 9 2 5 False = (t', FILE_ROUTE_ADD_READY, ep, replaced)"
proof -
  obtain t' r ep replaced where a: "file_routes_add (table example_server) 1 9 2 5 False = (t', r, ep, replaced)"
    by (rule prod_cases4)
  have "routes_inv (table example_server)" using example_server_inv by (simp add: server_inv_def)
  from route_add_outcome [OF this a] a show ?thesis
    by (simp add: example_server_simps FILE_ROUTE_CAPACITY_def MAX_CLIENTS_def)
qed

text \<open>
  A chunk is forwarded exactly when its transfer is live and the bytes accepted so far and
  the chunk together do not exceed the announced size; a chunk that does not fit turns the
  route into a tombstone, a chunk without a route leaves one behind when there is room.
\<close>

theorem chunk_outcome:
  assumes "routes_inv t" and "file_routes_accept_chunk t s x n = (t', r, ep)" and "n < 2 ^ 64"
  shows "routes_inv t' \<and>
    (case route_map t (s, x) of
       None \<Rightarrow> r = FILE_ROUTE_CHUNK_MISSING \<and> ep = clear_endpoint \<and>
         route_map t' = (if card (dom (route_map t)) = FILE_ROUTE_CAPACITY then route_map t
                         else (route_map t)((s, x) \<mapsto> Discarding))
     | Some Discarding \<Rightarrow> r = FILE_ROUTE_CHUNK_DISCARD \<and> ep = clear_endpoint \<and> t' = t
     | Some (Forwarding target out fsize fwd) \<Rightarrow>
         ep = \<lparr>ep_target_id = target, ep_outbound_transfer_id = out\<rparr> \<and>
         (if fwd + n \<le> fsize
          then r = FILE_ROUTE_CHUNK_READY \<and> route_map t' = (route_map t)((s, x) \<mapsto> Forwarding target out fsize (fwd + n))
          else r = FILE_ROUTE_CHUNK_OVERRUN \<and> route_map t' = (route_map t)((s, x) \<mapsto> Discarding)))"
  using accept_chunk_spec [OF assms] unfolding routes_full_def .

theorem chunk_outcome_witness:
  "\<exists>t' ep. file_routes_accept_chunk (table example_server) 1 9 5 = (t', FILE_ROUTE_CHUNK_MISSING, ep)"
proof -
  obtain t' r ep where a: "file_routes_accept_chunk (table example_server) 1 9 5 = (t', r, ep)" by (rule prod_cases3)
  have "routes_inv (table example_server)" using example_server_inv by (simp add: server_inv_def)
  from chunk_outcome [OF this a] a show ?thesis by (simp add: example_server_simps)
qed

section \<open>Logout\<close>

text \<open>
  C36. When a client leaves, its slot is freed and nothing of its transfers is left, whatever the
  other threads do between the two steps: all its own transfers are forgotten, every transfer
  that was forwarding to it becomes a tombstone of its sender, every other route is
  untouched; its connection, its wake descriptor and the frames still queued are handed over
  to be released; and the state is well formed.
\<close>

theorem logout_cleans:
  assumes "server_inv s" and "client_of (registry s) c = Some cl" and "i < MAX_CLIENTS" and "clients (registry s) ! i = cl"
    and "keeps_gone c gap" and "logout_client gap s i c = (s', released)"
  shows "client_of (registry s') c = None \<and> server_inv s' \<and> released = Some (c_wake_fd cl, c_outgoing cl, c_connection cl) \<and>
    (\<forall>sender x. route_map (table s') (sender, x) =
       (case route_map (table (gap (s\<lparr>registry := fst (remove_client (registry s) (int i))\<rparr>))) (sender, x) of
          None \<Rightarrow> None
        | Some r \<Rightarrow> if sender = c then None
                    else if \<exists>out fsize fwd. r = Forwarding c out fsize fwd then Some Discarding else Some r))"
proof -
  let ?s0 = "s\<lparr>registry := fst (remove_client (registry s) (int i))\<rparr>"
  note e = logout_effect [OF assms(1-5), unfolded assms(6) fst_conv snd_conv]
  have "c < next_client_id (registry s)"
    using client_of_ok [OF _ assms(2)] assms(1) by (auto simp: server_inv_def client_ok_def)
  then have wf: "routes_wf (table (gap ?s0))"
    using assms(5) leave_effect [OF assms(1-4)] by (auto simp: keeps_gone_def server_inv_def)
  have "route_map (table s') (sender, x) =
       (case route_map (table (gap ?s0)) (sender, x) of
          None \<Rightarrow> None
        | Some r \<Rightarrow> if sender = c then None
                    else if \<exists>out fsize fwd. r = Forwarding c out fsize fwd then Some Discarding else Some r)" for sender x
  proof (cases "route_map (table (gap ?s0)) (sender, x)")
    case (Some r)
    then have "sender \<noteq> 0" using routes_wfD [OF wf] by (auto simp: route_wf_def)
    then show ?thesis using e(4) [of sender x] Some by (cases r) auto
  qed (use e(4) in simp)
  then show ?thesis using e(1-3) by blast
qed

theorem logout_cleans_witness: "client_of (registry (fst (logout_client id example_server 1 2))) 2 = None"
  using logout_cleans [OF example_server_inv, of 2 "example_client 2 (str ''bob'')" 1 id, OF _ _ _ _ prod.collapse [symmetric]]
  by (simp add: example_server_simps example_clients example_simps MAX_CLIENTS_def keeps_gone_def del: str_Cons)

end
