(* ===== verification/Network.thy ===== *)
theory Network
  imports Client_Manager
begin

text \<open>
  \<open>network.c\<close>: sockets, the TLS handshake and the orderly shutdown, both under one absolute
  deadline. What the clock, \<open>poll\<close>, OpenSSL and the socket calls answer is data of the model;
  a script that runs out means that the call is still blocked (\<open>None\<close>). Each timed operation
  also returns its trace: the clock readings it compared with the deadline and the events and
  timeouts it gave to \<open>poll\<close>. The error \<open>Eother 0\<close> stands for an \<open>errno\<close> of zero.
\<close>

definition TLS_HANDSHAKE_TIMEOUT_SEC :: int where "TLS_HANDSHAKE_TIMEOUT_SEC = 10"
definition TLS_SHUTDOWN_TIMEOUT_SEC :: int where "TLS_SHUTDOWN_TIMEOUT_SEC = 2"
definition INT_MAX :: int where "INT_MAX = 2 ^ 31 - 1"

lemmas timeout_consts [const_simps] = TLS_HANDSHAKE_TIMEOUT_SEC_def TLS_SHUTDOWN_TIMEOUT_SEC_def INT_MAX_def

section \<open>Sockets\<close>

record SocketOs =
  sk_socket :: "int result"
  sk_setsockopt :: "unit result"
  sk_bind :: "unit result"
  sk_listen :: "unit result"
  sk_accept :: "int result"
  sk_inet_pton :: bool
  sk_connect :: "unit result"

text \<open>The result and the descriptors closed on the way.\<close>

definition create_server_socket :: "SocketOs \<Rightarrow> int result \<times> int list" where
  "create_server_socket env =
     (case sk_socket env of
        Inl e \<Rightarrow> (Inl e, [])
      | Inr server_fd \<Rightarrow>
          case sk_setsockopt env of
            Inl e \<Rightarrow> (Inl e, [server_fd])
          | Inr _ \<Rightarrow>
              case sk_bind env of
                Inl e \<Rightarrow> (Inl e, [server_fd])
              | Inr _ \<Rightarrow>
                  case sk_listen env of
                    Inl e \<Rightarrow> (Inl e, [server_fd])
                  | Inr _ \<Rightarrow> (Inr server_fd, []))"

definition accept_client :: "SocketOs \<Rightarrow> unit result \<times> Connection" where
  "accept_client env =
     (case sk_accept env of
        Inl e \<Rightarrow> (Inl e, no_connection)
      | Inr client_fd \<Rightarrow> (Inr (), no_connection\<lparr>socket_fd := client_fd\<rparr>))"

text \<open>Every descriptor that was opened is returned or closed, and not both.\<close>

lemma create_server_socket_no_leak:
  "case create_server_socket env of
     (Inr fd, closed) \<Rightarrow> sk_socket env = Inr fd \<and> closed = []
   | (Inl _, closed) \<Rightarrow> \<forall>fd. sk_socket env = Inr fd \<longrightarrow> closed = [fd]"
  by (auto simp: create_server_socket_def split: sum.splits)

section \<open>Time\<close>

datatype net_event = Clock int | Poll poll_event int

type_synonym trace = "net_event list"

text \<open>A failing \<open>clock_gettime\<close> is an error; the readings themselves are not negative.\<close>

definition remaining_milliseconds :: "int \<Rightarrow> int result \<Rightarrow> int result \<times> trace" where
  "remaining_milliseconds deadline clock =
     (case clock of
        Inl e \<Rightarrow> (Inl e, [])
      | Inr now \<Rightarrow>
          if deadline \<le> now then (Inl ETIMEDOUT, [Clock now])
          else let remaining = deadline - now
               in (Inr (if INT_MAX < remaining then INT_MAX else remaining), [Clock now]))"

datatype wait_answer = WaitInterrupted | WaitTimeout | WaitError errno | WaitReady bool

text \<open>
  The loop around \<open>poll\<close>, which waits for what the TLS error asks for; \<open>WaitReady True\<close> is a
  descriptor that is not open.
\<close>

fun wait_for_tls :: "ssl_error \<Rightarrow> int \<Rightarrow> (int result \<times> wait_answer) list \<Rightarrow> (unit result \<times> trace) option" where
  "wait_for_tls tls_error deadline [] = None"
| "wait_for_tls tls_error deadline ((clock, answer) # rest) =
     (case remaining_milliseconds deadline clock of
        (Inl e, tr) \<Rightarrow> Some (Inl e, tr)
      | (Inr remaining, tr) \<Rightarrow>
          let tr1 = tr @ [Poll (if tls_error = SSL_ERROR_WANT_READ then POLLIN else POLLOUT) remaining]
          in case answer of
               WaitInterrupted \<Rightarrow> map_option (\<lambda>(r, tr2). (r, tr1 @ tr2)) (wait_for_tls tls_error deadline rest)
             | WaitTimeout \<Rightarrow> Some (Inl ETIMEDOUT, tr1)
             | WaitError e \<Rightarrow> Some (Inl e, tr1)
             | WaitReady invalid \<Rightarrow> Some (if invalid then Inl EBADF else Inr (), tr1))"

section \<open>Closing\<close>

datatype shutdown_answer = ShutdownComplete | NotifySent | DrainedData | ShutdownError ssl_error

record ShutdownStep =
  ss_clock :: "int result"
  ss_answer :: shutdown_answer
  ss_waits :: "(int result \<times> wait_answer) list"

text \<open>
  The loop of \<open>shutdown_tls\<close>. Before \<open>close_notify\<close> is out, \<open>SSL_shutdown\<close> answers with
  completion, with having sent it, or with an error; afterwards \<open>SSL_read_ex\<close> answers with
  data to discard or with an error. An answer of the other call ends the loop.
\<close>

fun shutdown_loop :: "bool \<Rightarrow> int \<Rightarrow> ShutdownStep list \<Rightarrow> trace option" where
  "shutdown_loop sent_notify deadline [] = None"
| "shutdown_loop sent_notify deadline (step # steps) =
     (case remaining_milliseconds deadline (ss_clock step) of
        (Inl e, tr) \<Rightarrow> Some tr
      | (Inr _, tr) \<Rightarrow>
          case ss_answer step of
            ShutdownComplete \<Rightarrow> Some tr
          | NotifySent \<Rightarrow> if sent_notify then Some tr else map_option ((@) tr) (shutdown_loop True deadline steps)
          | DrainedData \<Rightarrow> if sent_notify then map_option ((@) tr) (shutdown_loop True deadline steps) else Some tr
          | ShutdownError e \<Rightarrow>
              if \<not> wants_io e then Some tr
              else case wait_for_tls e deadline (ss_waits step) of
                     None \<Rightarrow> None
                   | Some (Inl _, tr1) \<Rightarrow> Some (tr @ tr1)
                   | Some (Inr _, tr1) \<Rightarrow> map_option (\<lambda>tr2. tr @ tr1 @ tr2) (shutdown_loop sent_notify deadline steps))"

record ShutdownOs =
  sd_start :: "int result"
  sd_nonblocking :: bool
  sd_steps :: "ShutdownStep list"

definition shutdown_tls :: "ShutdownOs \<Rightarrow> trace option" where
  "shutdown_tls env =
     (case sd_start env of
        Inl e \<Rightarrow> Some []
      | Inr started \<Rightarrow>
          if \<not> sd_nonblocking env then Some []
          else shutdown_loop False (started + TLS_SHUTDOWN_TIMEOUT_SEC * 1000) (sd_steps env))"

text \<open>Whether the TLS session is shut down, not merely dropped: never after a failed call on it.\<close>

definition shuts_down :: "bool \<Rightarrow> Connection \<Rightarrow> bool" where
  "shuts_down graceful connection \<longleftrightarrow>
     ssl connection \<noteq> None \<and> 0 \<le> socket_fd connection \<and> graceful \<and> \<not> tls_io_failed connection"

text \<open>The new connection record, the descriptors closed and the trace of the shutdown.\<close>

definition close_connection :: "ShutdownOs \<Rightarrow> bool \<Rightarrow> Connection \<Rightarrow> (Connection \<times> int list \<times> trace) option" where
  "close_connection env graceful connection =
     map_option (\<lambda>tr. (no_connection, if 0 \<le> socket_fd connection then [socket_fd connection] else [], tr))
       (if shuts_down graceful connection then shutdown_tls env else Some [])"

section \<open>The handshake\<close>

datatype handshake_answer = HandshakeDone | HandshakeError ssl_error errno

record HandshakeStep =
  hs_clock :: "int result"
  hs_answer :: handshake_answer
  hs_clock_after :: "int result"
  hs_waits :: "(int result \<times> wait_answer) list"

fun handshake_loop :: "int \<Rightarrow> HandshakeStep list \<Rightarrow> (unit result \<times> trace) option" where
  "handshake_loop deadline [] = None"
| "handshake_loop deadline (step # steps) =
     (case remaining_milliseconds deadline (hs_clock step) of
        (Inl e, tr) \<Rightarrow> Some (Inl e, tr)
      | (Inr _, tr) \<Rightarrow>
          case hs_answer step of
            HandshakeDone \<Rightarrow>
              (case remaining_milliseconds deadline (hs_clock_after step) of
                 (Inl e, tr1) \<Rightarrow> Some (Inl e, tr @ tr1)
               | (Inr _, tr1) \<Rightarrow> Some (Inr (), tr @ tr1))
          | HandshakeError e saved_errno \<Rightarrow>
              if \<not> wants_io e
              then Some (Inl (if e = SSL_ERROR_SYSCALL \<and> saved_errno \<noteq> Eother 0 then saved_errno else EPROTO), tr)
              else case wait_for_tls e deadline (hs_waits step) of
                     None \<Rightarrow> None
                   | Some (Inl e, tr1) \<Rightarrow> Some (Inl e, tr @ tr1)
                   | Some (Inr _, tr1) \<Rightarrow>
                       map_option (\<lambda>(r, tr2). (r, tr @ tr1 @ tr2)) (handshake_loop deadline steps))"

text \<open>
  The OpenSSL context: protocol versions, what was loaded, and whether the peer's certificate
  is verified. \<open>cx\<close> are the answers of the calls; a failing one ends the process, which is the
  value \<open>None\<close>. Versions are OpenSSL's codes.
\<close>

definition TLS1_3_VERSION :: nat where "TLS1_3_VERSION = 0x0304"

record SslCtx =
  ctx_client :: bool
  ctx_min_version :: nat
  ctx_max_version :: nat
  ctx_certificate :: bool
  ctx_private_key :: bool
  ctx_trusted :: bool
  ctx_verify_peer :: bool

record ContextOs =
  cx_new :: bool
  cx_set_min :: bool
  cx_set_max :: bool
  cx_use_certificate :: bool
  cx_use_private_key :: bool
  cx_check_private_key :: bool
  cx_load_verify :: bool

definition create_context :: "ContextOs \<Rightarrow> bool \<Rightarrow> SslCtx option" where
  "create_context env is_client =
     (if \<not> cx_new env then None
      else let ctx = \<lparr>ctx_client = is_client, ctx_min_version = 0, ctx_max_version = 0, ctx_certificate = False,
                      ctx_private_key = False, ctx_trusted = False, ctx_verify_peer = False\<rparr>
           in if \<not> cx_set_min env \<or> \<not> cx_set_max env then None
              else let ctx1 = ctx\<lparr>ctx_min_version := TLS1_3_VERSION, ctx_max_version := TLS1_3_VERSION\<rparr>
                   in if \<not> is_client
                      then if \<not> cx_use_certificate env \<or> \<not> cx_use_private_key env \<or> \<not> cx_check_private_key env then None
                           else Some (ctx1\<lparr>ctx_certificate := True, ctx_private_key := True\<rparr>)
                      else if \<not> cx_load_verify env then None
                           else Some (ctx1\<lparr>ctx_trusted := True, ctx_verify_peer := True\<rparr>))"

text \<open>What both roles may rely on: nothing older than TLS 1.3, and a client that verifies its server.\<close>

definition context_secure :: "bool \<Rightarrow> SslCtx \<Rightarrow> bool" where
  "context_secure is_client ctx \<longleftrightarrow> ctx_min_version ctx = TLS1_3_VERSION \<and> ctx_max_version ctx = TLS1_3_VERSION \<and>
     (if is_client then ctx_trusted ctx \<and> ctx_verify_peer ctx else ctx_certificate ctx \<and> ctx_private_key ctx)"

lemma create_context_secure: "create_context env is_client = Some ctx \<Longrightarrow> context_secure is_client ctx"
  by (auto simp: create_context_def context_secure_def Let_def split: if_splits)

text \<open>
  The calls around the loop, in order: the new TLS object, the non-blocking mode, binding the
  descriptor, for a client the expected address; \<open>hk_blocking\<close> restores the mode.
\<close>

record HandshakeOs =
  hk_start :: "int result"
  hk_context :: ContextOs
  hk_ssl :: nat
  hk_ssl_new :: "unit result"
  hk_nonblocking :: "unit result"
  hk_set_fd :: "unit result"
  hk_set_ip :: "unit result"
  hk_steps :: "HandshakeStep list"
  hk_blocking :: "unit result"

fun first_failure :: "unit result list \<Rightarrow> unit result" where
  "first_failure [] = Inr ()"
| "first_failure (Inl e # rs) = Inl e"
| "first_failure (Inr _ # rs) = first_failure rs"

lemma first_failure_Inr: "first_failure rs = Inr u \<longleftrightarrow> (\<forall>r\<in>set rs. r = Inr ())"
  by (induction rs rule: first_failure.induct) auto

definition errno_or_proto :: "errno \<Rightarrow> errno" where
  "errno_or_proto e = (if e = Eother 0 then EPROTO else e)"

definition handshake_setup :: "HandshakeOs \<Rightarrow> bool \<Rightarrow> unit result" where
  "handshake_setup env is_client =
     first_failure ([hk_ssl_new env, hk_nonblocking env, hk_set_fd env] @ (if is_client then [hk_set_ip env] else []))"

text \<open>
  On failure the descriptor is closed and the record cleared; nothing is exchanged any more.
  \<open>None\<close> is a handshake that does not return: it still waits, or the process has ended.
\<close>

definition perform_tls_handshake ::
  "HandshakeOs \<Rightarrow> bool \<Rightarrow> Connection \<Rightarrow> (unit result \<times> Connection \<times> int list \<times> trace) option" where
  "perform_tls_handshake env is_client connection =
     (let failed = (\<lambda>e tr. Some (Inl (errno_or_proto e), no_connection,
                       (if 0 \<le> socket_fd connection then [socket_fd connection] else []), tr))
      in case hk_start env of
           Inl e \<Rightarrow> Some (Inl e, no_connection, (if 0 \<le> socket_fd connection then [socket_fd connection] else []), [])
         | Inr started \<Rightarrow>
             case create_context (hk_context env) is_client of
               None \<Rightarrow> None
             | Some ctx \<Rightarrow>
                 case handshake_setup env is_client of
                   Inl e \<Rightarrow> failed e []
                 | Inr _ \<Rightarrow>
                     case handshake_loop (started + TLS_HANDSHAKE_TIMEOUT_SEC * 1000) (hk_steps env) of
                       None \<Rightarrow> None
                     | Some (Inl e, tr) \<Rightarrow> failed e tr
                     | Some (Inr _, tr) \<Rightarrow>
                         case hk_blocking env of
                           Inl e \<Rightarrow> failed e tr
                         | Inr _ \<Rightarrow> Some (Inr (), connection\<lparr>ssl := Some (hk_ssl env), tls_io_failed := False\<rparr>, [], tr))"

definition connect_to_server :: "SocketOs \<Rightarrow> HandshakeOs \<Rightarrow> (unit result \<times> Connection \<times> int list \<times> trace) option" where
  "connect_to_server env hk =
     (case sk_socket env of
        Inl e \<Rightarrow> Some (Inl e, no_connection, [], [])
      | Inr client_fd \<Rightarrow>
          if \<not> sk_inet_pton env then Some (Inl EINVAL, no_connection, [client_fd], [])
          else case sk_connect env of
                 Inl e \<Rightarrow> Some (Inl e, no_connection, [client_fd], [])
               | Inr _ \<Rightarrow> perform_tls_handshake hk True (no_connection\<lparr>socket_fd := client_fd\<rparr>))"

section \<open>The deadline\<close>

text \<open>
  A trace respects a deadline: the clock is read before every \<open>poll\<close>, a timeout given to
  \<open>poll\<close> is positive and does not reach beyond the deadline seen from the last reading.
\<close>

fun in_time :: "int \<Rightarrow> int option \<Rightarrow> trace \<Rightarrow> bool" where
  "in_time deadline seen [] \<longleftrightarrow> True"
| "in_time deadline seen (Clock now # tr) \<longleftrightarrow> in_time deadline (Some now) tr"
| "in_time deadline seen (Poll event timeout # tr) \<longleftrightarrow>
     (case seen of None \<Rightarrow> False | Some now \<Rightarrow> 0 < timeout \<and> now + timeout \<le> deadline \<and> timeout \<le> INT_MAX) \<and>
     in_time deadline seen tr"

fun last_reading :: "int option \<Rightarrow> trace \<Rightarrow> int option" where
  "last_reading seen [] = seen"
| "last_reading seen (Clock now # tr) = last_reading (Some now) tr"
| "last_reading seen (Poll event timeout # tr) = last_reading seen tr"

lemma in_time_append:
  "in_time d l (a @ b) \<longleftrightarrow> in_time d l a \<and> in_time d (last_reading l a) b"
  by (induction d l a rule: in_time.induct) auto

lemma last_reading_append: "last_reading l (a @ b) = last_reading (last_reading l a) b"
  by (induction l a rule: last_reading.induct) auto

lemma remaining_cases:
  assumes "remaining_milliseconds d clock = (r, tr)"
  shows "in_time d l tr"
    and "r = Inr n \<Longrightarrow> \<exists>now. clock = Inr now \<and> tr = [Clock now] \<and> now < d \<and> 0 < n \<and> now + n \<le> d \<and> n \<le> INT_MAX"
  using assms by (auto simp: remaining_milliseconds_def Let_def const_simps split: sum.splits if_splits)

text \<open>All readings but possibly the last are before the deadline.\<close>

definition before :: "int \<Rightarrow> int option \<Rightarrow> bool" where
  "before d l \<longleftrightarrow> (\<exists>now. l = Some now \<and> now < d)"

lemma wait_for_tls_in_time:
  "wait_for_tls x d ws = Some (r, tr) \<Longrightarrow> in_time d l tr \<and> (r = Inr () \<longrightarrow> before d (last_reading l tr))"
proof (induction x d ws arbitrary: r tr l rule: wait_for_tls.induct)
  case (2 x d clock answer rest)
  obtain q tr0 where q: "remaining_milliseconds d clock = (q, tr0)" by fastforce
  show ?case
  proof (cases q)
    case (Inl e)
    then show ?thesis using "2.prems" q remaining_cases(1) [OF q] by auto
  next
    case (Inr n)
    then obtain now where now: "tr0 = [Clock now]" "now < d" "0 < n" "now + n \<le> d" "n \<le> INT_MAX"
      using remaining_cases(2) [OF q] by blast
    show ?thesis
    proof (cases "answer = WaitInterrupted")
      case True
      with "2.prems" q Inr obtain ev tr2 where "wait_for_tls x d rest = Some (r, tr2)" "tr = tr0 @ [Poll ev n] @ tr2"
        by (auto simp: Let_def)
      with "2.IH" [OF q [symmetric] Inr refl True, of r tr2 "Some now"] now show ?thesis
        by simp
    next
      case False
      then show ?thesis using "2.prems" q Inr now
        by (auto simp: Let_def before_def split: wait_answer.splits)
    qed
  qed
qed simp

lemma handshake_loop_in_time:
  "handshake_loop d steps = Some (r, tr) \<Longrightarrow> in_time d l tr \<and> (r = Inr () \<longrightarrow> before d (last_reading l tr))"
proof (induction d steps arbitrary: r tr l rule: handshake_loop.induct)
  case (2 d step steps)
  obtain q tr0 where q: "remaining_milliseconds d (hs_clock step) = (q, tr0)" by fastforce
  note r0 = remaining_cases(1) [OF q]
  show ?case
  proof (cases q)
    case (Inl e)
    then show ?thesis using "2.prems" q r0 by auto
  next
    case (Inr n)
    show ?thesis
    proof (cases "hs_answer step")
      case HandshakeDone
      obtain q1 tr1 where q1: "remaining_milliseconds d (hs_clock_after step) = (q1, tr1)" by fastforce
      have "tr = tr0 @ tr1" "r = map_sum id (\<lambda>_. ()) q1"
        using "2.prems" q Inr HandshakeDone q1 by (auto split: sum.splits)
      then show ?thesis
        using r0 remaining_cases [OF q1] by (cases q1) (auto simp: in_time_append last_reading_append before_def)
    next
      case (HandshakeError e saved)
      show ?thesis
      proof (cases "wants_io e")
        case False
        then show ?thesis using "2.prems" q Inr HandshakeError r0 by auto
      next
        case True
        then obtain w tr1 where w: "wait_for_tls e d (hs_waits step) = Some (w, tr1)"
          using "2.prems" q Inr HandshakeError by (cases "wait_for_tls e d (hs_waits step)") auto
        show ?thesis
        proof (cases w)
          case (Inl x)
          then show ?thesis using "2.prems" q Inr HandshakeError True w r0 wait_for_tls_in_time [OF w]
            by (auto simp: in_time_append)
        next
          case w': (Inr u)
          with "2.prems" q Inr HandshakeError True w obtain tr2 where
            tr2: "handshake_loop d steps = Some (r, tr2)" "tr = tr0 @ tr1 @ tr2" by auto
          have "in_time d l' tr2 \<and> (r = Inr () \<longrightarrow> before d (last_reading l' tr2))" for l'
            by (rule "2.IH" [OF q [symmetric] Inr HandshakeError _ w refl w' tr2(1)]) (use True in simp)
          then show ?thesis using r0 wait_for_tls_in_time [OF w] tr2(2) by (simp add: in_time_append last_reading_append)
        qed
      qed
    qed
  qed
qed simp

lemma shutdown_loop_in_time: "shutdown_loop b d steps = Some tr \<Longrightarrow> in_time d l tr"
proof (induction b d steps arbitrary: tr l rule: shutdown_loop.induct)
  case (2 b d step steps)
  obtain q tr0 where q: "remaining_milliseconds d (ss_clock step) = (q, tr0)" by fastforce
  note r0 = remaining_cases(1) [OF q]
  show ?case
  proof (cases "tr = tr0")
    case True
    then show ?thesis using r0 by simp
  next
    case False
    then obtain n where n: "q = Inr n" using "2.prems" q by (cases q) auto
    show ?thesis
    proof (cases "ss_answer step")
      case (ShutdownError e)
      with False n q "2.prems" obtain w tr1 where w: "wants_io e" "wait_for_tls e d (ss_waits step) = Some (w, tr1)"
        by (cases "wait_for_tls e d (ss_waits step)") (auto split: if_splits)
      show ?thesis
      proof (cases w)
        case (Inl x)
        then show ?thesis using "2.prems" q n ShutdownError w r0 wait_for_tls_in_time [OF w(2)]
          by (auto simp: in_time_append)
      next
        case w': (Inr u)
        with "2.prems" q n ShutdownError w obtain tr2 where
          tr2: "shutdown_loop b d steps = Some tr2" "tr = tr0 @ tr1 @ tr2" by auto
        have "in_time d l' tr2" for l'
          by (rule "2.IH"(3) [OF q [symmetric] n ShutdownError _ w(2) refl w' tr2(1)]) (use w(1) in simp)
        then show ?thesis using r0 wait_for_tls_in_time [OF w(2)] tr2(2) by (simp add: in_time_append)
      qed
    next
      case NotifySent
      with False n q "2.prems" obtain tr2 where tr2: "\<not> b" "shutdown_loop True d steps = Some tr2" "tr = tr0 @ tr2"
        by (auto split: if_splits)
      have "in_time d l' tr2" for l' by (rule "2.IH"(1) [OF q [symmetric] n NotifySent tr2(1,2)])
      then show ?thesis using r0 tr2(3) by (simp add: in_time_append)
    next
      case DrainedData
      with False n q "2.prems" obtain tr2 where tr2: "b" "shutdown_loop True d steps = Some tr2" "tr = tr0 @ tr2"
        by (auto split: if_splits)
      have "in_time d l' tr2" for l' by (rule "2.IH"(2) [OF q [symmetric] n DrainedData tr2(1,2)])
      then show ?thesis using r0 tr2(3) by (simp add: in_time_append)
    qed (use False n q "2.prems" in auto)
  qed
qed simp


lemma handshake_outcome:
  assumes "perform_tls_handshake env is_client c = Some (r, c', closed, tr)" and "hk_start env = Inr started"
  shows "in_time (started + 10000) None tr \<and>
    (case r of
       Inr _ \<Rightarrow> (\<exists>now. last_reading None tr = Some now \<and> now < started + 10000) \<and>
         (\<exists>ctx. create_context (hk_context env) is_client = Some ctx \<and> context_secure is_client ctx) \<and>
         (is_client \<longrightarrow> hk_set_ip env = Inr ()) \<and>
         c' = c\<lparr>ssl := Some (hk_ssl env), tls_io_failed := False\<rparr> \<and> closed = []
     | Inl e \<Rightarrow> e \<noteq> Eother 0 \<and> c' = no_connection \<and> closed = (if 0 \<le> socket_fd c then [socket_fd c] else []))"
proof -
  have d: "started + TLS_HANDSHAKE_TIMEOUT_SEC * 1000 = started + 10000" by (simp add: const_simps)
  have nz: "errno_or_proto e \<noteq> Eother 0" for e by (simp add: errno_or_proto_def)
  obtain ctx where ctx: "create_context (hk_context env) is_client = Some ctx"
    using assms by (cases "create_context (hk_context env) is_client") (auto simp: perform_tls_handshake_def Let_def)
  have ip: "handshake_setup env is_client = Inr () \<Longrightarrow> is_client \<Longrightarrow> hk_set_ip env = Inr ()"
    by (simp add: handshake_setup_def first_failure_Inr)
  show ?thesis
  proof (cases "handshake_setup env is_client")
    case (Inl e)
    then show ?thesis using assms ctx nz by (auto simp: perform_tls_handshake_def Let_def)
  next
    case (Inr u)
    then obtain q t where q: "handshake_loop (started + 10000) (hk_steps env) = Some (q, t)"
      using assms ctx d by (cases "handshake_loop (started + 10000) (hk_steps env)") (auto simp: perform_tls_handshake_def Let_def)
    have "tr = t" "r = Inr () \<Longrightarrow> q = Inr ()"
      using assms Inr ctx q nz by (auto simp: perform_tls_handshake_def Let_def d split: sum.splits)
    moreover have "case r of
       Inr _ \<Rightarrow> c' = c\<lparr>ssl := Some (hk_ssl env), tls_io_failed := False\<rparr> \<and> closed = []
     | Inl e \<Rightarrow> e \<noteq> Eother 0 \<and> c' = no_connection \<and> closed = (if 0 \<le> socket_fd c then [socket_fd c] else [])"
      using assms Inr ctx q nz by (auto simp: perform_tls_handshake_def Let_def d split: sum.splits)
    ultimately show ?thesis
      using handshake_loop_in_time [OF q, of None] Inr ip ctx create_context_secure [OF ctx]
      by (cases r) (auto simp: before_def)
  qed
qed

lemma handshake_closing:
  assumes "perform_tls_handshake env is_client c = Some (r, c', closed, tr)"
  shows "case r of Inr _ \<Rightarrow> c' = c\<lparr>ssl := Some (hk_ssl env), tls_io_failed := False\<rparr> \<and> closed = []
    | Inl e \<Rightarrow> c' = no_connection \<and> closed = (if 0 \<le> socket_fd c then [socket_fd c] else [])"
proof (cases "hk_start env")
  case (Inr started)
  from handshake_outcome [OF assms Inr] show ?thesis by (auto split: sum.splits)
qed (use assms in \<open>auto simp: perform_tls_handshake_def Let_def\<close>)

text \<open>The shutdown keeps to its own deadline, and closing always leaves an empty record.\<close>

lemma close_outcome:
  assumes "close_connection env graceful c = Some (c', closed, tr)"
  shows "c' = no_connection \<and> closed = (if 0 \<le> socket_fd c then [socket_fd c] else []) \<and>
    (tr = [] \<or> (\<exists>started. sd_start env = Inr started \<and> in_time (started + 2000) None tr))"
proof -
  have "tr = [] \<or> (\<exists>started. sd_start env = Inr started \<and> shutdown_loop False (started + 2000) (sd_steps env) = Some tr)"
    using assms by (auto simp: close_connection_def shuts_down_def shutdown_tls_def const_simps split: if_splits sum.splits)
  then show ?thesis using assms shutdown_loop_in_time by (auto simp: close_connection_def shuts_down_def split: if_splits)
qed

text \<open>
  C27. The handshake keeps to one absolute deadline of ten seconds after its start, through all
  retries and interrupted waits: every wait is given a positive time that ends no later than
  the deadline as seen from the clock reading just before it, and the handshake succeeds
  only if the last reading is before the deadline. On success the connection holds the new
  TLS object, made in a context that allows TLS 1.3 only and, for a client, verifies the
  server's certificate and address, and its descriptor stays open; on every failure the descriptor is closed exactly
  once, the record is cleared, and the error is a proper one.
\<close>

theorem handshake_deadline:
  assumes "perform_tls_handshake env is_client c = Some (r, c', closed, tr)" and "hk_start env = Inr started"
  shows "in_time (started + 10000) None tr \<and>
    (case r of
       Inr _ \<Rightarrow> (\<exists>now. last_reading None tr = Some now \<and> now < started + 10000) \<and>
         (\<exists>ctx. create_context (hk_context env) is_client = Some ctx \<and> context_secure is_client ctx) \<and>
         (is_client \<longrightarrow> hk_set_ip env = Inr ()) \<and>
         c' = c\<lparr>ssl := Some (hk_ssl env), tls_io_failed := False\<rparr> \<and> closed = []
     | Inl e \<Rightarrow> e \<noteq> Eother 0 \<and> c' = no_connection \<and> closed = (if 0 \<le> socket_fd c then [socket_fd c] else []))"
  by (rule handshake_outcome [OF assms])

definition example_handshake :: HandshakeOs where
  "example_handshake = \<lparr>hk_start = Inr 500, hk_context = \<lparr>cx_new = True, cx_set_min = True, cx_set_max = True,
       cx_use_certificate = False, cx_use_private_key = False, cx_check_private_key = False, cx_load_verify = True\<rparr>,
     hk_ssl = 0, hk_ssl_new = Inr (), hk_nonblocking = Inr (), hk_set_fd = Inr (), hk_set_ip = Inr (),
     hk_steps = [\<lparr>hs_clock = Inr 501, hs_answer = HandshakeError SSL_ERROR_WANT_READ (Eother 0), hs_clock_after = Inr 0,
                   hs_waits = [(Inr 600, WaitInterrupted), (Inr 4000, WaitReady False)]\<rparr>,
                 \<lparr>hs_clock = Inr 4100, hs_answer = HandshakeDone, hs_clock_after = Inr 4200, hs_waits = []\<rparr>],
     hk_blocking = Inr ()\<rparr>"

lemma example_handshake_run:
  "perform_tls_handshake example_handshake True (no_connection\<lparr>socket_fd := 5\<rparr>) =
     Some (Inr (), no_connection\<lparr>socket_fd := 5, ssl := Some 0\<rparr>, [],
       [Clock 501, Clock 600, Poll POLLIN 9900, Clock 4000, Poll POLLIN 6500, Clock 4100, Clock 4200])"
  by (simp add: perform_tls_handshake_def create_context_def handshake_setup_def example_handshake_def Let_def const_simps remaining_milliseconds_def wants_io_def
      no_connection_def)

theorem handshake_deadline_witness:
  "in_time 10500 None [Clock 501, Clock 600, Poll POLLIN 9900, Clock 4000, Poll POLLIN 6500, Clock 4100, Clock 4200]"
  using handshake_deadline [OF example_handshake_run, of 500] by (simp add: example_handshake_def)

end
