(* ===== verification/Server_Session.thy ===== *)
theory Server_Session
  imports Server_Properties Network
begin

text \<open>
  The thread of one connection: \<open>handle_client\<close> of \<open>server.c\<close>, from the accepted descriptor to
  its end, with the handshake, the login, the loop of the worker and the release of everything
  the connection held. \<open>ClientThread\<close> is what the thread owns: its connection, the receive
  timeouts of its socket, and the descriptors it has closed. \<open>SessionOs\<close> holds the answers of
  the calls and what other threads do to the shared state at each point where the thread is
  outside a critical section. \<open>None\<close> is a thread that is still blocked or still running.
\<close>

section \<open>Operations\<close>

record ClientThread =
  th_tls :: Tls
  th_timeouts :: timeouts
  th_closed :: "int list"
  th_shutdown :: bool

record SessionOs =
  so_set_timeout :: "unit result"
  so_handshake :: HandshakeOs
  so_arrival :: "Server \<Rightarrow> Server"
  so_unset_timeout :: "unit result"
  so_added :: "Server \<Rightarrow> Server"
  so_welcome :: "Server \<Rightarrow> Server"
  so_started :: "Server \<Rightarrow> Server"
  so_nonblocking :: "errno option"
  so_turns :: "Turn list"
  so_ended :: "Server \<Rightarrow> Server"
  so_removed :: "Server \<Rightarrow> Server"
  so_shutdown :: ShutdownOs

text \<open>\<open>close_connection\<close> of the thread's own record.\<close>

definition close_here :: "ShutdownOs \<Rightarrow> bool \<Rightarrow> ClientThread \<Rightarrow> ClientThread option" where
  "close_here env graceful th =
     do { (connection, fds, _) \<leftarrow> close_connection env graceful (conn (th_tls th));
          Some (th\<lparr>th_tls := (th_tls th)\<lparr>conn := connection\<rparr>, th_closed := th_closed th @ fds,
                   th_shutdown := th_shutdown th \<or> shuts_down graceful (conn (th_tls th))\<rparr>) }"

text \<open>
  The part of \<open>remove_client\<close> after its critical section: the wake descriptor and the registry's
  copy of the connection are closed, the queued frames freed. The thread's own record stays.
\<close>

definition release_client ::
  "ShutdownOs \<Rightarrow> bool \<Rightarrow> (int \<times> OutgoingFrame list \<times> Connection) option \<Rightarrow> ClientThread \<Rightarrow> ClientThread option" where
  "release_client env graceful released th =
     (case released of
        None \<Rightarrow> Some th
      | Some (wake_fd, pending, connection) \<Rightarrow>
          do { (_, fds, _) \<leftarrow> close_connection env graceful connection;
               Some (th\<lparr>th_closed := th_closed th @ (if 0 \<le> wake_fd then [wake_fd] else []) @ fds,
                        th_shutdown := th_shutdown th \<or> shuts_down graceful connection\<rparr>) })"

definition drop_client ::
  "SessionOs \<Rightarrow> bool \<Rightarrow> Server \<Rightarrow> nat \<Rightarrow> ClientThread \<Rightarrow> (Server \<times> ClientThread) option" where
  "drop_client env graceful s client_index th =
     (let (reg, released) = remove_client (registry s) (int client_index)
      in do { th1 \<leftarrow> release_client (so_shutdown env) graceful released th; Some (s\<lparr>registry := reg\<rparr>, th1) })"

text \<open>A last message before closing; whether it could be sent is ignored.\<close>

definition refuse :: "SessionOs \<Rightarrow> bytes \<Rightarrow> ClientThread \<Rightarrow> ClientThread option" where
  "refuse env message th =
     do { (_, t) \<leftarrow> send_message (th_tls th) message; close_here (so_shutdown env) True (th\<lparr>th_tls := t\<rparr>) }"

definition login_error :: "errno \<Rightarrow> nat \<times> bytes" where
  "login_error e = snprintf BUFFER_SIZE (format (str ''Login failed: %s.'' @ [10])
     [if e = EEXIST then str ''username is already in use'' else str ''invalid username or server is full''])"

text \<open>From a successful \<open>add_client\<close> to the start of the worker.\<close>

definition enter_client ::
  "SessionOs \<Rightarrow> Server \<Rightarrow> ClientThread \<Rightarrow> nat \<Rightarrow> bytes \<Rightarrow> (Server \<times> ClientThread \<times> (nat \<times> ClientId \<times> bytes) option) option" where
  "enter_client env s th i username =
     (let s2 = so_added env s; client_id = get_client_id (registry s2) (int i)
      in do { (welcomed, t2) \<leftarrow> send_welcome_message username (th_tls th);
              let th3 = th\<lparr>th_tls := t2\<rparr>; s3 = so_welcome env s2
              in case welcomed of
                   Inl _ \<Rightarrow> do { (s4, th4) \<leftarrow> drop_client env False s3 i th3; Some (s4, th4, None) }
                 | Inr _ \<Rightarrow>
                     (case activate_client (registry s3) (int i) of
                        (reg2, Inl _) \<Rightarrow>
                          do { (s4, th4) \<leftarrow> drop_client env True (s3\<lparr>registry := reg2\<rparr>) i th3; Some (s4, th4, None) }
                      | (reg2, Inr _) \<Rightarrow> Some (s3\<lparr>registry := reg2\<rparr>, th3, Some (i, client_id, username))) })"

text \<open>
  From the end of the handshake to the start of the worker: the index, the identifier and the
  name of the client, or \<open>None\<close> when the connection was closed.
\<close>

definition login_client ::
  "SessionOs \<Rightarrow> Server \<Rightarrow> ClientThread \<Rightarrow> (Server \<times> ClientThread \<times> (nat \<times> ClientId \<times> bytes) option) option" where
  "login_client env s th =
     do { (received, t1) \<leftarrow> receive_message (th_tls th) USERNAME_SIZE;
          let th1 = th\<lparr>th_tls := t1\<rparr>
          in case received of
               Inl e \<Rightarrow>
                 do { th2 \<leftarrow> (if e = EAGAIN then refuse env (str ''Login failed: username timeout.'' @ [10]) th1
                              else close_here (so_shutdown env) True th1);
                      Some (s, th2, None) }
             | Inr username \<Rightarrow>
                 if username = []
                 then do { th2 \<leftarrow> close_here (so_shutdown env) True th1; Some (s, th2, None) }
                 else if 0 \<in> set username
                 then do { th2 \<leftarrow> refuse env (str ''Login failed: invalid username.'' @ [10]) th1; Some (s, th2, None) }
                 else let th2 = th1\<lparr>th_timeouts := unset_timeout_for_socket (so_unset_timeout env)
                                        (socket_fd (conn t1)) (th_timeouts th1)\<rparr>;
                          s1 = so_arrival env s
                      in case add_client (registry s1) (conn t1) username of
                           (reg, Inl e) \<Rightarrow>
                             let (written, message) = login_error e
                             in do { th3 \<leftarrow> (if 0 < written \<and> written < BUFFER_SIZE then refuse env message th2
                                             else close_here (so_shutdown env) True th2);
                                     Some (s1\<lparr>registry := reg\<rparr>, th3, None) }
                         | (reg, Inr client_index) \<Rightarrow>
                             enter_client env (s1\<lparr>registry := reg\<rparr>) th2 client_index username }"

text \<open>The worker and the end of the function. The release uses whether the worker ended without an error.\<close>

definition serve_client ::
  "SessionOs \<Rightarrow> Server \<Rightarrow> ClientThread \<Rightarrow> nat \<Rightarrow> ClientId \<Rightarrow> bytes \<Rightarrow> (Server \<times> ClientThread) option" where
  "serve_client env s th client_index client_id username =
     (case run_client_worker handle_client_frame (so_nonblocking env) (so_turns env) (so_started env s) (th_tls th)
             client_id username of
        Return ss worker_result \<Rightarrow>
          let (s1, released) = logout_client (so_removed env) (so_ended env (ss_server ss)) client_index client_id
          in do { th1 \<leftarrow> release_client (so_shutdown env) (worker_result = Inr ()) released (th\<lparr>th_tls := ss_tls ss\<rparr>);
                  Some (s1, th1) }
      | _ \<Rightarrow> None)"

definition handle_client :: "SessionOs \<Rightarrow> Server \<Rightarrow> ClientThread \<Rightarrow> (Server \<times> ClientThread) option" where
  "handle_client env s th =
     (let th1 = th\<lparr>th_timeouts := set_timeout_for_socket (so_set_timeout env) (socket_fd (conn (th_tls th))) (th_timeouts th)\<rparr>
      in do { (r, connection, fds, _) \<leftarrow> perform_tls_handshake (so_handshake env) False (conn (th_tls th1));
              let th2 = th1\<lparr>th_tls := (th_tls th1)\<lparr>conn := connection\<rparr>, th_closed := th_closed th1 @ fds\<rparr>
              in case r of
                   Inl _ \<Rightarrow> Some (s, th2)
                 | Inr _ \<Rightarrow>
                     do { (s1, th3, session) \<leftarrow> login_client env s th2;
                          case session of
                            None \<Rightarrow> Some (s1, th3)
                          | Some (client_index, client_id, username) \<Rightarrow>
                              serve_client env s1 th3 client_index client_id username } })"

section \<open>What other threads may do\<close>

text \<open>
  Other threads keep the state well formed, do not remove the client \<open>c\<close>, whose slot only
  evolves, and never issue its identifier a second time.
\<close>

definition spares :: "ClientId \<Rightarrow> Server \<Rightarrow> Server \<Rightarrow> bool" where
  "spares c s s' \<longleftrightarrow> server_inv s' \<and> next_client_id (registry s) \<le> next_client_id (registry s') \<and>
     (\<forall>i. in_slot (registry s) i c \<longrightarrow>
        in_slot (registry s') i c \<and> evolves (clients (registry s) ! i) (clients (registry s') ! i)) \<and>
     (client_of (registry s) c = None \<and> c < next_client_id (registry s) \<longrightarrow> client_of (registry s') c = None)"

lemma spares_refl: "server_inv s \<Longrightarrow> spares c s s"
  by (simp add: spares_def)

lemma spares_inv: "spares c s s' \<Longrightarrow> server_inv s'"
  by (simp add: spares_def)

lemma spares_trans: "spares c s s1 \<Longrightarrow> spares c s1 s' \<Longrightarrow> spares c s s'"
  unfolding spares_def by (meson evolves_trans order_trans order_less_le_trans)

lemma spares_cong:
  assumes "spares c s s1" "clients (registry s') = clients (registry s1)"
    "next_client_id (registry s') = next_client_id (registry s1)" "table s' = table s1"
  shows "spares c s s'"
  using assms by (simp add: spares_def in_slot_def client_of_def server_inv_def registry_inv_def)

lemma spares_registry:
  assumes "server_inv s" "registry_step (registry s) es reg" "Closed c \<notin> set es"
  shows "spares c s (s\<lparr>registry := reg\<rparr>)"
proof -
  have inv: "registry_inv (registry s)" using assms(1) by (simp add: server_inv_def)
  show ?thesis
    using assms registry_step_keeps_slot [OF assms(2) inv] registry_step_closed [OF assms(2) inv]
      registry_step_next [OF assms(2) inv] registry_step_inv [OF assms(2) inv]
    by (auto simp: spares_def server_inv_def)
qed

lemma spares_run:
  assumes "server_run s es s'" "server_inv s" "Reg (Closed c) \<notin> set es"
  shows "spares c s s'"
  using assms
proof (induction rule: server_run.induct)
  case (step s es s1 fs s')
  note s1 = server_run_inv [OF step(1,4)]
  have "spares c s1 s'" using step(2)
  proof cases
    case (registry es' reg)
    then show ?thesis using spares_registry [OF s1, of es' reg c] step(5) by auto
  next
    case (routes es' t)
    then show ?thesis using server_step_inv [OF step(2) s1] by (simp add: spares_def)
  qed
  then show ?case using spares_trans step by simp
qed (rule spares_refl)

lemma spares_reaches: "reaches s s' \<Longrightarrow> server_inv s \<Longrightarrow> spares c s s'"
  unfolding reaches_def using spares_run by blast

text \<open>What the threads of other clients do, is of this kind: they log in, handle frames, send, and log out.\<close>

lemma spares_frame: "server_inv s \<Longrightarrow> frame_wf frame \<Longrightarrow> handle_client_frame s d name frame = Some (s', b) \<Longrightarrow> spares c s s'"
  using handle_client_frame_total [OF reaches_refl, of frame s d name] spares_reaches by (auto simp: frame_wf_def)

lemma spares_wakeup: "server_inv s \<Longrightarrow> spares c s (consume_wakeup fd s)"
  by (rule spares_cong [OF spares_refl]) (simp_all add: consume_wakeup_def)

lemma spares_remove:
  assumes "server_inv s" "in_slot (registry s) i d" "d \<noteq> c"
  shows "spares c s (s\<lparr>registry := fst (remove_client (registry s) (int i))\<rparr>)"
proof -
  have "get_client_id (registry s) (int i) = d" using assms(2) by (simp add: in_slot_def get_client_id_def Let_def)
  then show ?thesis
    using spares_registry [OF assms(1) registry_step.remove [OF prod.collapse [symmetric]]] assms(3) by (auto split: option.splits)
qed

lemma spares_logout:
  assumes "server_inv s" "in_slot (registry s) i d" "d \<noteq> c" "\<And>s. server_inv s \<Longrightarrow> spares c s (gap s)"
  shows "spares c s (fst (logout_client gap s i d))"
proof -
  let ?s0 = "s\<lparr>registry := fst (remove_client (registry s) (int i))\<rparr>"
  have "spares c s ?s0" by (rule spares_remove [OF assms(1-3)])
  moreover from this have "spares c ?s0 (gap ?s0)" using assms(4) [OF spares_inv] by blast
  moreover from this have "spares c (gap ?s0) (abort_file_routes_for_client (gap ?s0) d)"
    using spares_reaches [OF reaches_abort [OF reaches_refl] spares_inv] by blast
  ultimately show ?thesis by (auto simp: logout_client_def case_prod_beta intro: spares_trans)
qed

lemma spares_add:
  assumes "server_inv s" "next_client_id (registry s) \<noteq> -1"
  shows "spares c s (s\<lparr>registry := fst (add_client (registry s) connection name)\<rparr>)"
  by (rule spares_registry [OF assms(1) registry_step.add [OF prod.collapse [symmetric] assms(2)]]) (auto split: sum.splits)

lemma spares_activate: "server_inv s \<Longrightarrow> spares c s (s\<lparr>registry := fst (activate_client (registry s) j)\<rparr>)"
  by (rule spares_registry [OF _ registry_step.activate [OF prod.collapse [symmetric]]]) auto

lemma spares_take: "server_inv s \<Longrightarrow> spares c s (s\<lparr>registry := fst (take_outgoing_frame (registry s) d)\<rparr>)"
  by (rule spares_registry [OF _ registry_step.take [OF prod.collapse [symmetric]]]) (auto split: sum.splits option.splits)

section \<open>The client of a thread\<close>

text \<open>The thread's client is in its slot, with the connection and the wake descriptor it was added with.\<close>

definition occupies :: "nat \<Rightarrow> Client \<Rightarrow> Server \<Rightarrow> bool" where
  "occupies i cl s \<longleftrightarrow> server_inv s \<and> in_slot (registry s) i (c_id cl) \<and> evolves cl (clients (registry s) ! i)"

lemma occupies_spares: "occupies i cl s \<Longrightarrow> spares (c_id cl) s s' \<Longrightarrow> occupies i cl s'"
  by (auto simp: occupies_def spares_def intro: evolves_trans)

interpretation owner: frame_handler handle_client_frame "occupies i cl" "\<lambda>_. True" for i cl
proof unfold_locales
  fix s client_id frame and name :: bytes
  assume h: "occupies i cl s" and wf: "frame_wf frame"
  obtain s' b where "handle_client_frame s client_id name frame = Some (s', b)" "reaches s s'"
    using handle_client_frame_total [OF reaches_refl] wf unfolding frame_wf_def by blast
  then show "\<exists>s' b. handle_client_frame s client_id name frame = Some (s', b) \<and> occupies i cl s'"
    using occupies_spares [OF h spares_reaches] h by (auto simp: occupies_def)
next
  fix s fd
  assume h: "occupies i cl s"
  then show "occupies i cl (consume_wakeup fd s)" using occupies_spares [OF h spares_wakeup] by (simp add: occupies_def)
next
  fix s client_id
  assume h: "occupies i cl s"
  then show "occupies i cl (s\<lparr>registry := fst (take_outgoing_frame (registry s) client_id)\<rparr>)"
    using occupies_spares [OF h spares_take] by (simp add: occupies_def)
next
  fix s client_id reg f
  assume "occupies i cl s" "take_outgoing_frame (registry s) client_id = (reg, Inr (Some f))"
  then show "length (of_payload f) < FRAME_MAX_SIZE" using chat.fits by (auto simp: occupies_def)
qed

definition interference :: "SessionOs \<Rightarrow> (Server \<Rightarrow> Server) list" where
  "interference env = [so_arrival env, so_added env, so_welcome env, so_started env, so_ended env, so_removed env] @
     concat (map turn_actions (so_turns env))"

definition others_spare :: "ClientId \<Rightarrow> SessionOs \<Rightarrow> bool" where
  "others_spare c env \<longleftrightarrow> (\<forall>f\<in>set (interference env). \<forall>s. server_inv s \<longrightarrow> spares c s (f s))"

lemma others_turns: "others_spare (c_id cl) env \<Longrightarrow> list_all (turn_keeps (occupies i cl)) (so_turns env)"
  unfolding list_all_iff turn_keeps_def
proof (intro ballI allI impI)
  fix turn s
  assume o: "others_spare (c_id cl) env" and turn: "turn \<in> set (so_turns env)" and h: "occupies i cl s"
  have "occupies i cl (f s)" if "f \<in> set (turn_actions turn)" for f
  proof -
    have "f \<in> set (interference env)" using that turn by (auto simp: interference_def)
    then have "spares (c_id cl) s (f s)" using o h by (simp add: others_spare_def occupies_def)
    then show ?thesis by (rule occupies_spares [OF h])
  qed
  then show "occupies i cl (tn_before turn s) \<and> occupies i cl (tn_woken turn s) \<and> occupies i cl (tn_checked turn s) \<and>
      occupies i cl (tn_waiting turn s)" by (simp add: turn_actions_def)
qed

section \<open>Closing\<close>

lemma close_here_effect:
  assumes "close_here env graceful th = Some th'" "0 \<le> socket_fd (conn (th_tls th))"
  shows "th_closed th' = th_closed th @ [socket_fd (conn (th_tls th))]" "\<not> tls_io_failed (conn (th_tls th'))"
  using assms by (auto simp: close_here_def bind_eq_Some_conv close_connection_def no_connection_def)

lemma refuse_effect:
  assumes "refuse env message th = Some th'" "0 \<le> socket_fd (conn (th_tls th))"
  shows "th_closed th' = th_closed th @ [socket_fd (conn (th_tls th))]" "\<not> tls_io_failed (conn (th_tls th'))"
proof -
  obtain q t where q: "send_message (th_tls th) message = Some (q, t)"
    and c: "close_here (so_shutdown env) True (th\<lparr>th_tls := t\<rparr>) = Some th'"
    using assms(1) by (auto simp: refuse_def bind_eq_Some_conv)
  have "socket_fd (conn t) = socket_fd (conn (th_tls th))" using send_message_connection [OF q] by (simp add: same_connection_def)
  then show "th_closed th' = th_closed th @ [socket_fd (conn (th_tls th))]" "\<not> tls_io_failed (conn (th_tls th'))"
    using close_here_effect [OF c] assms(2) by auto
qed

lemma release_effect:
  assumes "release_client env graceful (Some (wake_fd, pending, connection)) th = Some th'" "0 \<le> socket_fd connection"
  shows "th_closed th' = th_closed th @ (if 0 \<le> wake_fd then [wake_fd] else []) @ [socket_fd connection]"
    "th_tls th' = th_tls th" "th_shutdown th' \<longleftrightarrow> th_shutdown th \<or> shuts_down graceful connection"
  using assms by (auto simp: release_client_def bind_eq_Some_conv close_connection_def)

text \<open>A worker that ends without an error leaves its connection as it found it.\<close>

lemma prepare_connection:
  "worker_prepare c fd turn ss = Some (Inr (ss', p)) \<Longrightarrow> conn (ss_tls ss') = conn (ss_tls ss)"
  by (auto simp: worker_prepare_def worker_fetch_def worker_write_def Let_def bind_eq_Some_conv
      split: option.splits sum.splits prod.splits if_splits write_answer.splits retry.splits)

definition pass_connection :: "pass \<Rightarrow> Connection \<Rightarrow> bool" where
  "pass_connection p connection \<longleftrightarrow>
     (case p of Continue ss \<Rightarrow> conn (ss_tls ss) = connection
      | Return ss r \<Rightarrow> r = Inr () \<longrightarrow> conn (ss_tls ss) = connection
      | Stuck \<Rightarrow> True)"

lemma pass_connection_simps [simp]:
  "pass_connection (Continue ss) connection \<longleftrightarrow> conn (ss_tls ss) = connection"
  "pass_connection (Return ss r) connection \<longleftrightarrow> (r = Inr () \<longrightarrow> conn (ss_tls ss) = connection)"
  "pass_connection Stuck connection"
  by (simp_all add: pass_connection_def)

lemma wait_connection: "conn (ss_tls ss) = connection \<Longrightarrow> pass_connection (worker_wait turn ss) connection"
  by (simp add: pass_connection_def worker_wait_def split: option.split)

lemma deliver_connection: "conn (ss_tls ss) = connection \<Longrightarrow> pass_connection (worker_deliver h c name ss) connection"
  by (simp add: pass_connection_def worker_deliver_def Let_def split: option.split prod.split)

lemma read_connection: "pass_connection (worker_read h c name turn p ss) (conn (ss_tls ss))"
proof (cases "wk_write_wait (ss_worker ss) \<noteq> POLL_NONE")
  case True
  then show ?thesis by (simp add: worker_read_def Let_def wait_connection)
next
  case False
  show ?thesis
  proof (cases "tn_read turn")
    case (ReadOk k)
    then show ?thesis using False by (simp add: worker_read_def Let_def deliver_connection)
  next
    case (ReadErr e saved)
    then show ?thesis using False
      by (cases "tls_retry e saved") (simp_all add: worker_read_def Let_def wait_connection)
  qed
qed

lemma loop_connection:
  "worker_loop h c name fd turns ss = Return ss' (Inr ()) \<Longrightarrow> conn (ss_tls ss') = conn (ss_tls ss)"
proof (induction turns arbitrary: ss)
  case (Cons turn turns)
  then obtain ss5 p where p: "worker_prepare c fd turn ss = Some (Inr (ss5, p))"
    by (auto simp: worker_pass_def split: option.splits sum.splits)
  show ?case
    using Cons p prepare_connection [OF p] read_connection [of h c name turn p ss5]
    by (cases "worker_read h c name turn p ss5") (auto simp: worker_pass_def pass_connection_def)
qed simp

lemma worker_connection:
  "run_client_worker h nonblocking turns s t c name = Return ss (Inr ()) \<Longrightarrow> conn (ss_tls ss) = conn t"
  by (auto simp: run_client_worker_def Let_def split: sum.splits option.splits dest: loop_connection)

section \<open>The end of a session\<close>

text \<open>
  The thread has closed its socket last, before it at most the wake descriptor it got from
  \<open>eventfd\<close>, and did not shut down a TLS session on which a call had failed.
\<close>

definition finished :: "Os \<Rightarrow> int \<Rightarrow> ClientThread \<Rightarrow> bool" where
  "finished oracle fd th \<longleftrightarrow>
     (th_closed th = [fd] \<or> (\<exists>n wake_fd. os_eventfd oracle n = Inr wake_fd \<and> th_closed th = [wake_fd, fd])) \<and>
     (th_shutdown th \<longrightarrow> \<not> tls_io_failed (conn (th_tls th)))"

text \<open>The thread works for the client \<open>cl\<close>, which has the slot \<open>i\<close>, and has closed nothing yet.\<close>

definition serving :: "Os \<Rightarrow> int \<Rightarrow> nat \<Rightarrow> Client \<Rightarrow> Server \<Rightarrow> ClientThread \<Rightarrow> bool" where
  "serving oracle fd i cl s th \<longleftrightarrow> occupies i cl s \<and> socket_fd (c_connection cl) = fd \<and> 0 \<le> fd \<and>
     (\<exists>n. os_eventfd oracle n = Inr (c_wake_fd cl)) \<and> th_closed th = [] \<and> \<not> th_shutdown th"

lemma serving_spares: "serving oracle fd i cl s th \<Longrightarrow> spares (c_id cl) s s' \<Longrightarrow> serving oracle fd i cl s' th"
  using occupies_spares by (auto simp: serving_def)

lemma unissued_client: "registry_inv reg \<Longrightarrow> next_client_id reg \<le> c \<Longrightarrow> client_of reg c = None"
  using client_of_ok [of reg c] by (cases "client_of reg c") (auto simp: client_ok_def)

lemma closed_finished:
  assumes "close_here sd graceful th = Some th' \<or> refuse env m th = Some th'"
    and "th_closed th = []" "socket_fd (conn (th_tls th)) = fd" "0 \<le> fd"
  shows "finished oracle fd th'"
  using assms close_here_effect [of sd graceful th th'] refuse_effect [of env m th th'] by (auto simp: finished_def)

lemma release_finished:
  assumes "serving oracle fd i cl s th" "evolves cl cl'"
    and r: "release_client env graceful (Some (c_wake_fd cl', c_outgoing cl', c_connection cl')) th = Some th'"
    and g: "graceful \<Longrightarrow> conn (th_tls th) = c_connection cl"
  shows "finished oracle fd th'"
proof -
  have cl': "c_wake_fd cl' = c_wake_fd cl" "c_connection cl' = c_connection cl" using assms(2) by (auto simp: evolves_def)
  have "0 \<le> socket_fd (c_connection cl')" using assms(1) cl'(2) by (simp add: serving_def)
  note e = release_effect [OF r this]
  show ?thesis using assms(1) e cl' g by (auto simp: finished_def serving_def shuts_down_def)
qed

lemma drop_finished:
  assumes sv: "serving oracle fd i cl s th" and d: "drop_client env graceful s i th = Some (s', th')"
    and g: "graceful \<Longrightarrow> conn (th_tls th) = c_connection cl"
  shows "server_inv s'" "client_of (registry s') (c_id cl) = None" "finished oracle fd th'"
proof -
  let ?cl = "clients (registry s) ! i"
  have i: "server_inv s" "i < MAX_CLIENTS" "c_active ?cl" "evolves cl ?cl" "client_of (registry s) (c_id cl) = Some ?cl"
    using sv in_slot_client_of [of "registry s" i] by (auto simp: serving_def occupies_def in_slot_def server_inv_def)
  have rm: "snd (remove_client (registry s) (int i)) = Some (c_wake_fd ?cl, c_outgoing ?cl, c_connection ?cl)"
    using i by (auto simp: remove_client_eq Let_def)
  obtain s'': "s' = s\<lparr>registry := fst (remove_client (registry s) (int i))\<rparr>"
    and r: "release_client (so_shutdown env) graceful (Some (c_wake_fd ?cl, c_outgoing ?cl, c_connection ?cl)) th = Some th'"
    using d rm by (auto simp: drop_client_def bind_eq_Some_conv case_prod_beta)
  show "server_inv s'" "client_of (registry s') (c_id cl) = None"
    using leave_effect [OF i(1,5,2) refl] s'' by simp_all
  show "finished oracle fd th'" by (rule release_finished [OF sv i(4) r g])
qed

text \<open>After \<open>add_client\<close> the thread has a client of its own.\<close>

lemma add_serving:
  assumes "server_inv s" "next_client_id (registry s) \<noteq> -1" "add_client (registry s) connection name = (reg, Inr i)"
    and "th_closed th = []" "\<not> th_shutdown th"
  shows "\<exists>cl. serving (os (registry s)) (socket_fd connection) i cl (s\<lparr>registry := reg\<rparr>) th \<and>
    c_id cl = next_client_id (registry s) \<and> c_connection cl = connection"
  using assms(3)
proof (cases rule: add_client_cases)
  case (added j wake_fd)
  have inv: "registry_inv (registry s)" using assms(1) by (simp add: server_inv_def)
  have "fst (allocate_client_id (registry s)) = next_client_id (registry s)"
    using inv by (simp add: registry_inv_def allocate_client_id_eq)
  moreover have "server_inv (s\<lparr>registry := reg\<rparr>)"
    using server_step_inv [OF server_step.registry [OF registry_step.add [OF assms(3,2)]] assms(1)] .
  ultimately show ?thesis
    using added assms(4,5) inv
    by (intro exI [of _ "clients reg ! i"])
       (auto simp: serving_def occupies_def in_slot_def registry_inv_def)
qed simp

lemma welcome_connection:
  "send_welcome_message name t = Some (r, t') \<Longrightarrow> same_connection r t t'"
  by (auto simp: send_welcome_message_def bind_eq_Some_conv split: prod.splits if_splits dest!: send_message_connection)

lemma enter_outcome:
  assumes "enter_client env s th i name = Some (s', th', session)" and sv: "serving oracle fd i cl s th"
    and o: "others_spare (c_id cl) env" and c: "c_connection cl = conn (th_tls th)"
  shows "case session of
      None \<Rightarrow> server_inv s' \<and> client_of (registry s') (c_id cl) = None \<and> finished oracle fd th'
    | Some (j, client_id, _) \<Rightarrow> j = i \<and> client_id = c_id cl \<and> serving oracle fd i cl s' th' \<and> c_connection cl = conn (th_tls th')"
proof -
  let ?s2 = "so_added env s"
  let ?s3 = "so_welcome env ?s2"
  have spare: "server_inv s \<Longrightarrow> spares (c_id cl) s (so_added env s)" "server_inv s \<Longrightarrow> spares (c_id cl) s (so_welcome env s)" for s
    using o by (auto simp: others_spare_def interference_def)
  have s2: "serving oracle fd i cl ?s2 th" by (rule serving_spares [OF sv spare(1)]) (use sv in \<open>simp add: serving_def occupies_def\<close>)
  have s3: "serving oracle fd i cl ?s3 th" by (rule serving_spares [OF s2 spare(2)]) (use s2 in \<open>simp add: serving_def occupies_def\<close>)
  have client_id: "get_client_id (registry ?s2) (int i) = c_id cl"
    using s2 by (auto simp: serving_def occupies_def in_slot_def get_client_id_def Let_def)
  obtain w t2 where w: "send_welcome_message name (th_tls th) = Some (w, t2)"
    using assms(1) by (auto simp: enter_client_def bind_eq_Some_conv Let_def)
  have t2: "w = Inr () \<Longrightarrow> conn t2 = conn (th_tls th)" using welcome_connection [OF w] by (simp add: same_connection_def)
  have s3': "serving oracle fd i cl ?s3 (th\<lparr>th_tls := t2\<rparr>)" using s3 by (simp add: serving_def)
  show ?thesis
  proof (cases w)
    case (Inl e)
    then obtain d where d: "drop_client env False ?s3 i (th\<lparr>th_tls := t2\<rparr>) = Some (s', th')" "session = None"
      using assms(1) w by (auto simp: enter_client_def bind_eq_Some_conv Let_def)
    then show ?thesis using drop_finished [OF s3' d(1)] by simp
  next
    case (Inr u)
    obtain reg2 where a: "activate_client (registry ?s3) (int i) = (reg2, Inr ())"
      using s3 by (auto simp: serving_def occupies_def in_slot_def activate_client_def Let_def)
    have "serving oracle fd i cl (?s3\<lparr>registry := reg2\<rparr>) (th\<lparr>th_tls := t2\<rparr>)"
      using serving_spares [OF s3' spares_activate [of _ _ "int i"]] s3' a by (simp add: serving_def occupies_def)
    then show ?thesis using assms(1) w Inr a client_id t2 c by (auto simp: enter_client_def Let_def)
  qed
qed

lemma login_outcome:
  assumes l: "login_client env s th = Some (s', th', session)" and inv: "server_inv s"
    and cid: "cid = next_client_id (registry (so_arrival env s))" "cid \<noteq> -1" and o: "others_spare cid env"
    and fd: "socket_fd (conn (th_tls th)) = fd" "0 \<le> fd" and th: "th_closed th = []" "\<not> th_shutdown th"
  shows "case session of
      None \<Rightarrow> server_inv s' \<and> client_of (registry s') cid = None \<and> finished (os (registry (so_arrival env s))) fd th'
    | Some (i, client_id, _) \<Rightarrow> client_id = cid \<and>
        (\<exists>cl. c_id cl = cid \<and> serving (os (registry (so_arrival env s))) fd i cl s' th' \<and> c_connection cl = conn (th_tls th'))"
proof -
  let ?s1 = "so_arrival env s" and ?answers = "os (registry (so_arrival env s))"
  have sp: "spares cid s ?s1" using o inv by (simp add: others_spare_def interference_def)
  have inv1: "server_inv ?s1" by (rule spares_inv [OF sp])
  have fresh: "client_of (registry s) cid = None" "client_of (registry ?s1) cid = None"
    using unissued_client [of "registry s" cid] unissued_client [of "registry ?s1" cid] sp inv inv1 cid
    by (auto simp: spares_def server_inv_def)
  obtain received t1 where r: "receive_message (th_tls th) USERNAME_SIZE = Some (received, t1)"
    using l by (auto simp: login_client_def bind_eq_Some_conv)
  have t1: "socket_fd (conn t1) = fd" using receive_message_connection [OF r] fd by (simp add: same_connection_def)
  show ?thesis
  proof (cases "\<exists>username. received = Inr username \<and> username \<noteq> [] \<and> 0 \<notin> set username")
    case False
    then have "\<exists>m. session = None \<and> s' = s \<and> (close_here (so_shutdown env) True (th\<lparr>th_tls := t1\<rparr>) = Some th' \<or>
        refuse env m (th\<lparr>th_tls := t1\<rparr>) = Some th')"
      using l r by (auto simp: login_client_def bind_eq_Some_conv Let_def simp del: str_Cons split: sum.splits if_splits)
    then obtain m where "session = None" "s' = s" and m: "close_here (so_shutdown env) True (th\<lparr>th_tls := t1\<rparr>) = Some th' \<or>
        refuse env m (th\<lparr>th_tls := t1\<rparr>) = Some th'" by blast
    then show ?thesis using closed_finished [OF m, of fd] inv fresh t1 fd(2) th by simp
  next
    case True
    then obtain name where name: "received = Inr name" "name \<noteq> []" "0 \<notin> set name" by blast
    define th2 where "th2 = th\<lparr>th_tls := t1, th_timeouts :=
      unset_timeout_for_socket (so_unset_timeout env) (socket_fd (conn t1)) (th_timeouts th)\<rparr>"
    obtain reg q where a: "add_client (registry ?s1) (conn t1) name = (reg, q)" by fastforce
    show ?thesis
    proof (cases q)
      case (Inl e)
      then have "\<exists>m. session = None \<and> s' = ?s1\<lparr>registry := reg\<rparr> \<and>
          (close_here (so_shutdown env) True th2 = Some th' \<or> refuse env m th2 = Some th')"
        using l r name a by (auto simp: login_client_def bind_eq_Some_conv Let_def th2_def simp del: str_Cons split: if_splits prod.splits)
      then obtain m where s': "session = None" "s' = ?s1\<lparr>registry := reg\<rparr>"
        and m: "close_here (so_shutdown env) True th2 = Some th' \<or> refuse env m th2 = Some th'" by blast
      have "spares cid ?s1 (?s1\<lparr>registry := reg\<rparr>)" using spares_add [OF inv1] a cid by (metis fst_conv)
      moreover have "clients reg = clients (registry ?s1)" using a Inl by (cases rule: add_client_cases) auto
      moreover have "finished ?answers fd th'" by (rule closed_finished [OF m]) (use th t1 fd(2) in \<open>simp_all add: th2_def\<close>)
      ultimately show ?thesis using s' fresh by (simp add: spares_def client_of_def)
    next
      case (Inr i)
      have e: "enter_client env (?s1\<lparr>registry := reg\<rparr>) th2 i name = Some (s', th', session)"
        using l r name a Inr by (simp add: login_client_def Let_def th2_def)
      obtain cl where cl: "serving ?answers fd i cl (?s1\<lparr>registry := reg\<rparr>) th2" "c_id cl = cid" "c_connection cl = conn (th_tls th2)"
        using add_serving [OF inv1 _ a [unfolded Inr], of th2] cid t1 th by (auto simp: th2_def)
      show ?thesis using enter_outcome [OF e cl(1) _ cl(3)] o cl(2) by (auto split: option.splits)
    qed
  qed
qed

lemma worker_serving:
  assumes "run_client_worker handle_client_frame nonblocking (so_turns env) s t (c_id cl) name = Return ss r"
    and sv: "serving oracle fd i cl s th" and o: "others_spare (c_id cl) env"
  shows "serving oracle fd i cl (ss_server ss) th"
proof -
  have h: "occupies i cl s" using sv by (simp add: serving_def)
  have "c_id cl \<noteq> 0"
    using h client_of_ok [OF _ in_slot_client_of [of "registry s" i "c_id cl"]] by (auto simp: occupies_def server_inv_def client_ok_def)
  then have "case worker_loop handle_client_frame (c_id cl) name wake_fd (so_turns env)
      \<lparr>ss_server = s, ss_tls = t, ss_worker = worker_start\<rparr> of
      Continue ss' \<Rightarrow> occupies i cl (ss_server ss') | Return ss' r \<Rightarrow> occupies i cl (ss_server ss') | Stuck \<Rightarrow> False" for wake_fd
    by (intro owner.loop_inv) (use h others_turns [OF o] in simp_all)
  note loop = this
  have "occupies i cl (ss_server ss)"
  proof (cases "get_client_wake_fd (registry s) (c_id cl)")
    case (Inr wake_fd)
    then show ?thesis using assms(1) h loop [of wake_fd] by (cases nonblocking) (auto simp: run_client_worker_def Let_def)
  qed (use assms(1) h in \<open>auto simp: run_client_worker_def Let_def\<close>)
  then show ?thesis using sv by (simp add: serving_def)
qed

lemma logout_finished:
  assumes sv: "serving oracle fd i cl s th" and gone: "keeps_gone (c_id cl) gap"
    and l: "logout_client gap s i (c_id cl) = (s', released)"
    and r: "release_client env graceful released th = Some th'"
    and g: "graceful \<Longrightarrow> conn (th_tls th) = c_connection cl"
  shows "server_inv s'" "client_of (registry s') (c_id cl) = None" "finished oracle fd th'"
proof -
  let ?cl = "clients (registry s) ! i"
  have i: "server_inv s" "i < MAX_CLIENTS" "evolves cl ?cl" "client_of (registry s) (c_id cl) = Some ?cl"
    using sv in_slot_client_of [of "registry s" i] by (auto simp: serving_def occupies_def in_slot_def server_inv_def)
  note e = logout_effect [OF i(1,4,2) refl gone, unfolded l fst_conv snd_conv]
  show "server_inv s'" "client_of (registry s') (c_id cl) = None" by (fact e(2) e(1))+
  show "finished oracle fd th'" using release_finished [OF sv i(3) _ g] r e(3) by simp
qed

lemma serve_outcome:
  assumes sc: "serve_client env s th i (c_id cl) name = Some (s', th')" and sv: "serving oracle fd i cl s th"
    and o: "others_spare (c_id cl) env" and c: "c_connection cl = conn (th_tls th)"
  shows "server_inv s' \<and> client_of (registry s') (c_id cl) = None \<and> finished oracle fd th'"
proof -
  have spare: "spares (c_id cl) s0 (f s0)" if "f \<in> set (interference env)" "server_inv s0" for f s0
    using o that by (simp add: others_spare_def)
  have step: "serving oracle fd i cl (f s0) th" if "f \<in> set (interference env)" "serving oracle fd i cl s0 th" for f s0
    using serving_spares [OF that(2) spare [OF that(1)]] that(2) by (simp add: serving_def occupies_def)
  obtain ss q released where
      w: "run_client_worker handle_client_frame (so_nonblocking env) (so_turns env) (so_started env s) (th_tls th) (c_id cl) name = Return ss q"
    and lo: "logout_client (so_removed env) (so_ended env (ss_server ss)) i (c_id cl) = (s', released)"
    and rel: "release_client (so_shutdown env) (q = Inr ()) released (th\<lparr>th_tls := ss_tls ss\<rparr>) = Some th'"
    using sc by (auto simp: serve_client_def bind_eq_Some_conv Let_def split: pass.splits prod.splits)
  have "serving oracle fd i cl (so_started env s) th"
    by (rule step [of "so_started env", OF _ sv]) (simp add: interference_def)
  from worker_serving [OF w this o] have "serving oracle fd i cl (so_ended env (ss_server ss)) th"
    by (rule step [of "so_ended env", rotated]) (simp add: interference_def)
  then have sv': "serving oracle fd i cl (so_ended env (ss_server ss)) (th\<lparr>th_tls := ss_tls ss\<rparr>)" by (simp add: serving_def)
  have gone: "keeps_gone (c_id cl) (so_removed env)"
    using spare [of "so_removed env"] by (auto simp: keeps_gone_def interference_def spares_def)
  have "conn (th_tls (th\<lparr>th_tls := ss_tls ss\<rparr>)) = c_connection cl" if "q = Inr ()"
    using worker_connection [OF w [unfolded that]] c by simp
  from logout_finished [OF sv' gone lo rel this] show ?thesis by simp
qed

section \<open>What the thread does to others\<close>

text \<open>
  The other side of the condition on other threads: a thread does to the client of another
  thread no more than it allows others to do to its own, so threads can be put side by side.
\<close>

interpretation bystander: frame_handler handle_client_frame "spares c s0" "\<lambda>_. True" for c s0
proof unfold_locales
  fix s client_id frame and name :: bytes
  assume h: "spares c s0 s" and wf: "frame_wf frame"
  obtain s' b where "handle_client_frame s client_id name frame = Some (s', b)" "reaches s s'"
    using handle_client_frame_total [OF reaches_refl] wf unfolding frame_wf_def by blast
  then show "\<exists>s' b. handle_client_frame s client_id name frame = Some (s', b) \<and> spares c s0 s'"
    using spares_trans [OF h spares_reaches] spares_inv [OF h] by blast
next
  show "spares c s0 (consume_wakeup fd s)" if "spares c s0 s" for s fd
    by (rule spares_trans [OF that spares_wakeup [OF spares_inv [OF that]]])
  show "spares c s0 (s\<lparr>registry := fst (take_outgoing_frame (registry s) client_id)\<rparr>)" if "spares c s0 s" for s client_id
    by (rule spares_trans [OF that spares_take [OF spares_inv [OF that]]])
  show "length (of_payload f) < FRAME_MAX_SIZE"
    if "spares c s0 s" "take_outgoing_frame (registry s) client_id = (reg, Inr (Some f))" for s client_id reg f
    by (rule chat.fits [OF spares_inv [OF that(1)] that(2)])
qed

lemma others_act: "others_spare c env \<Longrightarrow> f \<in> set (interference env) \<Longrightarrow> spares c s0 s \<Longrightarrow> spares c s0 (f s)"
  unfolding others_spare_def by (meson spares_inv spares_trans)

lemma others_turns_spare: "others_spare c env \<Longrightarrow> list_all (turn_keeps (spares c s0)) (so_turns env)"
  unfolding list_all_iff turn_keeps_def
proof (intro ballI allI impI)
  fix turn s
  assume o: "others_spare c env" and turn: "turn \<in> set (so_turns env)" and h: "spares c s0 s"
  have "spares c s0 (f s)" if "f \<in> set (turn_actions turn)" for f
    by (rule others_act [OF o _ h]) (use that turn in \<open>auto simp: interference_def\<close>)
  then show "spares c s0 (tn_before turn s) \<and> spares c s0 (tn_woken turn s) \<and> spares c s0 (tn_checked turn s) \<and>
      spares c s0 (tn_waiting turn s)" by (simp add: turn_actions_def)
qed

lemma drop_spares:
  assumes "serving oracle fd i cl s th" "drop_client env graceful s i th' = Some (s', th'')" "c \<noteq> c_id cl"
  shows "spares c s s'"
  using assms spares_remove [of s i "c_id cl" c]
  by (auto simp: drop_client_def serving_def occupies_def bind_eq_Some_conv case_prod_beta)

lemma enter_spares:
  assumes e: "enter_client env s th i name = Some (s', th', session)" and sv: "serving oracle fd i cl s th"
    and o: "others_spare (c_id cl) env" "others_spare c env" and c: "c \<noteq> c_id cl"
  shows "spares c s s'"
proof -
  let ?s3 = "so_welcome env (so_added env s)"
  have inv: "server_inv s" using sv by (simp add: serving_def occupies_def)
  have mem: "so_added env \<in> set (interference env)" "so_welcome env \<in> set (interference env)" by (simp_all add: interference_def)
  have s3: "spares d s ?s3" if "others_spare d env" for d
    by (rule others_act [OF that mem(2) others_act [OF that mem(1) spares_refl [OF inv]]])
  have sv3: "serving oracle fd i cl ?s3 th" by (rule serving_spares [OF sv s3 [OF o(1)]])
  note inv3 = spares_inv [OF s3 [OF o(2)]]
  have drop: "spares c ?s3 s4" if "drop_client env graceful ?s3 i th1 = Some (s4, th4)" for graceful th1 s4 th4
    by (rule drop_spares [OF sv3 that c])
  obtain reg2 where a: "activate_client (registry ?s3) (int i) = (reg2, Inr ())"
    using sv3 by (auto simp: serving_def occupies_def in_slot_def activate_client_def Let_def)
  have act: "spares c ?s3 (?s3\<lparr>registry := reg2\<rparr>)" using spares_activate [OF inv3, of c "int i"] a by simp
  obtain w t2 where w: "send_welcome_message name (th_tls th) = Some (w, t2)"
    using e by (auto simp: enter_client_def bind_eq_Some_conv Let_def)
  have "spares c ?s3 s'"
    using e a act drop w by (cases w) (auto simp: enter_client_def bind_eq_Some_conv Let_def)
  then show ?thesis by (rule spares_trans [OF s3 [OF o(2)]])
qed

lemma login_spares:
  assumes l: "login_client env s th = Some (s', th', session)" and inv: "server_inv s"
    and cid: "cid = next_client_id (registry (so_arrival env s))" "cid \<noteq> -1"
    and o: "others_spare cid env" "others_spare c env" "c \<noteq> cid" and th: "th_closed th = []" "\<not> th_shutdown th"
  shows "spares c s s'"
proof -
  let ?s1 = "so_arrival env s"
  have s1: "spares c s ?s1" by (rule others_act [OF o(2) _ spares_refl [OF inv]]) (simp add: interference_def)
  note inv1 = spares_inv [OF s1]
  have add: "spares c ?s1 (?s1\<lparr>registry := reg\<rparr>)" if "add_client (registry ?s1) connection name = (reg, q)" for connection name reg q
    using spares_add [OF inv1, of c connection name] cid that by simp
  have enter: "spares c ?s1 s2"
    if e: "enter_client env (?s1\<lparr>registry := reg\<rparr>) th2 i name = Some (s2, th3, session2)"
      and a: "add_client (registry ?s1) connection name = (reg, Inr i)" and t: "th_closed th2 = []" "\<not> th_shutdown th2"
    for th2 i name s2 th3 session2 reg connection
  proof -
    obtain cl where cl: "serving (os (registry ?s1)) (socket_fd connection) i cl (?s1\<lparr>registry := reg\<rparr>) th2" "c_id cl = cid"
      using add_serving [OF inv1 _ a t] cid by auto
    show ?thesis using spares_trans [OF add [OF a] enter_spares [OF e cl(1) _ o(2)]] o cl(2) by simp
  qed
  obtain received t1 where r: "receive_message (th_tls th) USERNAME_SIZE = Some (received, t1)"
    using l by (auto simp: login_client_def bind_eq_Some_conv)
  have "s' = s \<or> spares c ?s1 s'"
  proof (cases "\<exists>username. received = Inr username \<and> username \<noteq> [] \<and> 0 \<notin> set username")
    case False
    then show ?thesis
      using l r by (auto simp: login_client_def bind_eq_Some_conv Let_def simp del: str_Cons split: sum.splits if_splits)
  next
    case True
    then obtain name where name: "received = Inr name" "name \<noteq> []" "0 \<notin> set name" by blast
    obtain reg q where a: "add_client (registry ?s1) (conn t1) name = (reg, q)" by fastforce
    show ?thesis
    proof (cases q)
      case (Inl e)
      then show ?thesis using l r name a add [OF a]
        by (auto simp: login_client_def bind_eq_Some_conv Let_def simp del: str_Cons split: if_splits prod.splits)
    next
      case (Inr i)
      note e = enter [OF _ a [unfolded Inr]]
      show ?thesis using l r name a Inr th by (auto simp: login_client_def Let_def simp del: str_Cons dest!: e)
    qed
  qed
  then show ?thesis using s1 spares_refl [OF inv] spares_trans by blast
qed

lemma worker_spares:
  assumes "run_client_worker handle_client_frame nonblocking (so_turns env) s t client_id name = Return ss r"
    and "spares c s0 s" "others_spare c env" "client_id \<noteq> 0"
  shows "spares c s0 (ss_server ss)"
proof (cases "get_client_wake_fd (registry s) client_id")
  case (Inr wake_fd)
  have "case worker_loop handle_client_frame client_id name wake_fd (so_turns env)
      \<lparr>ss_server = s, ss_tls = t, ss_worker = worker_start\<rparr> of
      Continue ss' \<Rightarrow> spares c s0 (ss_server ss') | Return ss' r \<Rightarrow> spares c s0 (ss_server ss') | Stuck \<Rightarrow> False"
    by (intro bystander.loop_inv) (use assms(2,4) others_turns_spare [OF assms(3)] in simp_all)
  then show ?thesis using Inr assms(1,2) by (cases nonblocking) (auto simp: run_client_worker_def Let_def)
qed (use assms(1,2) in \<open>auto simp: run_client_worker_def Let_def\<close>)

lemma serve_spares:
  assumes sc: "serve_client env s th i (c_id cl) name = Some (s', th')" and sv: "serving oracle fd i cl s th"
    and o: "others_spare (c_id cl) env" "others_spare c env" and c: "c \<noteq> c_id cl"
  shows "spares c s s'"
proof -
  obtain ss q released where
      w: "run_client_worker handle_client_frame (so_nonblocking env) (so_turns env) (so_started env s) (th_tls th) (c_id cl) name = Return ss q"
    and lo: "logout_client (so_removed env) (so_ended env (ss_server ss)) i (c_id cl) = (s', released)"
    using sc by (auto simp: serve_client_def bind_eq_Some_conv Let_def split: pass.splits prod.splits)
  let ?s1 = "so_ended env (ss_server ss)"
  have inv: "server_inv s" and id: "c_id cl \<noteq> 0"
    using sv client_of_ok [OF _ in_slot_client_of [of "registry s" i "c_id cl"]]
    by (auto simp: serving_def occupies_def server_inv_def client_ok_def)
  have mem: "so_started env \<in> set (interference env)" "so_ended env \<in> set (interference env)" "so_removed env \<in> set (interference env)"
    by (simp_all add: interference_def)
  have s1: "spares d s ?s1" if "others_spare d env" for d
    by (rule others_act [OF that mem(2) worker_spares [OF w others_act [OF that mem(1) spares_refl [OF inv]] that id]])
  have "in_slot (registry ?s1) i (c_id cl)"
    using serving_spares [OF sv s1 [OF o(1)]] by (simp add: serving_def occupies_def)
  then have "spares c ?s1 s'"
    using spares_logout [OF spares_inv [OF s1 [OF o(2)]], of i "c_id cl" c "so_removed env"] others_act [OF o(2) mem(3) spares_refl] c lo by simp
  then show ?thesis by (rule spares_trans [OF s1 [OF o(2)]])
qed

text \<open>The two parts of a session together.\<close>

lemma session_outcome:
  assumes l: "login_client env s th = Some (s1, th1, session)"
    and run: "(case session of None \<Rightarrow> Some (s1, th1) | Some (i, client_id, name) \<Rightarrow> serve_client env s1 th1 i client_id name) = Some (s', th')"
    and inv: "server_inv s" and cid: "cid = next_client_id (registry (so_arrival env s))" "cid \<noteq> -1" and o: "others_spare cid env"
    and fd: "socket_fd (conn (th_tls th)) = fd" "0 \<le> fd" and th: "th_closed th = []" "\<not> th_shutdown th"
  shows "server_inv s' \<and> client_of (registry s') cid = None \<and> finished (os (registry (so_arrival env s))) fd th' \<and>
    (\<forall>c. c \<noteq> cid \<and> others_spare c env \<longrightarrow> spares c s s')"
proof -
  note out = login_outcome [OF l inv cid o fd th]
  have sp: "\<forall>c. c \<noteq> cid \<and> others_spare c env \<longrightarrow> spares c s s1"
    using login_spares [OF l inv cid o] th by blast
  show ?thesis
  proof (cases session)
    case None
    then show ?thesis using out run sp by simp
  next
    case (Some x)
    obtain i client_id name where x: "x = (i, client_id, name)" by (cases x)
    obtain cl where cl: "client_id = c_id cl" "c_id cl = cid" "serving (os (registry (so_arrival env s))) fd i cl s1 th1"
      "c_connection cl = conn (th_tls th1)"
      using out Some x by auto
    have run': "serve_client env s1 th1 i (c_id cl) name = Some (s', th')" using run Some x cl(1) by simp
    have "\<forall>c. c \<noteq> cid \<and> others_spare c env \<longrightarrow> spares c s s'"
      using spares_trans [OF sp [rule_format] serve_spares [OF run' cl(3)]] o cl(2) by simp
    then show ?thesis using serve_outcome [OF run' cl(3) _ cl(4)] o cl(2) by simp
  qed
qed

text \<open>The worker starts on a socket without a timeout, unless the call that removes it failed.\<close>

lemma served_without_timeout:
  assumes "login_client env s th = Some (s', th', Some x)" "so_unset_timeout env = Inr ()"
  shows "th_timeouts th' (socket_fd (conn (th_tls th))) = \<lparr>tv_sec = 0, tv_usec = 0\<rparr>"
proof -
  obtain received t1 where r: "receive_message (th_tls th) USERNAME_SIZE = Some (received, t1)"
    using assms(1) by (auto simp: login_client_def bind_eq_Some_conv)
  have t1: "socket_fd (conn t1) = socket_fd (conn (th_tls th))"
    using receive_message_connection [OF r] by (simp add: same_connection_def)
  have enter: "th_timeouts th3 = th_timeouts th2" if e: "enter_client env s2 th2 i name = Some (s3, th3, Some x)" for s2 th2 i name s3 th3
  proof -
    obtain q t2 where q: "send_welcome_message name (th_tls th2) = Some (q, t2)"
      using e by (auto simp: enter_client_def bind_eq_Some_conv Let_def)
    show ?thesis using e q by (cases q) (auto simp: enter_client_def Let_def bind_eq_Some_conv split: sum.splits prod.splits)
  qed
  show ?thesis
    using assms r t1
    by (auto simp: login_client_def bind_eq_Some_conv Let_def unset_timeout_for_socket_def simp del: str_Cons
        split: sum.splits if_splits prod.splits dest!: enter)
qed

text \<open>
  C15. A thread that ends has given back all it held, whichever way it ended: failed handshake,
  timeout, refused name, end of the connection, error or quit. Its socket was closed exactly
  once and last, before it at most the one wake descriptor it had got; its client, if it had
  one, has left the registry, and the shared state is well formed. It shuts down the TLS
  session only if no call on it has failed, although the decision is made on the copy of the
  connection in the registry, which never learns of failures. This holds whatever other
  threads do in between, as long as they do not remove this thread's client; and the thread
  itself keeps to that condition towards the client of every other thread.
\<close>

theorem session_closes:
  assumes "handle_client env s th = Some (s', th')" and "server_inv s"
    and "th_closed th = []" and "\<not> th_shutdown th" and "0 \<le> socket_fd (conn (th_tls th))"
    and "others_spare (next_client_id (registry (so_arrival env s))) env" and "next_client_id (registry (so_arrival env s)) \<noteq> -1"
  shows "server_inv s' \<and> client_of (registry s') (next_client_id (registry (so_arrival env s))) = None \<and>
    (th_closed th' = [socket_fd (conn (th_tls th))] \<or>
     (\<exists>n wake_fd. os_eventfd (os (registry (so_arrival env s))) n = Inr wake_fd \<and>
        th_closed th' = [wake_fd, socket_fd (conn (th_tls th))])) \<and>
    (th_shutdown th' \<longrightarrow> \<not> tls_io_failed (conn (th_tls th'))) \<and>
    (\<forall>c. c \<noteq> next_client_id (registry (so_arrival env s)) \<and> others_spare c env \<longrightarrow> spares c s s')"
proof -
  let ?c = "next_client_id (registry (so_arrival env s))" and ?fd = "socket_fd (conn (th_tls th))"
    and ?answers = "os (registry (so_arrival env s))"
  define th1 where "th1 = th\<lparr>th_timeouts := set_timeout_for_socket (so_set_timeout env) ?fd (th_timeouts th)\<rparr>"
  obtain r connection fds tr where hs: "perform_tls_handshake (so_handshake env) False (conn (th_tls th1)) = Some (r, connection, fds, tr)"
    using assms(1) by (auto simp: handle_client_def bind_eq_Some_conv Let_def th1_def)
  note hc = handshake_closing [OF hs]
  define th2 where "th2 = th1\<lparr>th_tls := (th_tls th1)\<lparr>conn := connection\<rparr>, th_closed := th_closed th1 @ fds\<rparr>"
  have "server_inv s' \<and> client_of (registry s') ?c = None \<and> finished ?answers ?fd th' \<and>
    (\<forall>c. c \<noteq> ?c \<and> others_spare c env \<longrightarrow> spares c s s')"
  proof (cases r)
    case (Inl e)
    then have "s' = s" "th' = th2" using assms(1) hs by (auto simp: handle_client_def Let_def th1_def th2_def)
    moreover have "client_of (registry s) ?c = None"
      using assms(2,6) by (intro unissued_client) (auto simp: others_spare_def interference_def server_inv_def spares_def)
    ultimately show ?thesis using Inl hc assms(2-5) spares_refl by (auto simp: finished_def th2_def th1_def)
  next
    case (Inr u)
    obtain s1 th3 session where l: "login_client env s th2 = Some (s1, th3, session)"
      using assms(1) hs Inr by (auto simp: handle_client_def bind_eq_Some_conv Let_def th1_def th2_def)
    have th2: "socket_fd (conn (th_tls th2)) = ?fd" "th_closed th2 = []" "\<not> th_shutdown th2"
      using hc Inr assms(3,4) by (auto simp: th2_def th1_def)
    show ?thesis
      by (rule session_outcome [OF l _ assms(2) refl assms(7,6) th2(1) assms(5) th2(2,3)])
         (use assms(1) hs Inr l in \<open>auto simp: handle_client_def Let_def th1_def th2_def\<close>)
  qed
  then show ?thesis by (simp add: finished_def)
qed

text \<open>A login under the name eve, whose peer then closes the connection.\<close>

definition example_session :: SessionOs where
  "example_session = \<lparr>so_set_timeout = Inr (),
     so_handshake = example_handshake\<lparr>hk_ssl := 1, hk_context := \<lparr>cx_new = True, cx_set_min = True, cx_set_max = True,
       cx_use_certificate = True, cx_use_private_key = True, cx_check_private_key = True, cx_load_verify = False\<rparr>\<rparr>,
     so_arrival = id, so_unset_timeout = Inr (), so_added = id, so_welcome = id, so_started = id, so_nonblocking = None,
     so_turns = [example_turn\<lparr>tn_read := ReadErr SSL_ERROR_ZERO_RETURN None\<rparr>], so_ended = id, so_removed = id,
     so_shutdown = \<lparr>sd_start = Inl EIO, sd_nonblocking = False, sd_steps = []\<rparr>\<rparr>"

definition example_thread :: ClientThread where
  "example_thread = \<lparr>th_tls = \<lparr>conn = no_connection\<lparr>socket_fd := 5\<rparr>, tls_in = 0 # 0 # 0 # 3 # str ''eve'',
       tls_reads = [ReadOk 9, ReadOk 9], tls_out = [], tls_writes = [WriteOk 9, WriteOk 99]\<rparr>,
     th_timeouts = (\<lambda>_. \<lparr>tv_sec = 0, tv_usec = 0\<rparr>), th_closed = [], th_shutdown = False\<rparr>"

lemma example_session_handshake:
  "\<exists>tr. perform_tls_handshake (so_handshake example_session) False (no_connection\<lparr>socket_fd := 5\<rparr>) =
     Some (Inr (), example_connection, [], tr)"
  by (simp add: perform_tls_handshake_def create_context_def handshake_setup_def example_session_def example_handshake_def
      Let_def const_simps remaining_milliseconds_def wants_io_def no_connection_def example_connection_def)

lemma example_session_name:
  "receive_message \<lparr>conn = example_connection, tls_in = 0 # 0 # 0 # 3 # str ''eve'', tls_reads = [ReadOk 9, ReadOk 9],
       tls_out = [], tls_writes = ws\<rparr> USERNAME_SIZE =
     Some (Inr (str ''eve''), \<lparr>conn = example_connection, tls_in = [], tls_reads = [], tls_out = [], tls_writes = ws\<rparr>)"
  by (simp add: example_connection_def receive_message_def receive_prefixed_def recv_all_def recv_loop_ok
      connection_unusable_def tls_amount_def const_simps)

lemma example_session_welcome:
  "send_welcome_message (str ''eve'') \<lparr>conn = example_connection, tls_in = [], tls_reads = [], tls_out = [],
     tls_writes = [WriteOk 9, WriteOk 99]\<rparr> = Some (Inr (), \<lparr>conn = example_connection, tls_in = [], tls_reads = [],
     tls_out = 0 # 0 # 0 # 28 # str ''Welcome to CipherChat, eve!'' @ [10], tls_writes = []\<rparr>)"
  by (simp add: send_welcome_message_def snprintf_def const_simps send_message_def send_all_def connection_unusable_def
      example_connection_def Let_def be32_def tls_amount_def MSG_WELCOME_def)

definition example_eve :: Client where
  "example_eve = blank_client\<lparr>c_wake_fd := 7, c_outgoing_failed := False, c_connection := example_connection,
     c_active := True, c_ready := False, c_id := 3, c_has_public_key := False, c_username := str ''eve''\<rparr>"

definition example_entered :: Registry where
  "example_entered = \<lparr>clients = [example_client 1 (str ''alice''), example_client 2 (str ''bob''), example_eve] @ replicate 97 blank_client,
     next_client_id = 4, os = example_os\<lparr>os_clock := 1\<rparr>\<rparr>"

lemma example_add_eve: "add_client example_registry example_connection (str ''eve'') = (example_entered, Inr 2)"
proof -
  have r: "replicate 98 blank_client = blank_client # replicate 97 blank_client"
    using replicate_Suc [of 97 blank_client] by simp
  show ?thesis using example_names
    by (simp add: add_client_def example_connection_def example_simps scan_clients_eq eventfd_def example_os_def
        allocate_client_id_def Let_def tick_def example_entered_def example_eve_def r example_registry_def fun_eq_iff)
qed

definition example_active :: Registry where
  "example_active = example_entered\<lparr>clients :=
     [example_client 1 (str ''alice''), example_client 2 (str ''bob''), example_eve\<lparr>c_ready := True\<rparr>] @ replicate 97 blank_client\<rparr>"

lemma example_activate:
  "activate_client example_entered 2 = (example_active, Inr ())" "get_client_id example_entered 2 = 3"
  by (simp_all add: activate_client_def get_client_id_def example_active_def example_entered_def example_eve_def const_simps Let_def)

lemma example_session_login:
  assumes "th_tls th = \<lparr>conn = example_connection, tls_in = 0 # 0 # 0 # 3 # str ''eve'', tls_reads = [ReadOk 9, ReadOk 9],
       tls_out = [], tls_writes = [WriteOk 9, WriteOk 99]\<rparr>"
  shows "\<exists>th'. login_client example_session example_server th =
    Some (example_server\<lparr>registry := example_active\<rparr>, th', Some (2, 3, str ''eve''))"
proof -
  have e: "so_arrival example_session = id" "so_added example_session = id" "so_welcome example_session = id"
    by (simp_all add: example_session_def)
  have n: "str ''eve'' \<noteq> []" "0 \<notin> set (str ''eve'')" by simp_all
  show ?thesis
    by (simp add: login_client_def assms example_session_name Let_def e n example_server_simps example_add_eve enter_client_def
        example_session_welcome example_activate del: str_Cons)
qed

lemma example_session_run: "\<exists>s' th'. handle_client example_session example_server example_thread = Some (s', th')"
proof -
  have w: "\<exists>ss. run_client_worker handle_client_frame None (so_turns example_session) (example_server\<lparr>registry := example_active\<rparr>) t 3 name = Return ss (Inr ())" for t name
    by (simp add: run_client_worker_def get_client_wake_fd_def example_active_def example_entered_def example_simps example_eve_def
       Let_def const_simps example_session_def worker_pass_def worker_prepare_def example_turn_def client_output_status_def
       worker_fetch_def take_outgoing_frame_def worker_write_def worker_read_def worker_start_def tls_retry_def consume_wakeup_def blank_client_def
       WORKER_ARRAY_SIZE_def)
  have r: "\<exists>th'. release_client (so_shutdown example_session) g released th = Some th'" for g released th
    by (simp add: release_client_def example_session_def close_connection_def shutdown_tls_def split: option.split)
  obtain tr where h: "perform_tls_handshake (so_handshake example_session) False (no_connection\<lparr>socket_fd := 5\<rparr>) =
     Some (Inr (), example_connection, [], tr)" using example_session_handshake by blast
  let ?th = "example_thread\<lparr>th_timeouts := set_timeout_for_socket (so_set_timeout example_session) 5 (th_timeouts example_thread),
     th_tls := (th_tls example_thread)\<lparr>conn := example_connection\<rparr>\<rparr>"
  obtain th' where l: "login_client example_session example_server ?th =
    Some (example_server\<lparr>registry := example_active\<rparr>, th', Some (2, 3, str ''eve''))"
    using example_session_login [of ?th] by (auto simp: example_thread_def simp del: str_Cons)
  obtain ss where ss: "run_client_worker handle_client_frame None (so_turns example_session) (example_server\<lparr>registry := example_active\<rparr>) (th_tls th') 3 (str ''eve'') = Return ss (Inr ())"
     using w by blast
  have e: "so_nonblocking example_session = None" "so_started example_session = id" by (simp_all add: example_session_def)
  obtain s1 released where lo: "logout_client (so_removed example_session) (so_ended example_session (ss_server ss)) 2 3 = (s1, released)"
    by fastforce
  obtain th1 where rel: "release_client (so_shutdown example_session) True released (th'\<lparr>th_tls := ss_tls ss\<rparr>) = Some th1"
    using r by blast
  have "serve_client example_session (example_server\<lparr>registry := example_active\<rparr>) th' 2 3 (str ''eve'') = Some (s1, th1)"
    by (simp add: serve_client_def e ss lo rel del: str_Cons)
  then have "handle_client example_session example_server example_thread = Some (s1, th1)"
    using h l by (simp add: handle_client_def Let_def example_thread_def del: str_Cons)
  then show ?thesis by blast
qed

lemma example_others: "others_spare c example_session"
  by (auto simp: others_spare_def interference_def turn_actions_def example_session_def example_turn_def spares_refl)

theorem session_closes_witness:
  "\<exists>s' th'. handle_client example_session example_server example_thread = Some (s', th') \<and> server_inv s' \<and>
     th_closed th' \<in> {[5], [7, 5]}"
proof -
  obtain s' th' where r: "handle_client example_session example_server example_thread = Some (s', th')"
    using example_session_run by blast
  have e: "so_arrival example_session = id" "th_closed example_thread = []" "\<not> th_shutdown example_thread"
    "socket_fd (conn (th_tls example_thread)) = 5"
    by (simp_all add: example_session_def example_thread_def no_connection_def)
  have "\<And>n. os_eventfd (os example_registry) n = Inr 7" by (simp add: example_simps example_os_def)
  then show ?thesis using session_closes [OF r example_server_inv e(2,3) _ example_others] r e
    by (auto simp: example_server_simps example_simps)
qed

end
