(* ===== verification/Server_Main.thy ===== *)
theory Server_Main
  imports Server_Steps Network "HOL-Library.Multiset"
begin

text \<open>
  The start of the server, its accept loop and the signal handler (\<open>main\<close> and \<open>stop_server\<close>
  of \<open>server.c\<close>). A turn of the loop holds the answers of the calls made in it, and where signals
  arrive in it: between the test of \<open>running\<close> and the return of \<open>accept\<close>, after that until the next
  test, or both. A signal before the listening socket is stored is a parameter of \<open>main\<close>. Not
  modelled are a signal that interrupts the handler itself and one between the final test of
  \<open>server_fd\<close> and its \<open>close\<close>. \<open>None\<close> is a loop that still runs when its turns are used up. A thread that was created is its connection in
  \<open>threads\<close>; what it does is \<open>handle_client\<close> of \<open>Server_Session\<close>.
\<close>

section \<open>Operations\<close>

record MainState =
  running :: bool
  server_fd :: int
  threads :: "Connection list"
  closed_fds :: "int list"

record AcceptTurn =
  at_signal :: bool
  at_late_signal :: bool
  at_accept :: "int result"
  at_malloc :: bool
  at_create :: bool

definition stop_server :: "MainState \<Rightarrow> MainState" where
  "stop_server m =
     (let m1 = m\<lparr>running := False\<rparr>
      in if server_fd m1 \<noteq> -1 then m1\<lparr>closed_fds := closed_fds m1 @ [server_fd m1], server_fd := -1\<rparr> else m1)"

abbreviation signalled :: "bool \<Rightarrow> MainState \<Rightarrow> MainState" where
  "signalled arrives m \<equiv> (if arrives then stop_server m else m)"

text \<open>\<open>close_connection\<close> of a connection that has no TLS object yet.\<close>

definition drop_connection :: "ShutdownOs \<Rightarrow> Connection \<Rightarrow> MainState \<Rightarrow> MainState" where
  "drop_connection env connection m =
     (case close_connection env False connection of
        None \<Rightarrow> m
      | Some (_, fds, _) \<Rightarrow> m\<lparr>closed_fds := closed_fds m @ fds\<rparr>)"

fun accept_loop :: "SocketOs \<Rightarrow> ShutdownOs \<Rightarrow> AcceptTurn list \<Rightarrow> MainState \<Rightarrow> MainState option" where
  "accept_loop env sd [] m = (if running m then None else Some m)"
| "accept_loop env sd (turn # turns) m =
     (if \<not> running m then Some m
      else let m1 = signalled (at_signal turn) m
           in case accept_client (env\<lparr>sk_accept := at_accept turn\<rparr>) of
                (Inl e, connection) \<Rightarrow>
                  if \<not> running m1 then Some m1 else accept_loop env sd turns (signalled (at_late_signal turn) m1)
              | (Inr _, connection) \<Rightarrow>
                  let m2 = (if \<not> at_malloc turn then drop_connection sd connection m1
                            else if \<not> at_create turn then drop_connection sd connection m1
                            else m1\<lparr>threads := threads m1 @ [connection]\<rparr>)
                  in accept_loop env sd turns (signalled (at_late_signal turn) m2))"

text \<open>
  \<open>main\<close>: its exit code, its own state and the shared state it has initialised.
  \<open>early\<close> tells whether a signal arrives before the listening socket is stored, \<open>sigpipe\<close> and \<open>closes\<close> whether ignoring the signal and the final \<open>close\<close> succeed.
\<close>

definition server_main ::
  "bool \<Rightarrow> bool \<Rightarrow> bool \<Rightarrow> SocketOs \<Rightarrow> ShutdownOs \<Rightarrow> AcceptTurn list \<Rightarrow> Os \<Rightarrow> (nat \<times> MainState \<times> Server option) option" where
  "server_main sigpipe early closes env sd turns oracle =
     (let m0 = \<lparr>running = True, server_fd = -1, threads = [], closed_fds = []\<rparr>
      in if \<not> sigpipe then Some (1, m0, None)
         else let s = server_init oracle; m1 = signalled early m0
              in case create_server_socket env of
                   (Inl e, fds) \<Rightarrow> Some (1, m1\<lparr>closed_fds := closed_fds m1 @ fds\<rparr>, Some s)
                 | (Inr fd, _) \<Rightarrow>
                     do { m \<leftarrow> accept_loop env sd turns (m1\<lparr>server_fd := fd\<rparr>);
                          Some (if server_fd m \<noteq> -1
                                then (if closes then 0 else 1, m\<lparr>closed_fds := closed_fds m @ [server_fd m]\<rparr>, Some s)
                                else (0, m, Some s)) })"

section \<open>No descriptor is lost\<close>

lemma stop_server_simps [simp]:
  "threads (stop_server m) = threads m" "\<not> running (stop_server m)" "server_fd (stop_server m) = -1"
  by (simp_all add: stop_server_def Let_def)

lemma drop_connection_simps [simp]:
  "threads (drop_connection sd c m) = threads m" "running (drop_connection sd c m) = running m"
  "server_fd (drop_connection sd c m) = server_fd m"
  "closed_fds (drop_connection sd c m) = closed_fds m @ (if 0 \<le> socket_fd c then [socket_fd c] else [])"
  by (simp_all add: drop_connection_def close_connection_def shuts_down_def)

text \<open>The descriptors in the hands of the program: those of its threads, and those it has closed.\<close>

definition handled_fds :: "MainState \<Rightarrow> int multiset" where
  "handled_fds m = mset (map socket_fd (threads m)) + mset (closed_fds m) + (if server_fd m = -1 then {#} else {#server_fd m#})"

definition accepted_fds :: "AcceptTurn list \<Rightarrow> int multiset" where
  "accepted_fds turns = mset (List.map_filter (\<lambda>turn. case at_accept turn of Inl _ \<Rightarrow> None | Inr fd \<Rightarrow> Some fd) turns)"

lemma handled_stop [simp]: "handled_fds (stop_server m) = handled_fds m"
  by (simp add: handled_fds_def stop_server_def Let_def)

lemma accepted_Cons:
  "accepted_fds (turn # turns) = (case at_accept turn of Inl _ \<Rightarrow> {#} | Inr fd \<Rightarrow> {#fd#}) + accepted_fds turns"
  by (simp add: accepted_fds_def map_filter_simps split: sum.splits)

text \<open>The listening descriptor stays open or is closed, and what is closed stays closed.\<close>

definition listener_step :: "MainState \<Rightarrow> MainState \<Rightarrow> bool" where
  "listener_step m m' \<longleftrightarrow> set (closed_fds m) \<subseteq> set (closed_fds m') \<and>
     (server_fd m' = server_fd m \<or> server_fd m' = -1 \<and> (server_fd m \<noteq> -1 \<longrightarrow> server_fd m \<in> set (closed_fds m')))"

lemma listener_refl [simp]: "listener_step m m"
  by (simp add: listener_step_def)

lemma listener_trans: "listener_step a b \<Longrightarrow> listener_step b c \<Longrightarrow> listener_step a c"
  unfolding listener_step_def by (metis subset_eq)

lemma signalled_accounts: "handled_fds (signalled b m) = handled_fds m" "listener_step m (signalled b m)"
  by (auto simp: listener_step_def stop_server_def Let_def handled_fds_def)

text \<open>
  One turn of the loop: it ends the loop, or goes on with the accepted descriptor, if any, given
  to a thread or closed.
\<close>

lemma accept_turn:
  assumes "\<And>fd. at_accept turn = Inr fd \<Longrightarrow> 0 \<le> fd"
  shows "\<exists>m'. listener_step m m' \<and>
    (accept_loop env sd (turn # turns) m = Some m' \<and> handled_fds m' = handled_fds m \<or>
     accept_loop env sd (turn # turns) m = accept_loop env sd turns m' \<and>
     handled_fds m' = handled_fds m + (case at_accept turn of Inl _ \<Rightarrow> {#} | Inr fd \<Rightarrow> {#fd#}))"
proof -
  define m1 where "m1 = signalled (at_signal turn) m"
  have m1: "handled_fds m1 = handled_fds m" "listener_step m m1"
    unfolding m1_def by (rule signalled_accounts)+
  note late = signalled_accounts [where b = "at_late_signal turn"]
  show ?thesis
  proof (cases "at_accept turn")
    case (Inl e)
    let ?n = "if running m1 then signalled (at_late_signal turn) m1 else m1"
    have "accept_loop env sd (turn # turns) m =
        (if running m then if running m1 then accept_loop env sd turns ?n else Some m1 else Some m)"
      using Inl by (simp add: accept_client_def m1_def [symmetric] Let_def)
    moreover have "handled_fds ?n = handled_fds m" "listener_step m ?n"
      using m1 late listener_trans [OF m1(2) late(2)] by auto
    ultimately show ?thesis
      using Inl m1 by (intro exI [of _ "if running m then ?n else m"]) (simp del: accept_loop.simps)
  next
    case (Inr fd)
    let ?c = "no_connection\<lparr>socket_fd := fd\<rparr>"
    let ?n = "if at_malloc turn \<and> at_create turn then m1\<lparr>threads := threads m1 @ [?c]\<rparr> else drop_connection sd ?c m1"
    have "accept_loop env sd (turn # turns) m =
        (if running m then accept_loop env sd turns (signalled (at_late_signal turn) ?n) else Some m)"
      using Inr by (auto simp: accept_client_def Let_def m1_def [symmetric])
    moreover have "handled_fds (signalled (at_late_signal turn) ?n) = handled_fds m + {#fd#}"
      unfolding late(1) m1(1) [symmetric] using assms [OF Inr] by (simp add: handled_fds_def)
    moreover have "listener_step m (signalled (at_late_signal turn) ?n)"
      by (rule listener_trans [OF m1(2) listener_trans [OF _ late(2)]]) (auto simp: listener_step_def)
    ultimately show ?thesis
      using Inr by (cases "running m", intro exI [of _ "signalled (at_late_signal turn) ?n"],
          simp del: accept_loop.simps split del: if_split, intro exI [of _ m], simp del: accept_loop.simps)
  qed
qed

text \<open>
  Each accepted descriptor goes to one thread or is closed; the loop consumes some first part
  of its turns.
\<close>

lemma accept_loop_accounts:
  assumes "\<forall>turn\<in>set turns. \<forall>fd. at_accept turn = Inr fd \<longrightarrow> 0 \<le> fd" "accept_loop env sd turns m = Some m'"
  shows "listener_step m m' \<and> (\<exists>k. handled_fds m' = handled_fds m + accepted_fds (take k turns))"
  using assms
proof (induction turns arbitrary: m)
  case Nil
  then show ?case by (auto simp: accepted_fds_def map_filter_simps split: if_splits)
next
  case (Cons turn turns)
  have "0 \<le> fd" if "at_accept turn = Inr fd" for fd using Cons.prems(1) that by simp
  from accept_turn [OF this] obtain m1 where m1: "listener_step m m1"
    "accept_loop env sd (turn # turns) m = Some m1 \<and> handled_fds m1 = handled_fds m \<or>
     accept_loop env sd (turn # turns) m = accept_loop env sd turns m1 \<and>
     handled_fds m1 = handled_fds m + (case at_accept turn of Inl _ \<Rightarrow> {#} | Inr fd \<Rightarrow> {#fd#})" by blast
  from m1(2) show ?case
  proof (elim disjE conjE)
    assume "accept_loop env sd (turn # turns) m = Some m1" "handled_fds m1 = handled_fds m"
    then show ?thesis using m1(1) Cons.prems(2)
      by (intro conjI exI [of _ 0]) (simp_all add: accepted_fds_def map_filter_simps del: accept_loop.simps)
  next
    assume goes: "accept_loop env sd (turn # turns) m = accept_loop env sd turns m1"
      "handled_fds m1 = handled_fds m + (case at_accept turn of Inl _ \<Rightarrow> {#} | Inr fd \<Rightarrow> {#fd#})"
    from Cons.IH [of m1] Cons.prems goes(1) obtain k where k: "listener_step m1 m'"
      "handled_fds m' = handled_fds m1 + accepted_fds (take k turns)" by auto
    then show ?thesis using listener_trans [OF m1(1) k(1)] goes(2)
      by (intro conjI exI [of _ "Suc k"]) (simp_all add: accepted_Cons del: accept_loop.simps)
  qed
qed

text \<open>The loop ends once a signal has arrived, whatever is answered before.\<close>

lemma accept_loop_stopped: "\<not> running m \<Longrightarrow> accept_loop env sd turns m = Some m"
  by (cases turns) simp_all

lemma accept_loop_ends:
  "list_ex (\<lambda>turn. at_signal turn \<or> at_late_signal turn) turns \<Longrightarrow> \<exists>m'. accept_loop env sd turns m = Some m'"
proof (induction turns arbitrary: m)
  case (Cons turn turns)
  then show ?case
    by (cases "at_signal turn \<or> at_late_signal turn"; cases "at_accept turn")
       (auto simp: accept_client_def Let_def accept_loop_stopped)
qed simp

text \<open>
  C40. No descriptor is lost or closed twice: when the server's main thread ends, the listening
  descriptor has been closed, by the signal handler or at the end, and the descriptors of
  its threads together with those it has closed are, each as often as it occurs, the
  listening descriptor and those it accepted; so every accepted one was given to one thread
  or closed once, whatever allocations and thread creations failed, and whether signals came before
  the listening socket was stored, while \<open>accept\<close> waited or in the rest of a turn.
\<close>

theorem main_no_leak:
  assumes "server_main True early closes env sd turns oracle = Some (code, m, s)" and "create_server_socket env = (Inr fd, fds)"
    and "fd \<noteq> -1" and "\<forall>turn\<in>set turns. \<forall>fd. at_accept turn = Inr fd \<longrightarrow> 0 \<le> fd"
  shows "fd \<in> set (closed_fds m) \<and>
    (\<exists>k. mset (map socket_fd (threads m)) + mset (closed_fds m) = {#fd#} + accepted_fds (take k turns))"
proof -
  let ?m0 = "\<lparr>running = \<not> early, server_fd = fd, threads = [], closed_fds = []\<rparr>"
  have start: "(signalled early \<lparr>running = True, server_fd = -1, threads = [], closed_fds = []\<rparr>)\<lparr>server_fd := fd\<rparr> = ?m0"
    by (simp add: stop_server_def)
  obtain m1 where loop: "accept_loop env sd turns ?m0 = Some m1" and r: "(if server_fd m1 \<noteq> -1
      then (if closes then 0 else 1, m1\<lparr>closed_fds := closed_fds m1 @ [server_fd m1]\<rparr>, Some (server_init oracle))
      else (0, m1, Some (server_init oracle))) = (code, m, s)"
    using assms(1) unfolding server_main_def Let_def assms(2) by (auto simp: start bind_eq_Some_conv simp del: accept_loop.simps)
  have m: "m = (if server_fd m1 \<noteq> -1 then m1\<lparr>closed_fds := closed_fds m1 @ [server_fd m1]\<rparr> else m1)"
    using r by (simp split: if_splits)
  obtain k where "handled_fds m1 = handled_fds ?m0 + accepted_fds (take k turns)" and listener: "listener_step ?m0 m1"
    using accept_loop_accounts [OF assms(4) loop] by blast
  then have k: "handled_fds m1 = {#fd#} + accepted_fds (take k turns)"
    unfolding handled_fds_def [of ?m0] using assms(3) by simp
  have "mset (map socket_fd (threads m)) + mset (closed_fds m) = handled_fds m1"
    by (simp add: m handled_fds_def)
  moreover have "fd \<in> set (closed_fds m)"
    using assms(3) listener by (auto simp: m listener_step_def)
  ultimately show ?thesis using k by metis
qed

definition example_sockets :: SocketOs where
  "example_sockets = \<lparr>sk_socket = Inr 3, sk_setsockopt = Inr (), sk_bind = Inr (), sk_listen = Inr (), sk_accept = Inr 0,
     sk_inet_pton = True, sk_connect = Inr ()\<rparr>"

definition example_turns :: "AcceptTurn list" where
  "example_turns =
     [\<lparr>at_signal = False, at_late_signal = False, at_accept = Inr 4, at_malloc = True, at_create = True\<rparr>,
      \<lparr>at_signal = False, at_late_signal = False, at_accept = Inr 5, at_malloc = True, at_create = False\<rparr>,
      \<lparr>at_signal = True, at_late_signal = False, at_accept = Inl EBADF, at_malloc = True, at_create = True\<rparr>]"

definition example_shutdown :: ShutdownOs where
  "example_shutdown = \<lparr>sd_start = Inr 0, sd_nonblocking = True, sd_steps = []\<rparr>"

theorem main_no_leak_witness:
  "\<exists>k. mset (map socket_fd [no_connection\<lparr>socket_fd := 4\<rparr>]) + mset [5, 3] = {#3#} + accepted_fds (take k example_turns)"
proof -
  have "server_main True False True example_sockets example_shutdown example_turns w =
      Some (0, \<lparr>running = False, server_fd = -1, threads = [no_connection\<lparr>socket_fd := 4\<rparr>], closed_fds = [5, 3]\<rparr>,
       Some (server_init w))" for w
    by (simp add: server_main_def Let_def create_server_socket_def example_sockets_def example_turns_def accept_client_def
        drop_connection_def close_connection_def shuts_down_def stop_server_def no_connection_def)
  moreover have "create_server_socket example_sockets = (Inr 3, [])"
    by (simp add: create_server_socket_def example_sockets_def)
  moreover have "\<forall>turn\<in>set example_turns. \<forall>fd. at_accept turn = Inr fd \<longrightarrow> 0 \<le> fd" by (simp add: example_turns_def)
  ultimately show ?thesis using main_no_leak by fastforce
qed

end
