(* ===== verification/Linked_List.thy ===== *)
theory Linked_List
  imports Main
begin

text \<open>
  Linked lists on a heap, shared by the two places of the program that build them with
  \<open>malloc\<close>: the requests of the client that wait for a key, and the frames of the server that
  wait to be sent. A heap is a partial map from addresses to cells; an address that was freed
  or never allocated has no cell. \<open>chain\<close> relates a heap to the list of the cells that are
  met by following \<open>next\<close> from some address.
\<close>

record 'a Cell =
  cell_data :: 'a
  cell_next :: "nat option"

type_synonym 'a heap = "nat \<Rightarrow> 'a Cell option"

text \<open>\<open>p->next = q\<close>\<close>

definition set_next :: "nat \<Rightarrow> nat option \<Rightarrow> 'a heap \<Rightarrow> 'a heap" where
  "set_next a n h = (case h a of None \<Rightarrow> h | Some c \<Rightarrow> h(a \<mapsto> c\<lparr>cell_next := n\<rparr>))"

text \<open>\<open>chain h x cs y\<close>: following \<open>next\<close> from \<open>x\<close> visits the cells \<open>cs\<close> and arrives at \<open>y\<close>.\<close>

primrec chain :: "'a heap \<Rightarrow> nat option \<Rightarrow> (nat \<times> 'a) list \<Rightarrow> nat option \<Rightarrow> bool" where
  "chain h x [] y \<longleftrightarrow> x = y"
| "chain h x (c # cs) y \<longleftrightarrow>
     x = Some (fst c) \<and> (\<exists>n. h (fst c) = Some \<lparr>cell_data = snd c, cell_next = n\<rparr> \<and> chain h n cs y)"

lemma chain_append: "chain h x (as @ bs) z \<longleftrightarrow> (\<exists>y. chain h x as y \<and> chain h y bs z)"
  by (induction as arbitrary: x) auto

lemma chain_upd [simp]: "a \<notin> fst ` set cs \<Longrightarrow> chain (h(a := v)) x cs y \<longleftrightarrow> chain h x cs y"
  by (induction cs arbitrary: x) auto

lemma chain_set_next [simp]: "a \<notin> fst ` set cs \<Longrightarrow> chain (set_next a n h) x cs y \<longleftrightarrow> chain h x cs y"
  by (auto simp: set_next_def split: option.splits)

lemma dom_set_next [simp]: "dom (set_next a n h) = dom h"
  by (auto simp: set_next_def split: option.splits)

lemma chain_snoc:
  "chain h x (cs @ [c]) y \<longleftrightarrow> chain h x cs (Some (fst c)) \<and> h (fst c) = Some \<lparr>cell_data = snd c, cell_next = y\<rparr>"
  by (auto simp: chain_append)

text \<open>Redirecting the last cell of a chain lets it arrive elsewhere.\<close>

lemma chain_redirect:
  assumes "chain h x (cs @ [c]) y" "fst c \<notin> fst ` set cs"
  shows "chain (set_next (fst c) z h) x (cs @ [c]) z"
  using assms by (auto simp: chain_append set_next_def)

lemma chain_in_heap: "chain h x cs y \<Longrightarrow> fst ` set cs \<subseteq> dom h"
  by (induction cs arbitrary: x) auto

text \<open>Linking a new cell in behind the last one, or as the first one.\<close>

lemma chain_link:
  assumes "chain h x cs None" "distinct (map fst cs)" "a \<notin> fst ` set cs" "cs \<noteq> []"
  shows "chain (set_next (fst (last cs)) (Some a) (h(a \<mapsto> \<lparr>cell_data = v, cell_next = None\<rparr>))) x (cs @ [(a, v)]) None"
proof -
  let ?h = "h(a \<mapsto> \<lparr>cell_data = v, cell_next = None\<rparr>)"
  obtain ds c where cs: "cs = ds @ [c]" using assms(4) by (cases cs rule: rev_cases) auto
  have "chain ?h x (ds @ [c]) None" "fst c \<notin> fst ` set ds" using assms unfolding cs by auto
  from chain_redirect [OF this] have "chain (set_next (fst c) (Some a) ?h) x (ds @ [c]) (Some a)" .
  moreover have "set_next (fst c) (Some a) ?h a = Some \<lparr>cell_data = v, cell_next = None\<rparr>"
    using assms(3) cs by (auto simp: set_next_def split: option.splits)
  ultimately show ?thesis unfolding cs chain_snoc [of _ _ "ds @ [c]"] by simp
qed

end
