(* ===== verification/Pending_List.thy ===== *)
theory Pending_List
  imports Common Linked_List
begin

text \<open>
  The list of requests of \<open>client.c\<close> that wait for the public key of their recipient: linked
  cells on the heap between \<open>pending_head\<close> and \<open>pending_tail\<close>, with a counter. Following a
  pointer to a cell that is not there gives \<open>None\<close>.
  The locale \<open>package_queue\<close> is the contract the client relies on (add at the end, remove
  the oldest request for a name); the linked list provides it.
\<close>

section \<open>The linked list\<close>

definition MAX_PENDING_PACKAGES :: nat where "MAX_PENDING_PACKAGES = 128"

datatype PendingPackageType = PENDING_MESSAGE | PENDING_FILE

record PendingPackage =
  pp_type :: PendingPackageType
  pp_recipient :: bytes
  pp_data :: bytes

record PendingQueue =
  cells :: "PendingPackage heap"
  pending_head :: "nat option"
  pending_tail :: "nat option"
  pending_count :: nat
  next_cell :: nat

definition no_pending :: PendingQueue where
  "no_pending = \<lparr>cells = Map.empty, pending_head = None, pending_tail = None, pending_count = 0, next_cell = 0\<rparr>"

text \<open>
  The end of \<open>handle_private_message\<close> and \<open>handle_file_command\<close>: a cell that \<open>malloc\<close> took
  from a place not in use is linked in.
\<close>

definition pending_append :: "PendingPackage \<Rightarrow> PendingQueue \<Rightarrow> PendingQueue" where
  "pending_append package q =
     (let a = next_cell q;
          q1 = q\<lparr>cells := (cells q)(a \<mapsto> \<lparr>cell_data = package, cell_next = None\<rparr>), next_cell := Suc a\<rparr>;
          q2 = (case pending_tail q1 of
                  Some t \<Rightarrow> q1\<lparr>cells := set_next t (Some a) (cells q1)\<rparr>
                | None \<Rightarrow> q1\<lparr>pending_head := Some a\<rparr>)
      in q2\<lparr>pending_tail := Some a, pending_count := Suc (pending_count q2)\<rparr>)"

text \<open>The search of \<open>handle_server_frame\<close>: the previous cell and the first cell for the recipient.\<close>

partial_function (option) pending_search ::
  "PendingPackage heap \<Rightarrow> bytes \<Rightarrow> nat option \<Rightarrow> nat option \<Rightarrow> (nat option \<times> nat option) option" where
  "pending_search h recipient previous pending =
     (if pending = None then Some (previous, None)
      else do { c \<leftarrow> h (the pending);
                if pp_recipient (cell_data c) = recipient then Some (previous, pending)
                else pending_search h recipient pending (cell_next c) })"

text \<open>Unlinking a cell and releasing it.\<close>

definition pending_unlink :: "nat option \<Rightarrow> nat \<Rightarrow> PendingQueue \<Rightarrow> PendingQueue" where
  "pending_unlink previous a q =
     (let n = (case cells q a of None \<Rightarrow> None | Some c \<Rightarrow> cell_next c);
          q1 = (case previous of
                  Some p \<Rightarrow> q\<lparr>cells := set_next p n (cells q)\<rparr>
                | None \<Rightarrow> q\<lparr>pending_head := n\<rparr>);
          q2 = (if pending_tail q1 = Some a then q1\<lparr>pending_tail := previous\<rparr> else q1)
      in q2\<lparr>pending_count := pending_count q2 - 1, cells := (cells q2)(a := None)\<rparr>)"

definition pending_take :: "bytes \<Rightarrow> PendingQueue \<Rightarrow> (PendingPackage option \<times> PendingQueue) option" where
  "pending_take recipient q =
     do { (previous, found) \<leftarrow> pending_search (cells q) recipient None (pending_head q);
          case found of
            None \<Rightarrow> Some (None, q)
          | Some a \<Rightarrow> do { c \<leftarrow> cells q a; Some (Some (cell_data c), pending_unlink previous a q) } }"

text \<open>The loop at the end of \<open>main\<close> that releases every cell from the head on.\<close>

partial_function (option) pending_free_all :: "PendingQueue \<Rightarrow> PendingQueue option" where
  "pending_free_all q =
     (if pending_head q = None then Some (q\<lparr>pending_tail := None\<rparr>)
      else do { c \<leftarrow> cells q (the (pending_head q));
                pending_free_all (q\<lparr>pending_head := cell_next c, cells := (cells q)(the (pending_head q) := None)\<rparr>) })"

section \<open>The invariant\<close>

text \<open>
  The cells from the head on, in order; the tail and the counter agree with them, and no other
  cell is in use.
\<close>

definition pending_inv :: "PendingQueue \<Rightarrow> (nat \<times> PendingPackage) list \<Rightarrow> bool" where
  "pending_inv q cs \<longleftrightarrow> chain (cells q) (pending_head q) cs None \<and> distinct (map fst cs) \<and>
     pending_tail q = (if cs = [] then None else Some (fst (last cs))) \<and> pending_count q = length cs \<and>
     (\<forall>c\<in>set cs. fst c < next_cell q) \<and> dom (cells q) = fst ` set cs"

text \<open>The requests of a well-formed list, oldest first.\<close>

definition represents :: "PendingQueue \<Rightarrow> PendingPackage list \<Rightarrow> bool" where
  "represents q ps \<longleftrightarrow> (\<exists>cs. pending_inv q cs \<and> map snd cs = ps)"

lemma no_pending_inv: "pending_inv no_pending []"
  by (simp add: pending_inv_def no_pending_def)

lemma pending_append_inv:
  assumes inv: "pending_inv q cs"
  shows "pending_inv (pending_append p q) (cs @ [(next_cell q, p)])"
proof -
  have new: "next_cell q \<notin> fst ` set cs" using inv by (auto simp: pending_inv_def)
  show ?thesis
  proof (cases "cs = []")
    case True
    then show ?thesis using inv by (simp add: pending_inv_def pending_append_def Let_def)
  next
    case False
    then have "chain (set_next (fst (last cs)) (Some (next_cell q)) ((cells q)(next_cell q \<mapsto> \<lparr>cell_data = p, cell_next = None\<rparr>)))
        (pending_head q) (cs @ [(next_cell q, p)]) None"
      using inv new by (intro chain_link) (simp_all add: pending_inv_def)
    moreover have "pending_tail q = Some (fst (last cs))" using inv False by (simp add: pending_inv_def)
    ultimately show ?thesis using inv new by (auto simp: pending_inv_def pending_append_def Let_def)
  qed
qed

text \<open>The search follows the chain to the first request for the name.\<close>

definition last_cell :: "nat option \<Rightarrow> (nat \<times> PendingPackage) list \<Rightarrow> nat option" where
  "last_cell previous cs = (if cs = [] then previous else Some (fst (last cs)))"

lemma pending_search_skip:
  "chain h x cs y \<Longrightarrow> (\<And>c. c \<in> set cs \<Longrightarrow> pp_recipient (snd c) \<noteq> r) \<Longrightarrow>
   pending_search h r previous x = pending_search h r (last_cell previous cs) y"
proof (induction cs arbitrary: x previous)
  case Nil
  then show ?case by (simp add: last_cell_def)
next
  case (Cons c cs)
  then obtain n where n: "x = Some (fst c)" "h (fst c) = Some \<lparr>cell_data = snd c, cell_next = n\<rparr>" "chain h n cs y"
    by auto
  have "pending_search h r previous x = pending_search h r (Some (fst c)) n"
    using n Cons.prems(2) by (subst pending_search.simps) simp
  also have "\<dots> = pending_search h r (last_cell (Some (fst c)) cs) y" using Cons.IH [OF n(3)] Cons.prems(2) by simp
  finally show ?case by (simp add: last_cell_def)
qed

lemma pending_search_missing:
  "chain h x cs None \<Longrightarrow> (\<And>c. c \<in> set cs \<Longrightarrow> pp_recipient (snd c) \<noteq> r) \<Longrightarrow>
   pending_search h r previous x = Some (last_cell previous cs, None)"
  by (simp add: pending_search_skip pending_search.simps [of h r _ None])

lemma pending_search_found:
  assumes "chain h x (as @ c # bs) None" "\<And>d. d \<in> set as \<Longrightarrow> pp_recipient (snd d) \<noteq> r" "pp_recipient (snd c) = r"
  shows "pending_search h r previous x = Some (last_cell previous as, Some (fst c))"
proof -
  obtain n where as: "chain h x as (Some (fst c))" and c: "h (fst c) = Some \<lparr>cell_data = snd c, cell_next = n\<rparr>"
    using assms(1) by (auto simp: chain_append)
  have "pending_search h r previous x = pending_search h r (last_cell previous as) (Some (fst c))"
    by (rule pending_search_skip [OF as assms(2)])
  also have "\<dots> = Some (last_cell previous as, Some (fst c))" using c assms(3) by (subst pending_search.simps) simp
  finally show ?thesis .
qed

lemma pending_unlink_dom: "dom (cells (pending_unlink previous a q)) = dom (cells q) - {a}"
  by (cases previous) (simp_all add: pending_unlink_def Let_def)

lemma pending_unlink_inv:
  assumes inv: "pending_inv q (as @ c # bs)"
  shows "pending_inv (pending_unlink (last_cell None as) (fst c) q) (as @ bs)"
proof -
  obtain n where as: "chain (cells q) (pending_head q) as (Some (fst c))"
    and c: "cells q (fst c) = Some \<lparr>cell_data = snd c, cell_next = n\<rparr>" and bs: "chain (cells q) n bs None"
    using inv by (auto simp: pending_inv_def chain_append)
  have dist: "distinct (map fst (as @ c # bs))" using inv by (simp add: pending_inv_def)
  have tail: "pending_tail q = Some (fst (last (c # bs)))" using inv by (simp add: pending_inv_def)
  have dom: "dom (cells (pending_unlink (last_cell None as) (fst c) q)) = fst ` set (as @ bs)"
    using inv dist by (simp add: pending_unlink_dom pending_inv_def image_Un)
  have last: "pending_tail q = Some (fst c) \<longleftrightarrow> bs = []"
  proof (cases "bs = []")
    case False
    then have "fst (last bs) \<in> fst ` set bs" by simp
    moreover have "fst c \<notin> fst ` set bs" using dist by simp
    ultimately have "fst (last bs) \<noteq> fst c" by metis
    then show ?thesis using tail False by simp
  qed (simp add: tail)
  show ?thesis
  proof (cases as rule: rev_cases)
    case Nil
    then have "chain ((cells q)(fst c := None)) n bs None" using bs dist by simp
    then show ?thesis
      using Nil c inv last tail dom unfolding pending_inv_def
      by (intro conjI) (auto simp: pending_unlink_def last_cell_def Let_def)
  next
    case (snoc ds d)
    let ?h = "(set_next (fst d) n (cells q))(fst c := None)"
    have "chain (set_next (fst d) n (cells q)) (pending_head q) (ds @ [d]) n"
      using as dist unfolding snoc by (intro chain_redirect) auto
    then have "chain ?h (pending_head q) (ds @ [d]) n" using dist snoc by auto
    moreover have "chain ?h n bs None" using bs dist snoc by auto
    ultimately have "chain ?h (pending_head q) (as @ bs) None" unfolding snoc chain_append by blast
    then show ?thesis
      using snoc c inv last tail dom unfolding pending_inv_def
      by (intro conjI) (auto simp: pending_unlink_def last_cell_def Let_def)
  qed
qed

lemma first_match:
  "(\<forall>c\<in>set cs. \<not> P c) \<or> (\<exists>as c bs. cs = as @ c # bs \<and> (\<forall>d\<in>set as. \<not> P d) \<and> P c)"
  by (metis split_list_first_prop)

section \<open>The contract\<close>

text \<open>The abstract queue: what \<open>take\<close> removes is the oldest request for the name.\<close>

primrec take_first :: "bytes \<Rightarrow> PendingPackage list \<Rightarrow> PendingPackage option \<times> PendingPackage list" where
  "take_first r [] = (None, [])"
| "take_first r (p # ps) =
     (if pp_recipient p = r then (Some p, ps) else let (x, qs) = take_first r ps in (x, p # qs))"

lemma take_first_missing: "(\<And>p. p \<in> set ps \<Longrightarrow> pp_recipient p \<noteq> r) \<Longrightarrow> take_first r ps = (None, ps)"
  by (induction ps) auto

lemma take_first_found:
  "(\<And>p. p \<in> set as \<Longrightarrow> pp_recipient p \<noteq> r) \<Longrightarrow> pp_recipient c = r \<Longrightarrow> take_first r (as @ c # bs) = (Some c, as @ bs)"
  by (induction as) auto

locale package_queue =
  fixes repr :: "'q \<Rightarrow> PendingPackage list \<Rightarrow> bool"
    and empty :: 'q
    and append :: "PendingPackage \<Rightarrow> 'q \<Rightarrow> 'q"
    and remove :: "bytes \<Rightarrow> 'q \<Rightarrow> (PendingPackage option \<times> 'q) option"
  assumes repr_empty: "repr empty []"
    and repr_append: "repr q ps \<Longrightarrow> repr (append p q) (ps @ [p])"
    and repr_remove: "repr q ps \<Longrightarrow> take_first r ps = (x, ps') \<Longrightarrow> \<exists>q'. remove r q = Some (x, q') \<and> repr q' ps'"
begin

text \<open>Removing never fails, and gives a request for the given name that was in the queue.\<close>

lemma remove_total: "repr q ps \<Longrightarrow> \<exists>x q' ps'. remove r q = Some (x, q') \<and> take_first r ps = (x, ps') \<and> repr q' ps'"
  using repr_remove [of q ps r "fst (take_first r ps)" "snd (take_first r ps)"] by force

lemma remove_Some: "repr q ps \<Longrightarrow> remove r q = Some (Some p, q') \<Longrightarrow> pp_recipient p = r \<and> p \<in> set ps"
proof -
  assume "repr q ps" "remove r q = Some (Some p, q')"
  then obtain ps' where "take_first r ps = (Some p, ps')" using remove_total [of q ps r] by auto
  then show ?thesis by (induction ps arbitrary: ps') (auto split: if_splits prod.splits)
qed

lemma remove_None_iff: "repr q ps \<Longrightarrow> (\<exists>q'. remove r q = Some (None, q')) \<longleftrightarrow> (\<forall>p\<in>set ps. pp_recipient p \<noteq> r)"
proof -
  assume "repr q ps"
  then obtain x q' ps' where "remove r q = Some (x, q')" "take_first r ps = (x, ps')" using remove_total by blast
  moreover have "fst (take_first r ps) = None \<longleftrightarrow> (\<forall>p\<in>set ps. pp_recipient p \<noteq> r)"
    by (induction ps) (auto simp: case_prod_beta)
  ultimately show ?thesis by auto
qed

end

lemma represents_remove:
  assumes "represents q ps" "take_first r ps = (x, ps')"
  shows "\<exists>q'. pending_take r q = Some (x, q') \<and> represents q' ps'"
proof -
  obtain cs where inv: "pending_inv q cs" and ps: "ps = map snd cs" using assms(1) by (auto simp: represents_def)
  then have ch: "chain (cells q) (pending_head q) cs None" by (simp add: pending_inv_def)
  show ?thesis
  proof (cases "\<forall>c\<in>set cs. pp_recipient (snd c) \<noteq> r")
    case True
    then have "pending_take r q = Some (None, q)"
      using pending_search_missing [OF ch] by (auto simp: pending_take_def)
    moreover have "take_first r ps = (None, ps)" using True ps by (intro take_first_missing) auto
    ultimately show ?thesis using assms by auto
  next
    case False
    then obtain as c bs where cs: "cs = as @ c # bs" "\<And>d. d \<in> set as \<Longrightarrow> pp_recipient (snd d) \<noteq> r" "pp_recipient (snd c) = r"
      using first_match [of cs "\<lambda>c. pp_recipient (snd c) = r"] by blast
    have "cells q (fst c) = Some \<lparr>cell_data = snd c, cell_next = n\<rparr> \<Longrightarrow>
        pending_take r q = Some (Some (snd c), pending_unlink (last_cell None as) (fst c) q)" for n
      using pending_search_found [OF ch [unfolded cs(1)] cs(2,3)] by (simp add: pending_take_def)
    moreover have "\<exists>n. cells q (fst c) = Some \<lparr>cell_data = snd c, cell_next = n\<rparr>"
      using ch by (auto simp: cs(1) chain_append)
    moreover have "p \<in> set (map snd as) \<Longrightarrow> pp_recipient p \<noteq> r" for p using cs(2) by auto
    then have "take_first r ps = (Some (snd c), map snd as @ map snd bs)"
      using take_first_found [OF _ cs(3), of "map snd as" "map snd bs"] by (simp add: ps cs(1))
    moreover have "represents (pending_unlink (last_cell None as) (fst c) q) (map snd as @ map snd bs)"
      using pending_unlink_inv [of q as c bs] inv cs(1) by (auto simp: represents_def)
    ultimately show ?thesis using assms(2) by auto
  qed
qed

interpretation pending: package_queue represents no_pending pending_append pending_take
proof
  show "represents no_pending []" using no_pending_inv by (auto simp: represents_def)
  show "represents (pending_append p q) (ps @ [p])" if "represents q ps" for q ps p
    using that pending_append_inv by (fastforce simp: represents_def)
  show "\<exists>q'. pending_take r q = Some (x, q') \<and> represents q' ps'" if "represents q ps" "take_first r ps = (x, ps')" for q ps r x ps'
    by (rule represents_remove [OF that])
qed

lemma represents_count: "represents q ps \<Longrightarrow> pending_count q = length ps"
  by (auto simp: represents_def pending_inv_def)

text \<open>The final loop visits every cell, whatever the list, and leaves none.\<close>

lemma pending_free_all_chain:
  "chain (cells q) (pending_head q) cs None \<Longrightarrow> distinct (map fst cs) \<Longrightarrow>
   \<exists>q'. pending_free_all q = Some q' \<and> pending_head q' = None \<and> pending_tail q' = None \<and>
     cells q' = (\<lambda>a. if a \<in> fst ` set cs then None else cells q a)"
proof (induction cs arbitrary: q)
  case Nil
  then show ?case by (subst pending_free_all.simps) auto
next
  case (Cons c cs)
  then obtain n where n: "pending_head q = Some (fst c)" "cells q (fst c) = Some \<lparr>cell_data = snd c, cell_next = n\<rparr>"
    "chain (cells q) n cs None" by auto
  let ?q = "q\<lparr>pending_head := n, cells := (cells q)(fst c := None)\<rparr>"
  have "chain (cells ?q) (pending_head ?q) cs None" "distinct (map fst cs)" using n(3) Cons.prems(2) by auto
  from Cons.IH [OF this] obtain q' where q': "pending_free_all ?q = Some q'" "pending_head q' = None" "pending_tail q' = None"
    "cells q' = (\<lambda>a. if a \<in> fst ` set cs then None else cells ?q a)" by blast
  have "pending_free_all q = pending_free_all ?q" using n by (subst pending_free_all.simps) simp
  then show ?case using q' by (auto simp: fun_eq_iff)
qed

lemma pending_free_all_inv:
  "pending_inv q cs \<Longrightarrow>
   \<exists>q'. pending_free_all q = Some q' \<and> pending_head q' = None \<and> pending_tail q' = None \<and> cells q' = Map.empty"
  using pending_free_all_chain [of q cs] by (fastforce simp: pending_inv_def fun_eq_iff dom_def)

end
