(* ===== verification/File_Crypto.thy ===== *)
theory File_Crypto
  imports File_Protocol
begin

text \<open>
  The whole-file encryption format of \<open>client_files.h\<close>, and libsodium's \<open>crypto_box\<close> as a
  parameter. A \<open>Sodium\<close> holds the two functions the clients call; what is documented of them
  is stated by the predicates \<open>box_sized\<close> (lengths) and \<open>box_opens\<close> (a box made for a key
  pair opens with the other one), which properties take as hypotheses where they need them.
\<close>

section \<open>Constants\<close>

definition DOWNLOAD_DIRECTORY :: bytes where "DOWNLOAD_DIRECTORY = str ''downloads''"
definition DOWNLOAD_PATH_LIMIT :: nat where "DOWNLOAD_PATH_LIMIT = 4096"
definition MAX_INCOMING_FILES :: nat where "MAX_INCOMING_FILES = 16"
definition FILE_CRYPTO_MAGIC :: bytes where "FILE_CRYPTO_MAGIC = str ''CCFILE01''"
definition FILE_CRYPTO_MAGIC_SIZE :: nat where "FILE_CRYPTO_MAGIC_SIZE = 8"
definition FILE_PLAINTEXT_MAX_SIZE :: nat where "FILE_PLAINTEXT_MAX_SIZE = 16 * 1024 * 1024"
definition FILE_CRYPTO_HEADER_SIZE :: nat where
  "FILE_CRYPTO_HEADER_SIZE = FILE_CRYPTO_MAGIC_SIZE + CHAT_PUBLIC_KEY_SIZE + CHAT_NONCE_SIZE"
definition FILE_CRYPTO_METADATA_SIZE :: nat where "FILE_CRYPTO_METADATA_SIZE = FILE_CRYPTO_MAGIC_SIZE + 2"
definition FILE_CRYPTO_OVERHEAD :: nat where
  "FILE_CRYPTO_OVERHEAD = FILE_CRYPTO_HEADER_SIZE + CHAT_MAC_SIZE + FILE_CRYPTO_METADATA_SIZE"

lemmas client_file_consts [const_simps] =
  DOWNLOAD_PATH_LIMIT_def MAX_INCOMING_FILES_def FILE_CRYPTO_MAGIC_SIZE_def FILE_PLAINTEXT_MAX_SIZE_def
  FILE_CRYPTO_HEADER_SIZE_def FILE_CRYPTO_METADATA_SIZE_def FILE_CRYPTO_OVERHEAD_def

lemma length_magic [simp]: "length FILE_CRYPTO_MAGIC = 8"
  by (simp add: FILE_CRYPTO_MAGIC_def)

section \<open>The cryptographic library\<close>

text \<open>
  \<open>box_easy m n pk sk\<close> and \<open>box_open c n pk sk\<close> are \<open>crypto_box_easy\<close> and
  \<open>crypto_box_open_easy\<close>: the output buffer, or \<open>None\<close> when the call does not return 0.
\<close>

record Sodium =
  box_easy :: "bytes \<Rightarrow> bytes \<Rightarrow> bytes \<Rightarrow> bytes \<Rightarrow> bytes option"
  box_open :: "bytes \<Rightarrow> bytes \<Rightarrow> bytes \<Rightarrow> bytes \<Rightarrow> bytes option"

definition box_sized :: "Sodium \<Rightarrow> bool" where
  "box_sized so \<longleftrightarrow>
     (\<forall>m n pk sk c. box_easy so m n pk sk = Some c \<longrightarrow> length c = length m + CHAT_MAC_SIZE) \<and>
     (\<forall>c n pk sk m. box_open so c n pk sk = Some m \<longrightarrow> length c = length m + CHAT_MAC_SIZE)"

text \<open>What the owner of the pair \<open>s\<close> boxes for the owner of the pair \<open>r\<close>, the latter can open.\<close>

definition box_opens :: "Sodium \<Rightarrow> bytes \<times> bytes \<Rightarrow> bytes \<times> bytes \<Rightarrow> bool" where
  "box_opens so s r \<longleftrightarrow>
     (\<forall>m n c. length n = CHAT_NONCE_SIZE \<longrightarrow> box_easy so m n (fst r) (snd s) = Some c \<longrightarrow> box_open so c n (fst s) (snd r) = Some m)"

lemma box_easy_length: "box_sized so \<Longrightarrow> box_easy so m n pk sk = Some c \<Longrightarrow> length c = length m + 16"
  by (simp add: box_sized_def CHAT_MAC_SIZE_def)

lemma box_open_length: "box_sized so \<Longrightarrow> box_open so c n pk sk = Some m \<Longrightarrow> length c = length m + 16"
  by (simp add: box_sized_def CHAT_MAC_SIZE_def)

section \<open>The two layers of the format\<close>

text \<open>The plaintext: magic, file name length, file name, file; and the envelope of its box.\<close>

definition file_plaintext :: "bytes \<Rightarrow> bytes \<Rightarrow> bytes" where
  "file_plaintext filename data =
     FILE_CRYPTO_MAGIC @ [of_nat (drop_bit 8 (length filename)), of_nat (length filename)] @ filename @ data"

definition file_envelope :: "bytes \<Rightarrow> bytes \<Rightarrow> bytes \<Rightarrow> bytes" where
  "file_envelope sender_public_key nonce box = FILE_CRYPTO_MAGIC @ sender_public_key @ nonce @ box"

lemma length_file_plaintext [simp]: "length (file_plaintext name data) = 10 + length name + length data"
  by (simp add: file_plaintext_def)

lemma length_file_envelope [simp]:
  "length (file_envelope pk nonce box) = 8 + length pk + length nonce + length box"
  by (simp add: file_envelope_def)

text \<open>The two length bytes of the plaintext, read back as the receiver reads them.\<close>

lemma length_bytes:
  assumes "n < 65536"
  shows "push_bit 8 (unat (of_nat (drop_bit 8 n) :: byte)) OR unat (of_nat n :: byte) = n"
proof -
  have "unat (of_nat (drop_bit 8 n) :: byte) = drop_bit 8 n"
    using assms by (simp add: unat_of_nat drop_bit_eq_div)
  moreover have "unat (of_nat n :: byte) = take_bit 8 n" by (simp add: unat_of_nat take_bit_eq_mod)
  moreover have "push_bit 8 (drop_bit 8 n) OR take_bit 8 n = n"
    by (rule bit_eqI) (auto simp: bit_simps)
  ultimately show ?thesis by (simp only:)
qed


text \<open>An instance of the parameter, for examples: it keeps the lengths and opens what it boxes.\<close>

definition example_sodium :: Sodium where
  "example_sodium =
     \<lparr>box_easy = (\<lambda>m n pk sk. Some (replicate 16 7 @ map (\<lambda>b. b XOR 90) m)),
      box_open = (\<lambda>c n pk sk. if take 16 c = replicate 16 7 then Some (map (\<lambda>b. b XOR 90) (drop 16 c)) else None)\<rparr>"

lemma xor_twice [simp]: "(b XOR 90) XOR (90 :: byte) = b"
  by (simp add: xor.assoc)

lemma example_sodium_laws: "box_sized example_sodium" "box_opens example_sodium s r"
proof -
  have "16 \<le> length c" if "take 16 c = replicate 16 (7 :: byte)" for c
    using arg_cong [OF that, of length] by simp
  then show "box_sized example_sodium"
    by (auto simp: box_sized_def example_sodium_def CHAT_MAC_SIZE_def split: if_splits)
  show "box_opens example_sodium s r"
    by (auto simp: box_opens_def example_sodium_def comp_def)
qed

end
