(* ===== verification/Tls_Output.thy ===== *)
theory Tls_Output
  imports Common
begin

text \<open>
  Sequences of sends. The client sends several frames in a row and stops at the first
  failure; \<open>and_then\<close> is that sequencing. Two judgements describe an action on a connection
  by the bytes it is meant to put on the wire: \<open>emits\<close> says that it puts a prefix of them
  there, all of them when it succeeds (safety), and \<open>completes\<close> says that it does succeed
  once the connection accepts enough writes (progress). Both compose along \<open>and_then\<close>.
\<close>

type_synonym action = "Tls \<Rightarrow> (unit result \<times> Tls) option"

text \<open>\<open>send_frame (...) == -1 ? -1 : 0\<close>.\<close>

definition sent :: "(nat result \<times> Tls) option \<Rightarrow> (unit result \<times> Tls) option" where
  "sent = map_option (\<lambda>(r, t). (map_sum id (\<lambda>_. ()) r, t))"

lemma sent_Inr: "sent x = Some (Inr (), t) \<longleftrightarrow> (\<exists>n. x = Some (Inr n, t))"
proof (cases x)
  case (Some p)
  then show ?thesis by (cases p; cases "fst p") (auto simp: sent_def)
qed (simp add: sent_def)

definition and_then :: "(unit result \<times> Tls) option \<Rightarrow> action \<Rightarrow> (unit result \<times> Tls) option" where
  "and_then m f =
     (case m of None \<Rightarrow> None | Some (Inl e, t) \<Rightarrow> Some (Inl e, t) | Some (Inr _, t) \<Rightarrow> f t)"

lemma and_then_cong [fundef_cong]:
  "m = m' \<Longrightarrow> (\<And>t. m' = Some (Inr (), t) \<Longrightarrow> f t = f' t) \<Longrightarrow> and_then m f = and_then m' f'"
  by (auto simp: and_then_def split: option.splits sum.splits)

lemma and_then_simps [simp]:
  "and_then (Some (Inr u, t)) f = f t" "and_then (Some (Inl e, t)) f = Some (Inl e, t)" "and_then None f = None"
  by (simp_all add: and_then_def)

section \<open>What an action may write\<close>

definition emits :: "action \<Rightarrow> bytes \<Rightarrow> bool" where
  "emits f w \<longleftrightarrow>
     (\<forall>t r t'. f t = Some (r, t') \<longrightarrow>
        (\<exists>k\<le>length w. tls_out t' = tls_out t @ take k w \<and> (r = Inr () \<longrightarrow> k = length w)))"

definition completes :: "action \<Rightarrow> bytes \<Rightarrow> bool" where
  "completes f w \<longleftrightarrow>
     (\<forall>t ks ws. tls_usable (conn t) \<longrightarrow> tls_writes t = map WriteOk ks @ ws \<longrightarrow> length w \<le> length ks \<longrightarrow>
        (\<exists>ks'. length ks - length w \<le> length ks' \<and>
           f t = Some (Inr (), t\<lparr>tls_out := tls_out t @ w, tls_writes := map WriteOk ks' @ ws\<rparr>)))"

lemma emitsD:
  assumes "emits f w" and "f t = Some (r, t')"
  obtains k where "k \<le> length w" "tls_out t' = tls_out t @ take k w" "r = Inr () \<Longrightarrow> k = length w"
  using assms unfolding emits_def by blast

lemma completesD:
  assumes "completes f w" "tls_usable (conn t)" "tls_writes t = map WriteOk ks @ ws" "length w \<le> length ks"
  obtains ks' where "length ks - length w \<le> length ks'"
    "f t = Some (Inr (), t\<lparr>tls_out := tls_out t @ w, tls_writes := map WriteOk ks' @ ws\<rparr>)"
  using assms unfolding completes_def by blast

lemma emits_fail [simp]: "emits (\<lambda>t. Some (Inl e, t)) w"
  unfolding emits_def by (auto intro: exI [of _ 0])

lemma emits_skip [simp]: "emits (\<lambda>t. Some (Inr (), t)) []"
  by (simp add: emits_def)

lemma completes_skip [simp]: "completes (\<lambda>t. Some (Inr (), t)) []"
  unfolding completes_def
proof (intro allI impI)
  fix t :: Tls and ks ws
  assume "tls_writes t = map WriteOk ks @ ws"
  then have "t = t\<lparr>tls_out := tls_out t @ [], tls_writes := map WriteOk ks @ ws\<rparr>" by simp
  then show "\<exists>ks'. length ks - length ([] :: bytes) \<le> length ks' \<and>
    Some (Inr (), t) = Some (Inr (), t\<lparr>tls_out := tls_out t @ [], tls_writes := map WriteOk ks' @ ws\<rparr>)"
    by (intro exI [of _ ks]) simp
qed

lemma emits_and_then:
  assumes f: "emits f w" and g: "emits g v"
  shows "emits (\<lambda>t. and_then (f t) g) (w @ v)"
  unfolding emits_def
proof (intro allI impI)
  fix t r t'
  assume run: "and_then (f t) g = Some (r, t')"
  then obtain q t1 where q: "f t = Some (q, t1)" by (cases "f t") auto
  from emitsD [OF f q] obtain k
    where k: "k \<le> length w" "tls_out t1 = tls_out t @ take k w" "q = Inr () \<Longrightarrow> k = length w" by blast
  show "\<exists>k\<le>length (w @ v). tls_out t' = tls_out t @ take k (w @ v) \<and> (r = Inr () \<longrightarrow> k = length (w @ v))"
  proof (cases q)
    case (Inl e)
    with run q k show ?thesis by (intro exI [of _ k]) auto
  next
    case (Inr u)
    with run q have "g t1 = Some (r, t')" by simp
    from emitsD [OF g this] obtain j
      where "j \<le> length v" "tls_out t' = tls_out t1 @ take j v" "r = Inr () \<Longrightarrow> j = length v" by blast
    then show ?thesis using k Inr by (intro exI [of _ "length w + j"]) auto
  qed
qed

lemma completes_and_then:
  assumes f: "completes f w" and g: "completes g v"
  shows "completes (\<lambda>t. and_then (f t) g) (w @ v)"
  unfolding completes_def
proof (intro allI impI)
  fix t :: Tls and ks ws
  assume t: "tls_usable (conn t)" "tls_writes t = map WriteOk ks @ ws" "length (w @ v) \<le> length ks"
  then have "length w \<le> length ks" by simp
  from completesD [OF f t(1,2) this] obtain ks1 where ks1: "length ks - length w \<le> length ks1"
    and ft: "f t = Some (Inr (), t\<lparr>tls_out := tls_out t @ w, tls_writes := map WriteOk ks1 @ ws\<rparr>)"
      (is "_ = Some (_, ?t1)") by blast
  have "tls_usable (conn ?t1)" "tls_writes ?t1 = map WriteOk ks1 @ ws" "length v \<le> length ks1"
    using t ks1 by auto
  from completesD [OF g this] obtain ks' where "length ks1 - length v \<le> length ks'"
    "g ?t1 = Some (Inr (), ?t1\<lparr>tls_out := tls_out ?t1 @ v, tls_writes := map WriteOk ks' @ ws\<rparr>)" by blast
  then show "\<exists>ks'. length ks - length (w @ v) \<le> length ks' \<and>
    and_then (f t) g = Some (Inr (), t\<lparr>tls_out := tls_out t @ w @ v, tls_writes := map WriteOk ks' @ ws\<rparr>)"
    using ks1 ft by (intro exI [of _ ks']) simp
qed

section \<open>The loops of common.c\<close>

lemma send_loop_completes:
  "length bs \<le> length ks \<Longrightarrow>
   \<exists>ks'. length ks - length bs \<le> length ks' \<and>
     send_loop (map WriteOk ks @ ws) t bs =
       Some (Inr (), t\<lparr>tls_out := tls_out t @ bs, tls_writes := map WriteOk ks' @ ws\<rparr>)"
proof (induction ks arbitrary: bs t)
  case Nil
  then show ?case by (intro exI [of _ "[]"]) simp
next
  case (Cons k ks)
  show ?case
  proof (cases bs)
    case Nil
    then show ?thesis by (intro exI [of _ "k # ks"]) simp
  next
    case (Cons b cs)
    let ?n = "tls_amount k (length bs)"
    let ?t1 = "t\<lparr>tls_out := tls_out t @ take ?n bs\<rparr>"
    have n: "0 < ?n" "?n \<le> length bs" using Cons by (simp_all add: tls_amount_def)
    then have "length (drop ?n bs) \<le> length ks" using Cons.prems by simp
    from Cons.IH [OF this, of ?t1] obtain ks' where
      "length ks - length (drop ?n bs) \<le> length ks'"
      "send_loop (map WriteOk ks @ ws) ?t1 (drop ?n bs) =
         Some (Inr (), t\<lparr>tls_out := tls_out t @ bs, tls_writes := map WriteOk ks' @ ws\<rparr>)" by auto
    then show ?thesis using n Cons by (intro exI [of _ ks']) (auto simp: Let_def)
  qed
qed

lemma send_parts_completes: "completes (\<lambda>t. send_parts t ps) (concat ps)"
proof (induction ps)
  case Nil
  then show ?case by simp
next
  case (Cons p ps)
  have "completes (\<lambda>t. sent (send_all t p)) p"
    unfolding completes_def
  proof (intro allI impI)
    fix t :: Tls and ks ws
    assume "tls_usable (conn t)" "tls_writes t = map WriteOk ks @ ws" "length p \<le> length ks"
    then show "\<exists>ks'. length ks - length p \<le> length ks' \<and>
      sent (send_all t p) = Some (Inr (), t\<lparr>tls_out := tls_out t @ p, tls_writes := map WriteOk ks' @ ws\<rparr>)"
      using send_loop_completes [of p ks ws t] by (auto simp: send_all_def sent_def tls_usable_def)
  qed
  moreover have "send_parts t (p # ps) = and_then (sent (send_all t p)) (\<lambda>t. send_parts t ps)" for t
    by (auto simp: sent_def and_then_def split: Option.bind_splits option.splits sum.splits)
  ultimately show ?case using completes_and_then [OF _ Cons.IH] by simp
qed

lemma sent_frame_emits:
  assumes "is_valid_frame_type type" "length payload < FRAME_MAX_SIZE"
  shows "emits (\<lambda>t. sent (send_frame t type payload)) (frame_bytes type payload)"
  unfolding emits_def
proof (intro allI impI)
  fix t r t'
  assume "sent (send_frame t type payload) = Some (r, t')"
  then obtain q where q: "send_frame t type payload = Some (q, t')" "r = map_sum id (\<lambda>_. ()) q"
    by (auto simp: sent_def)
  let ?w = "frame_bytes type payload"
  show "\<exists>k\<le>length ?w. tls_out t' = tls_out t @ take k ?w \<and> (r = Inr () \<longrightarrow> k = length ?w)"
  proof (cases q)
    case (Inl e)
    with send_frame_writes [OF q(1)] obtain k where "tls_out t' = tls_out t @ take k ?w" by auto
    with Inl q show ?thesis by (intro exI [of _ "min k (length ?w)"]) (simp add: min_def)
  next
    case (Inr n)
    with send_frame_writes [OF q(1)] show ?thesis by (intro exI [of _ "length ?w"]) auto
  qed
qed

lemma sent_frame_completes:
  assumes "is_valid_frame_type type" "length payload < FRAME_MAX_SIZE"
  shows "completes (\<lambda>t. sent (send_frame t type payload)) (frame_bytes type payload)"
proof -
  let ?ps = "[be32 (of_nat (1 + length payload)), [frame_byte type]] @ (if length payload \<noteq> 0 then [payload] else [])"
  have "map_sum id (\<lambda>_. ()) (map_sum id (\<lambda>_. n) q) = q" for n :: nat and q :: "unit result"
    by (cases q) auto
  then have "sent (send_frame t type payload) = send_parts t ?ps" for t
    using assms unfolding send_frame_def sent_def Let_def
    by (cases "send_parts t ?ps") (auto simp: const_simps simp del: send_parts.simps)
  moreover have "concat ?ps = frame_bytes type payload" by (simp add: frame_bytes_def)
  ultimately show ?thesis using send_parts_completes [of ?ps] by simp
qed

section \<open>What an action leaves of the connection\<close>

definition keeps_connection :: "action \<Rightarrow> bool" where
  "keeps_connection f \<longleftrightarrow> (\<forall>t r t'. f t = Some (r, t') \<longrightarrow> same_connection r t t')"

lemma keeps_connectionD: "keeps_connection f \<Longrightarrow> f t = Some (r, t') \<Longrightarrow> same_connection r t t'"
  by (simp add: keeps_connection_def)

lemma keeps_done: "keeps_connection (\<lambda>t. Some (r, t))"
  by (simp add: keeps_connection_def)

lemma keeps_sent: "keeps_connection (\<lambda>t. sent (send_frame t type payload))" "keeps_connection (\<lambda>t. sent (send_message t m))"
  by (auto simp: keeps_connection_def sent_def dest: send_frame_connection send_message_connection)

lemma keeps_and_then:
  assumes "keeps_connection f" "keeps_connection g"
  shows "keeps_connection (\<lambda>t. and_then (f t) g)"
  unfolding keeps_connection_def
proof (intro allI impI)
  fix t r t'
  assume run: "and_then (f t) g = Some (r, t')"
  show "same_connection r t t'"
  proof (cases "f t")
    case (Some p)
    obtain q t1 where p: "p = (q, t1)" by (cases p)
    have c: "same_connection q t t1" using keeps_connectionD [OF assms(1)] Some p by simp
    show ?thesis
    proof (cases q)
      case (Inr u)
      then have "conn t1 = conn t" using c by (simp add: same_connection_def)
      then show ?thesis using keeps_connectionD [OF assms(2), of t1 r t'] run Some p Inr same_connection_trans by auto
    qed (use run Some p c in \<open>simp add: same_connection_def\<close>)
  qed (use run in simp)
qed

end
