(* ===== verification/File_Sender.thy ===== *)
theory File_Sender
  imports File_Crypto Tls_Output
begin

text \<open>
  \<open>client_file_sender.c\<close>: a file is read whole, boxed for the recipient and sent as a
  FILE\_BEGIN frame, chunks of at most 900 bytes and a FILE\_END frame.

  What the operating system answers is data: \<open>fopen\<close> maps a path to an error or to a
  \<open>SourceFile\<close>, which holds the answers of the calls on the open file. The counter
  \<open>next_transfer_id\<close> is passed and returned. Diagnostics on the terminal are left out.
\<close>

section \<open>Operations\<close>

text \<open>
  \<open>sf_data\<close> is what reading the file to its end gives; \<open>sf_error\<close> tells that the end is a
  read error and not the end of the file. \<open>sf_fstat\<close> tells whether the file is regular,
  and its \<open>st_size\<close>.
\<close>

record SourceFile =
  sf_fileno :: "unit result"
  sf_fstat :: "(bool \<times> int) result"
  sf_data :: bytes
  sf_error :: bool
  sf_fclose :: "unit result"

record SenderOs =
  so_fopen :: "bytes \<Rightarrow> SourceFile result"
  so_malloc_plaintext :: bool
  so_malloc_encrypted :: bool
  so_randombytes :: bytes

text \<open>The counter is atomic and skips 0, which it passes when it wraps.\<close>

function create_transfer_id :: "u32 \<Rightarrow> u32 \<times> u32" where
  "create_transfer_id next_id = (if next_id = 0 then create_transfer_id (next_id + 1) else (next_id, next_id + 1))"
  by pat_completeness auto

termination
  by (relation "measure (\<lambda>n. if n = 0 then 1 else 0)") auto

declare create_transfer_id.simps [simp del]

definition get_regular_file_size :: "SourceFile \<Rightarrow> u64 result" where
  "get_regular_file_size file =
     (case sf_fileno file of
        Inl e \<Rightarrow> Inl e
      | Inr _ \<Rightarrow>
          case sf_fstat file of
            Inl e \<Rightarrow> Inl e
          | Inr (regular, st_size) \<Rightarrow>
              if \<not> regular \<or> st_size < 0 then Inl EINVAL else Inr (of_int st_size))"

fun strrchr :: "bytes \<Rightarrow> byte \<Rightarrow> nat option" where
  "strrchr [] c = None"
| "strrchr (b # bs) c =
     (case strrchr bs c of Some i \<Rightarrow> Some (Suc i) | None \<Rightarrow> if b = c then Some 0 else None)"

definition path_basename :: "bytes \<Rightarrow> bytes option" where
  "path_basename path =
     (if path = [] then None
      else case strrchr path (of_char (CHR ''/'')) of None \<Rightarrow> Some path | Some i \<Rightarrow> Some (drop (Suc i) path))"

definition send_file_begin :: "Tls \<Rightarrow> u32 \<Rightarrow> bytes \<Rightarrow> bytes \<Rightarrow> u64 \<Rightarrow> (unit result \<times> Tls) option" where
  "send_file_begin t transfer_id recipient filename file_size =
     (case file_protocol_encode_begin FILE_BEGIN_PAYLOAD_MAX_SIZE transfer_id file_size recipient filename of
        Inl e \<Rightarrow> Some (Inl e, t)
      | Inr payload \<Rightarrow> sent (send_frame t FRAME_FILE_BEGIN payload))"

definition send_file_chunk :: "Tls \<Rightarrow> u32 \<Rightarrow> bytes \<Rightarrow> (unit result \<times> Tls) option" where
  "send_file_chunk t transfer_id chunk =
     (case file_protocol_encode_chunk FILE_CHUNK_PAYLOAD_MAX_SIZE transfer_id chunk of
        Inl e \<Rightarrow> Some (Inl e, t)
      | Inr payload \<Rightarrow> sent (send_frame t FRAME_FILE_CHUNK payload))"

definition send_file_control :: "Tls \<Rightarrow> FrameType \<Rightarrow> u32 \<Rightarrow> (unit result \<times> Tls) option" where
  "send_file_control t type transfer_id =
     (if type \<noteq> FRAME_FILE_END \<and> type \<noteq> FRAME_FILE_ERROR then Some (Inl EINVAL, t)
      else case file_protocol_encode_control FILE_CONTROL_PAYLOAD_SIZE transfer_id of
             Inl e \<Rightarrow> Some (Inl e, t)
           | Inr payload \<Rightarrow> sent (send_frame t type payload))"

text \<open>The loop over the encrypted file; \<open>rest\<close> is what lies at and after \<open>offset\<close>.\<close>

function send_chunks :: "u32 \<Rightarrow> bytes \<Rightarrow> Tls \<Rightarrow> (unit result \<times> Tls) option" where
  "send_chunks transfer_id rest t =
     (if rest = [] then Some (Inr (), t)
      else let chunk_length = (if FILE_CHUNK_SIZE < length rest then FILE_CHUNK_SIZE else length rest)
           in and_then (send_file_chunk t transfer_id (take chunk_length rest))
                (send_chunks transfer_id (drop chunk_length rest)))"
  by pat_completeness auto

termination
  by (relation "measure (\<lambda>(transfer_id, rest, t). length rest)") (auto simp: const_simps)

declare send_chunks.simps [simp del]

definition send_encrypted :: "Tls \<Rightarrow> u32 \<Rightarrow> bytes \<Rightarrow> bytes \<Rightarrow> bytes \<Rightarrow> (unit result \<times> Tls) option" where
  "send_encrypted t transfer_id recipient filename encrypted =
     and_then (send_file_begin t transfer_id recipient filename (of_nat (length encrypted)))
       (\<lambda>t1. and_then (send_chunks transfer_id encrypted t1)
          (\<lambda>t2. send_file_control t2 FRAME_FILE_END transfer_id))"

text \<open>From the open file to the encrypted file: the part of \<open>send_file\<close> before the first send.\<close>

definition encrypt_file ::
  "Sodium \<Rightarrow> SenderOs \<Rightarrow> SourceFile \<Rightarrow> bytes \<Rightarrow> bytes \<Rightarrow> bytes \<Rightarrow> bytes \<Rightarrow> bytes result" where
  "encrypt_file so env file filename recipient_public_key sender_public_key sender_private_key =
     (case get_regular_file_size file of
        Inl e \<Rightarrow> Inl e
      | Inr file_size \<Rightarrow>
          if FILE_PLAINTEXT_MAX_SIZE < unat file_size then Inl EFBIG
          else if \<not> so_malloc_plaintext env \<or> \<not> so_malloc_encrypted env then Inl ENOMEM
          else let contents = take (unat file_size) (sf_data file)
               in if length contents \<noteq> unat file_size \<or> drop (unat file_size) (sf_data file) \<noteq> [] \<or> sf_error file
                  then Inl EIO
                  else case sf_fclose file of
                    Inl e \<Rightarrow> Inl e
                  | Inr _ \<Rightarrow>
                      case box_easy so (file_plaintext filename contents) (so_randombytes env)
                             recipient_public_key sender_private_key of
                        None \<Rightarrow> Inl EINVAL
                      | Some box \<Rightarrow> Inr (file_envelope sender_public_key (so_randombytes env) box))"

definition send_file ::
  "Sodium \<Rightarrow> SenderOs \<Rightarrow> u32 \<Rightarrow> Tls \<Rightarrow> bytes \<Rightarrow> bytes \<Rightarrow> bytes \<Rightarrow> bytes \<Rightarrow> bytes \<Rightarrow>
   (unit result \<times> Tls \<times> u32) option" where
  "send_file so env next_id t recipient path recipient_public_key sender_public_key sender_private_key =
     (case path_basename path of
        None \<Rightarrow> Some (Inl EINVAL, t, next_id)
      | Some filename \<Rightarrow>
          if \<not> file_protocol_valid_peer_name recipient \<or> \<not> file_protocol_valid_filename filename
          then Some (Inl EINVAL, t, next_id)
          else case so_fopen env path of
            Inl e \<Rightarrow> Some (Inl e, t, next_id)
          | Inr file \<Rightarrow>
              case encrypt_file so env file filename recipient_public_key sender_public_key sender_private_key of
                Inl e \<Rightarrow> Some (Inl e, t, next_id)
              | Inr encrypted \<Rightarrow>
                  let (transfer_id, next_id') = create_transfer_id next_id
                  in map_option (\<lambda>(r, t'). (r, t', next_id'))
                       (send_encrypted t transfer_id recipient filename encrypted))"


section \<open>The frames of a transfer\<close>

text \<open>The specification: the encrypted file cut into pieces of 900 bytes, between two control frames.\<close>

function file_chunks :: "bytes \<Rightarrow> bytes list" where
  "file_chunks bs = (if bs = [] then [] else take FILE_CHUNK_SIZE bs # file_chunks (drop FILE_CHUNK_SIZE bs))"
  by pat_completeness auto

termination
  by (relation "measure length") (auto simp: const_simps)

declare file_chunks.simps [simp del]

lemma file_chunks_Nil [simp]: "file_chunks [] = []"
  by (simp add: file_chunks.simps)

lemma concat_file_chunks [simp]: "concat (file_chunks bs) = bs"
  by (induction bs rule: file_chunks.induct) (subst file_chunks.simps, simp)

lemma file_chunks_sizes: "d \<in> set (file_chunks bs) \<Longrightarrow> 0 < length d \<and> length d \<le> FILE_CHUNK_SIZE"
proof (induction bs rule: file_chunks.induct)
  case (1 bs)
  then show ?case by (subst (asm) (2) file_chunks.simps) (auto simp: const_simps split: if_splits)
qed

definition begin_payload :: "u32 \<Rightarrow> u64 \<Rightarrow> bytes \<Rightarrow> bytes \<Rightarrow> bytes" where
  "begin_payload transfer_id file_size peer filename =
     write_u32 transfer_id @ write_u64 file_size @ write_u16 (of_nat (length peer)) @
     write_u16 (of_nat (length filename)) @ peer @ filename"

definition file_frames :: "u32 \<Rightarrow> bytes \<Rightarrow> bytes \<Rightarrow> bytes \<Rightarrow> (FrameType \<times> bytes) list" where
  "file_frames transfer_id peer filename encrypted =
     [(FRAME_FILE_BEGIN, begin_payload transfer_id (of_nat (length encrypted)) peer filename)] @
     map (\<lambda>d. (FRAME_FILE_CHUNK, write_u32 transfer_id @ d)) (file_chunks encrypted) @
     [(FRAME_FILE_END, write_u32 transfer_id)]"

definition wire :: "(FrameType \<times> bytes) list \<Rightarrow> bytes" where
  "wire fs = concat (map (\<lambda>(type, payload). frame_bytes type payload) fs)"

lemma encode_begin_payload:
  assumes "file_protocol_valid_peer_name peer" "file_protocol_valid_filename filename"
  shows "file_protocol_encode_begin FILE_BEGIN_PAYLOAD_MAX_SIZE i n peer filename = Inr (begin_payload i n peer filename)"
  using assms valid_name_lengths(1) [OF assms(1)] valid_name_lengths(2) [OF assms(2)]
  by (simp add: encode_begin_Inr begin_payload_def const_simps)

lemma length_begin_payload:
  assumes "file_protocol_valid_peer_name peer" "file_protocol_valid_filename filename"
  shows "length (begin_payload i n peer filename) < FRAME_MAX_SIZE"
  using valid_name_lengths(1) [OF assms(1)] valid_name_lengths(2) [OF assms(2)]
  by (simp add: begin_payload_def const_simps)

text \<open>Both judgements for the three kinds of frames, the loop and the whole transfer.\<close>

lemma send_file_begin_emits:
  assumes "file_protocol_valid_peer_name peer" "file_protocol_valid_filename filename"
  shows "emits (\<lambda>t. send_file_begin t i peer filename n) (frame_bytes FRAME_FILE_BEGIN (begin_payload i n peer filename))"
    and "completes (\<lambda>t. send_file_begin t i peer filename n) (frame_bytes FRAME_FILE_BEGIN (begin_payload i n peer filename))"
  by (simp_all add: send_file_begin_def encode_begin_payload assms length_begin_payload sent_frame_emits sent_frame_completes)

lemma send_file_chunk_emits:
  assumes "0 < length d" "length d \<le> FILE_CHUNK_SIZE"
  shows "emits (\<lambda>t. send_file_chunk t i d) (frame_bytes FRAME_FILE_CHUNK (write_u32 i @ d))"
    and "completes (\<lambda>t. send_file_chunk t i d) (frame_bytes FRAME_FILE_CHUNK (write_u32 i @ d))"
proof -
  have e: "file_protocol_encode_chunk FILE_CHUNK_PAYLOAD_MAX_SIZE i d = Inr (write_u32 i @ d)"
    using assms by (simp add: file_protocol_encode_chunk_def const_simps)
  have l: "length (write_u32 i @ d) < FRAME_MAX_SIZE" using assms by (simp add: const_simps)
  show "emits (\<lambda>t. send_file_chunk t i d) (frame_bytes FRAME_FILE_CHUNK (write_u32 i @ d))"
    and "completes (\<lambda>t. send_file_chunk t i d) (frame_bytes FRAME_FILE_CHUNK (write_u32 i @ d))"
    unfolding send_file_chunk_def e sum.case by (rule sent_frame_emits sent_frame_completes; use l in simp)+
qed

lemma send_file_control_emits:
  "emits (\<lambda>t. send_file_control t FRAME_FILE_END i) (frame_bytes FRAME_FILE_END (write_u32 i))"
  "completes (\<lambda>t. send_file_control t FRAME_FILE_END i) (frame_bytes FRAME_FILE_END (write_u32 i))"
  by (simp_all add: send_file_control_def file_protocol_encode_control_def const_simps sent_frame_emits sent_frame_completes)

lemma take_chunk: "take (if FILE_CHUNK_SIZE < length r then FILE_CHUNK_SIZE else length r) r = take FILE_CHUNK_SIZE r"
  by simp

lemma drop_chunk: "drop (if FILE_CHUNK_SIZE < length r then FILE_CHUNK_SIZE else length r) r = drop FILE_CHUNK_SIZE r"
  by simp

lemma send_chunks_step:
  "rest \<noteq> [] \<Longrightarrow> send_chunks i rest =
     (\<lambda>t. and_then (send_file_chunk t i (take FILE_CHUNK_SIZE rest)) (send_chunks i (drop FILE_CHUNK_SIZE rest)))"
  by (rule ext) (subst send_chunks.simps, simp only: Let_def take_chunk drop_chunk if_False)

lemma send_chunks_emits:
  "emits (send_chunks i rest) (wire (map (\<lambda>d. (FRAME_FILE_CHUNK, write_u32 i @ d)) (file_chunks rest))) \<and>
   completes (send_chunks i rest) (wire (map (\<lambda>d. (FRAME_FILE_CHUNK, write_u32 i @ d)) (file_chunks rest)))"
proof (induction rest rule: file_chunks.induct)
  case (1 rest)
  show ?case
  proof (cases "rest = []")
    case True
    then have "send_chunks i rest = (\<lambda>t. Some (Inr (), t))" by (auto simp: send_chunks.simps)
    with True show ?thesis by (simp add: wire_def)
  next
    case False
    let ?d = "take FILE_CHUNK_SIZE rest"
    have "0 < length ?d" "length ?d \<le> FILE_CHUNK_SIZE" using False by (auto simp: const_simps)
    note chunk = send_file_chunk_emits [OF this]
    have "file_chunks rest = ?d # file_chunks (drop FILE_CHUNK_SIZE rest)"
      using False by (simp add: file_chunks.simps [of rest])
    then have w: "wire (map (\<lambda>d. (FRAME_FILE_CHUNK, write_u32 i @ d)) (file_chunks rest)) =
      frame_bytes FRAME_FILE_CHUNK (write_u32 i @ ?d) @
      wire (map (\<lambda>d. (FRAME_FILE_CHUNK, write_u32 i @ d)) (file_chunks (drop FILE_CHUNK_SIZE rest)))"
      by (simp only: wire_def list.map concat.simps prod.case)
    show ?thesis
      unfolding w send_chunks_step [OF False] using 1 [OF False]
      by (intro conjI emits_and_then completes_and_then chunk) simp_all
  qed
qed

lemma send_file_parts_keep:
  "keeps_connection (\<lambda>t. send_file_begin t i peer name n)" "keeps_connection (\<lambda>t. send_file_chunk t i d)"
  "keeps_connection (\<lambda>t. send_file_control t type i)"
proof -
  show "keeps_connection (\<lambda>t. send_file_begin t i peer name n)"
    by (cases "file_protocol_encode_begin FILE_BEGIN_PAYLOAD_MAX_SIZE i n peer name")
       (simp_all add: send_file_begin_def keeps_done keeps_sent)
  show "keeps_connection (\<lambda>t. send_file_chunk t i d)"
    by (cases "file_protocol_encode_chunk FILE_CHUNK_PAYLOAD_MAX_SIZE i d") (simp_all add: send_file_chunk_def keeps_done keeps_sent)
  show "keeps_connection (\<lambda>t. send_file_control t type i)"
    by (cases "file_protocol_encode_control FILE_CONTROL_PAYLOAD_SIZE i"; cases "type \<noteq> FRAME_FILE_END \<and> type \<noteq> FRAME_FILE_ERROR")
       (auto simp: send_file_control_def keeps_done keeps_sent)
qed

lemma send_chunks_keep: "keeps_connection (send_chunks i rest)"
proof (induction rest rule: file_chunks.induct)
  case (1 rest)
  show ?case
  proof (cases "rest = []")
    case True
    then have "send_chunks i rest = (\<lambda>t. Some (Inr (), t))" by (auto simp: send_chunks.simps)
    then show ?thesis by (simp add: keeps_done)
  next
    case False
    show ?thesis unfolding send_chunks_step [OF False] by (intro keeps_and_then send_file_parts_keep 1 [OF False])
  qed
qed

lemma send_file_connection:
  assumes "send_file so env n t peer path rpk spk ssk = Some (r, t', n')"
  shows "same_connection r t t'"
proof -
  have "keeps_connection (\<lambda>t. send_encrypted t i peer name enc)" for i name enc
    unfolding send_encrypted_def by (intro keeps_and_then send_file_parts_keep send_chunks_keep)
  from keeps_connectionD [OF this] assms show ?thesis
    by (fastforce simp: send_file_def split: option.splits if_splits sum.splits prod.splits)
qed

lemma send_encrypted_emits:
  assumes "file_protocol_valid_peer_name peer" "file_protocol_valid_filename filename"
  shows "emits (\<lambda>t. send_encrypted t i peer filename encrypted) (wire (file_frames i peer filename encrypted))"
    and "completes (\<lambda>t. send_encrypted t i peer filename encrypted) (wire (file_frames i peer filename encrypted))"
proof -
  have w: "wire (file_frames i peer filename encrypted) =
      frame_bytes FRAME_FILE_BEGIN (begin_payload i (of_nat (length encrypted)) peer filename) @
      wire (map (\<lambda>d. (FRAME_FILE_CHUNK, write_u32 i @ d)) (file_chunks encrypted)) @
      frame_bytes FRAME_FILE_END (write_u32 i)"
    by (simp add: file_frames_def wire_def)
  note parts = send_file_begin_emits [OF assms] send_chunks_emits [THEN conjunct1] send_chunks_emits [THEN conjunct2]
    send_file_control_emits
  show "emits (\<lambda>t. send_encrypted t i peer filename encrypted) (wire (file_frames i peer filename encrypted))"
    and "completes (\<lambda>t. send_encrypted t i peer filename encrypted) (wire (file_frames i peer filename encrypted))"
    unfolding send_encrypted_def w by (intro emits_and_then completes_and_then parts)+
qed

section \<open>Transfer numbers and file names\<close>

lemma create_transfer_id_eq:
  "create_transfer_id n = (if n = 0 then (1, 2) else (n, n + 1))"
  by (simp add: create_transfer_id.simps [of n] create_transfer_id.simps [of 1])

lemma create_transfer_id_nonzero: "fst (create_transfer_id n) \<noteq> 0"
  by (simp add: create_transfer_id_eq)

lemma strrchr_None: "strrchr s c = None \<longleftrightarrow> c \<notin> set s"
  by (induction s) (auto split: option.splits)

lemma strrchr_Some: "strrchr s c = Some i \<longleftrightarrow> (\<exists>p q. s = p @ c # q \<and> length p = i \<and> c \<notin> set q)"
proof (induction s arbitrary: i)
  case Nil
  then show ?case by simp
next
  case (Cons b s)
  show ?case
  proof (cases "strrchr s c")
    case None
    then have "c \<notin> set s" by (simp add: strrchr_None)
    then show ?thesis using None by (auto simp: Cons_eq_append_conv)
  next
    case (Some j)
    then obtain p q where pq: "s = p @ c # q" "length p = j" "c \<notin> set q" using Cons.IH by blast
    have only: "Suc j = i" if "b # s = p' @ c # q'" "length p' = i" "c \<notin> set q'" for p' q'
    proof -
      from that pq have "(b # p) @ c # q = p' @ c # q'" by simp
      then have "takeWhile (\<lambda>x. x \<noteq> c) (rev ((b # p) @ c # q)) = takeWhile (\<lambda>x. x \<noteq> c) (rev (p' @ c # q'))"
        by (rule arg_cong)
      moreover have "takeWhile (\<lambda>x. x \<noteq> c) (rev (u @ c # v)) = rev v" if "c \<notin> set v" for u v
        using that by (auto simp: takeWhile_tail takeWhile_eq_all_conv)
      ultimately have "q = q'" using that(3) pq(3) by (metis rev_rev_ident)
      then show ?thesis using pq that by auto
    qed
    show ?thesis
    proof
      assume "strrchr (b # s) c = Some i"
      then show "\<exists>p q. b # s = p @ c # q \<and> length p = i \<and> c \<notin> set q"
        using Some pq by (intro exI [of _ "b # p"] exI [of _ q]) simp
    next
      assume "\<exists>p q. b # s = p @ c # q \<and> length p = i \<and> c \<notin> set q"
      then show "strrchr (b # s) c = Some i" using Some only by auto
    qed
  qed
qed

lemma path_basename_Some:
  "path_basename path = Some name \<Longrightarrow>
   (path = name \<or> (\<exists>dir. path = dir @ of_char (CHR ''/'') # name)) \<and> of_char (CHR ''/'') \<notin> set name"
  by (auto simp: path_basename_def strrchr_None strrchr_Some split: if_splits option.splits)

section \<open>Encryption before sending\<close>

lemma encrypt_file_Inr:
  assumes "encrypt_file so env file filename rpk spk ssk = Inr encrypted"
  shows "\<exists>box. box_easy so (file_plaintext filename (sf_data file)) (so_randombytes env) rpk ssk = Some box \<and>
    encrypted = file_envelope spk (so_randombytes env) box \<and> length (sf_data file) \<le> FILE_PLAINTEXT_MAX_SIZE \<and>
    \<not> sf_error file"
  using assms by (auto simp: encrypt_file_def Let_def split: sum.splits if_splits option.splits)


lemma send_file_writes:
  assumes "send_file so env n t peer path rpk spk ssk = Some (r, t', n')"
  shows "\<exists>w k. tls_out t' = tls_out t @ take k w \<and> (r = Inr () \<longrightarrow> k = length w) \<and>
    (w = [] \<and> r \<noteq> Inr () \<or>
     (\<exists>file name box. path_basename path = Some name \<and> so_fopen env path = Inr file \<and>
        length (sf_data file) \<le> FILE_PLAINTEXT_MAX_SIZE \<and>
        box_easy so (file_plaintext name (sf_data file)) (so_randombytes env) rpk ssk = Some box \<and>
        w = wire (file_frames (fst (create_transfer_id n)) peer name (file_envelope spk (so_randombytes env) box))))"
proof -
  have early: ?thesis if "t' = t" "r \<noteq> Inr ()"
    using that by (intro exI [of _ "[]"]) simp
  show ?thesis
  proof (cases "path_basename path")
    case None
    then show ?thesis using assms early by (auto simp: send_file_def)
  next
    case (Some name)
    show ?thesis
    proof (cases "file_protocol_valid_peer_name peer \<and> file_protocol_valid_filename name")
      case False
      then show ?thesis using assms early Some by (auto simp: send_file_def)
    next
      case names: True
      show ?thesis
      proof (cases "\<exists>file enc. so_fopen env path = Inr file \<and> encrypt_file so env file name rpk spk ssk = Inr enc")
        case False
        then show ?thesis using assms early Some names
          by (auto simp: send_file_def split: sum.splits)
      next
        case True
        then obtain src enc where f: "so_fopen env path = Inr src"
          "encrypt_file so env src name rpk spk ssk = Inr enc" by blast
        with assms Some names have
          "send_encrypted t (fst (create_transfer_id n)) peer name enc = Some (r, t')"
          by (auto simp: send_file_def case_prod_beta)
        from emitsD [OF send_encrypted_emits(1) this] names obtain k where
          "tls_out t' = tls_out t @ take k (wire (file_frames (fst (create_transfer_id n)) peer name enc))"
          "r = Inr () \<Longrightarrow> k = length (wire (file_frames (fst (create_transfer_id n)) peer name enc))" by blast
        then show ?thesis using encrypt_file_Inr [OF f(2)] f(1) Some by blast
      qed
    qed
  qed
qed

section \<open>Properties\<close>

text \<open>
  C10. Whatever \<open>send_file\<close> puts on the wire is a prefix of one transfer: a FILE\_BEGIN frame,
  the encrypted file in chunks, a FILE\_END frame, all under one non-zero number. The
  encrypted file boxes the file name and the complete contents of the file for the
  recipient's key, and is at most 16 MiB; a call that succeeds has sent all of it, and a
  call that fails before that has sent nothing else. No byte of the file goes out in clear.
\<close>

theorem send_file_stream:
  assumes "send_file so env n t peer path rpk spk ssk = Some (r, t', n')"
  shows "\<exists>w k. tls_out t' = tls_out t @ take k w \<and> (r = Inr () \<longrightarrow> k = length w) \<and>
    (w = [] \<and> r \<noteq> Inr () \<or>
     (\<exists>file name box. path_basename path = Some name \<and> so_fopen env path = Inr file \<and>
        length (sf_data file) \<le> FILE_PLAINTEXT_MAX_SIZE \<and>
        box_easy so (file_plaintext name (sf_data file)) (so_randombytes env) rpk ssk = Some box \<and>
        w = wire (file_frames (fst (create_transfer_id n)) peer name (file_envelope spk (so_randombytes env) box))))"
  by (rule send_file_writes [OF assms])

definition readable_file :: "SourceFile \<Rightarrow> bool" where
  "readable_file file \<longleftrightarrow> sf_fileno file = Inr () \<and> sf_fstat file = Inr (True, int (length (sf_data file))) \<and>
     length (sf_data file) \<le> FILE_PLAINTEXT_MAX_SIZE \<and> \<not> sf_error file \<and> sf_fclose file = Inr ()"

lemma encrypt_readable:
  assumes "readable_file file" "so_malloc_plaintext env" "so_malloc_encrypted env"
    and "box_easy so (file_plaintext name (sf_data file)) (so_randombytes env) rpk ssk = Some box"
  shows "encrypt_file so env file name rpk spk ssk = Inr (file_envelope spk (so_randombytes env) box)"
proof -
  have "unat (of_nat (length (sf_data file)) :: u64) = length (sf_data file)"
    using assms(1) by (simp add: readable_file_def const_simps unat_of_nat)
  then show ?thesis using assms by (simp add: encrypt_file_def get_regular_file_size_def readable_file_def Let_def)
qed

text \<open>
  C26. \<open>send_file\<close> does send: for valid names, a regular file of at most 16 MiB that can be
  read, allocations and a box that succeed, and a connection that takes every write, it
  returns success with the whole transfer on the wire, however the writes are cut.
\<close>

theorem send_file_completes:
  assumes "path_basename path = Some name" and "file_protocol_valid_peer_name peer"
    and "file_protocol_valid_filename name" and "so_fopen env path = Inr file" and "readable_file file"
    and "so_malloc_plaintext env" and "so_malloc_encrypted env"
    and "box_easy so (file_plaintext name (sf_data file)) (so_randombytes env) rpk ssk = Some box"
    and "w = wire (file_frames (fst (create_transfer_id n)) peer name (file_envelope spk (so_randombytes env) box))"
    and "tls_usable (conn t)" and "tls_writes t = map WriteOk ks" and "length w \<le> length ks"
  shows "\<exists>t'. send_file so env n t peer path rpk spk ssk = Some (Inr (), t', snd (create_transfer_id n)) \<and>
    tls_out t' = tls_out t @ w"
proof -
  have ks: "tls_writes t = map WriteOk ks @ []" using assms(11) by simp
  have fit: "length (wire (file_frames (fst (create_transfer_id n)) peer name
      (file_envelope spk (so_randombytes env) box))) \<le> length ks" using assms(9,12) by simp
  from completesD [OF send_encrypted_emits(2) [OF assms(2,3)] assms(10) ks fit] obtain ks' where
    "send_encrypted t (fst (create_transfer_id n)) peer name (file_envelope spk (so_randombytes env) box) =
      Some (Inr (), t\<lparr>tls_out := tls_out t @ w, tls_writes := map WriteOk ks' @ []\<rparr>)"
    using assms(9) by blast
  then show ?thesis
    using assms(1-4) encrypt_readable [OF assms(5-8)] by (simp add: send_file_def case_prod_beta)
qed

definition example_source :: SourceFile where
  "example_source = \<lparr>sf_fileno = Inr (), sf_fstat = Inr (True, 3), sf_data = [1, 2, 3], sf_error = False, sf_fclose = Inr ()\<rparr>"

definition example_sender_os :: SenderOs where
  "example_sender_os = \<lparr>so_fopen = (\<lambda>path. Inr example_source), so_malloc_plaintext = True, so_malloc_encrypted = True,
     so_randombytes = replicate 24 5\<rparr>"

definition example_box :: bytes where
  "example_box = replicate 16 7 @ map (\<lambda>b. b XOR 90) (file_plaintext (str ''b.txt'') [1, 2, 3])"

lemma example_box_easy:
  "box_easy example_sodium (file_plaintext (str ''b.txt'') (sf_data example_source)) (so_randombytes example_sender_os) rpk ssk =
     Some example_box"
  by (simp add: example_sodium_def example_box_def example_source_def)

lemma example_sender_names:
  "path_basename (str ''a/b.txt'') = Some (str ''b.txt'')"
  "file_protocol_valid_peer_name (str ''bob'')" "file_protocol_valid_filename (str ''b.txt'')"
  by (simp_all add: path_basename_def file_protocol_valid_peer_name_def file_protocol_valid_filename_def isspace_def
      iscntrl_def const_simps)

lemma example_chunks:
  "file_chunks (file_envelope (replicate 32 2) (so_randombytes example_sender_os) example_box) =
     [file_envelope (replicate 32 2) (so_randombytes example_sender_os) example_box]"
  (is "file_chunks ?e = _")
proof -
  have l: "length ?e = 98" by (simp add: example_box_def example_sender_os_def)
  then have "drop 900 ?e = []" "take 900 ?e = ?e" by simp_all
  moreover have "?e \<noteq> []" using l by (metis list.size(3) zero_neq_numeral)
  ultimately show ?thesis by (simp add: file_chunks.simps [of ?e] FILE_CHUNK_SIZE_def)
qed

lemma example_wire_length:
  "length (wire (file_frames 1 (str ''bob'') (str ''b.txt'')
     (file_envelope (replicate 32 2) (so_randombytes example_sender_os) example_box))) \<le> 300"
  by (simp add: wire_def file_frames_def frame_bytes_def begin_payload_def example_chunks,
      simp add: example_box_def example_sender_os_def)

definition example_sender_tls :: Tls where
  "example_sender_tls = example_tls\<lparr>tls_writes := map WriteOk (replicate 300 0)\<rparr>"

lemma example_sender_tls_simps:
  "tls_usable (conn example_sender_tls)" "tls_writes example_sender_tls = map WriteOk (replicate 300 0)"
  "tls_out example_sender_tls = []"
  by (simp_all add: example_sender_tls_def tls_usable_def connection_unusable_def example_tls_def)

lemma example_sender_os_simps:
  "so_fopen example_sender_os p = Inr example_source" "so_malloc_plaintext example_sender_os"
  "so_malloc_encrypted example_sender_os" "readable_file example_source"
  by (simp_all add: example_sender_os_def readable_file_def example_source_def const_simps)

lemma example_send_file:
  "\<exists>t'. send_file example_sodium example_sender_os 1 example_sender_tls (str ''bob'') (str ''a/b.txt'')
     (replicate 32 1) (replicate 32 2) (replicate 32 3) = Some (Inr (), t', 2)"
proof -
  let ?enc = "file_envelope (replicate 32 2) (so_randombytes example_sender_os) example_box"
  have ws: "tls_writes example_sender_tls = map WriteOk (replicate 300 0) @ []"
    and fit: "length (wire (file_frames 1 (str ''bob'') (str ''b.txt'') ?enc)) \<le> length (replicate 300 (0::nat))"
    using example_wire_length by (simp_all add: example_sender_tls_simps)
  from completesD [OF send_encrypted_emits(2) [OF example_sender_names(2,3)] example_sender_tls_simps(1) ws fit]
  obtain t' where "send_encrypted example_sender_tls 1 (str ''bob'') (str ''b.txt'') ?enc = Some (Inr (), t')" by blast
  moreover have "encrypt_file example_sodium example_sender_os example_source (str ''b.txt'') (replicate 32 1)
      (replicate 32 2) (replicate 32 3) = Inr ?enc"
    by (rule encrypt_readable [OF example_sender_os_simps(4,2,3) example_box_easy])
  ultimately show ?thesis
    unfolding send_file_def example_sender_names(1) option.case example_sender_os_simps(1) create_transfer_id_eq
    by (simp add: example_sender_names del: str_Cons)
qed

theorem send_file_stream_witness:
  "\<exists>t'. send_file example_sodium example_sender_os 1 example_sender_tls (str ''bob'') (str ''a/b.txt'')
     (replicate 32 1) (replicate 32 2) (replicate 32 3) = Some (Inr (), t', 2) \<and>
     (\<exists>name box. path_basename (str ''a/b.txt'') = Some name \<and>
        tls_out t' = wire (file_frames (fst (create_transfer_id 1)) (str ''bob'') name
              (file_envelope (replicate 32 2) (so_randombytes example_sender_os) box)))"
proof -
  obtain t' where t': "send_file example_sodium example_sender_os 1 example_sender_tls (str ''bob'') (str ''a/b.txt'')
     (replicate 32 1) (replicate 32 2) (replicate 32 3) = Some (Inr (), t', 2)"
    using example_send_file by blast
  obtain w k where w: "tls_out t' = tls_out example_sender_tls @ take k w" "k = length w"
    "\<exists>name box. path_basename (str ''a/b.txt'') = Some name \<and>
       w = wire (file_frames (fst (create_transfer_id 1)) (str ''bob'') name
              (file_envelope (replicate 32 2) (so_randombytes example_sender_os) box))"
    using send_file_stream [OF t'] by blast
  then show ?thesis unfolding example_sender_tls_simps(3) using t' by (intro exI [of _ t']) simp
qed

theorem send_file_completes_witness:
  "\<exists>t'. send_file example_sodium example_sender_os 1 example_sender_tls (str ''bob'') (str ''a/b.txt'')
     (replicate 32 1) (replicate 32 2) (replicate 32 3) = Some (Inr (), t', snd (create_transfer_id 1))"
proof -
  have n: "fst (create_transfer_id 1) = 1" by (simp add: create_transfer_id_eq)
  have len: "length (wire (file_frames (fst (create_transfer_id 1)) (str ''bob'') (str ''b.txt'')
     (file_envelope (replicate 32 2) (so_randombytes example_sender_os) example_box))) \<le> length (replicate 300 (0::nat))"
    unfolding n using example_wire_length by simp
  show ?thesis
    using send_file_completes [OF example_sender_names example_sender_os_simps(1,4,2,3) example_box_easy refl
        example_sender_tls_simps(1,2) len] by blast
qed

end
