(* ===== verification/File_System.thy ===== *)
theory File_System
  imports Prelude
begin

text \<open>
  The file system calls of \<open>client_file_receiver.c\<close>. A file system maps names to nodes and
  nodes to contents, so that \<open>link\<close> gives a node a second name and an open stream keeps its
  node whatever happens to the name. A \<open>Disk\<close> holds, for one run of a handler, how every
  call that can fail does end; the calls below combine that answer with the state, as
  documented: creating a name that exists gives \<open>EEXIST\<close>, looking up one that does not
  gives \<open>ENOENT\<close>. Streams are unbuffered here; nothing reads the file through its name
  before \<open>fclose\<close>.
\<close>

section \<open>State and answers\<close>

datatype node = Regular bytes | Directory | OtherNode

record Fs =
  names :: "bytes \<Rightarrow> nat option"
  nodes :: "nat \<Rightarrow> node"
  next_node :: nat

text \<open>
  Options are errors when present; a Boolean is True when the call works. A failing
  \<open>mkstemp\<close> has already filled in some suffix. A short write reports how much it wrote
  and the \<open>errno\<close> it left, if any.
\<close>

record Disk =
  dk_pid :: u32
  dk_mkdir :: "errno option"
  dk_stat :: "bool result"
  dk_lstat :: "errno option"
  dk_mkstemp :: "(errno \<times> nat) + nat"
  dk_fdopen :: "errno option"
  dk_append :: "(nat \<times> errno option) option"
  dk_malloc :: bool
  dk_rewind :: "errno option"
  dk_fread :: bool
  dk_rewind2 :: "errno option"
  dk_rewrite :: "nat option"
  dk_fflush :: "errno option"
  dk_ftruncate :: "errno option"
  dk_fclose :: "errno option option"
  dk_link :: "errno option"
  dk_unlink :: bool

section \<open>Calls\<close>

definition create_node :: "bytes \<Rightarrow> node \<Rightarrow> Fs \<Rightarrow> Fs" where
  "create_node path n f =
     f\<lparr>names := (names f)(path \<mapsto> next_node f), nodes := (nodes f)(next_node f := n), next_node := Suc (next_node f)\<rparr>"

definition mkdir :: "Disk \<Rightarrow> bytes \<Rightarrow> Fs \<Rightarrow> unit result \<times> Fs" where
  "mkdir d path f =
     (case dk_mkdir d of
        Some e \<Rightarrow> (Inl e, f)
      | None \<Rightarrow> if names f path \<noteq> None then (Inl EEXIST, f) else (Inr (), create_node path Directory f))"

definition lstat :: "Disk \<Rightarrow> bytes \<Rightarrow> Fs \<Rightarrow> unit result" where
  "lstat d path f =
     (case dk_lstat d of Some e \<Rightarrow> Inl e | None \<Rightarrow> if names f path \<noteq> None then Inr () else Inl ENOENT)"

text \<open>\<open>mkstemp\<close> replaces the last six characters of the template by letters and digits.\<close>

definition suffix_letters :: bytes where
  "suffix_letters = str ''abcdefghijklmnopqrstuvwxyzABCDEFGHIJKLMNOPQRSTUVWXYZ0123456789''"

definition mkstemp_suffix :: "nat \<Rightarrow> bytes" where
  "mkstemp_suffix n = map (\<lambda>k. suffix_letters ! (n div 62 ^ k mod 62)) [0..<6]"

definition mkstemp_path :: "bytes \<Rightarrow> nat \<Rightarrow> bytes" where
  "mkstemp_path template n = take (length template - 6) template @ mkstemp_suffix n"

definition mkstemp :: "Disk \<Rightarrow> bytes \<Rightarrow> Fs \<Rightarrow> nat result \<times> bytes \<times> Fs" where
  "mkstemp d template f =
     (case dk_mkstemp d of
        Inl (e, n) \<Rightarrow> (Inl e, mkstemp_path template n, f)
      | Inr n \<Rightarrow>
          let path = mkstemp_path template n
          in if names f path \<noteq> None then (Inl EEXIST, path, f)
             else (Inr (next_node f), path, create_node path (Regular []) f))"

definition unlink :: "Disk \<Rightarrow> bytes \<Rightarrow> Fs \<Rightarrow> Fs" where
  "unlink d path f = (if dk_unlink d then f\<lparr>names := (names f)(path := None)\<rparr> else f)"

definition link :: "Disk \<Rightarrow> bytes \<Rightarrow> bytes \<Rightarrow> Fs \<Rightarrow> unit result \<times> Fs" where
  "link d old new f =
     (case dk_link d of
        Some e \<Rightarrow> (Inl e, f)
      | None \<Rightarrow>
          case names f old of
            None \<Rightarrow> (Inl ENOENT, f)
          | Some i \<Rightarrow> if names f new \<noteq> None then (Inl EEXIST, f)
                      else (Inr (), f\<lparr>names := (names f)(new \<mapsto> i)\<rparr>))"

text \<open>Contents of a node, as a stream opened on it sees them.\<close>

definition contents :: "Fs \<Rightarrow> nat \<Rightarrow> bytes" where
  "contents f i = (case nodes f i of Regular c \<Rightarrow> c | _ \<Rightarrow> [])"

definition set_contents :: "nat \<Rightarrow> bytes \<Rightarrow> Fs \<Rightarrow> Fs" where
  "set_contents i c f = f\<lparr>nodes := (nodes f)(i := Regular c)\<rparr>"

definition truncated :: "nat \<Rightarrow> bytes \<Rightarrow> bytes" where
  "truncated n c = take n c @ replicate (n - length c) 0"

section \<open>Lemmas\<close>

lemma Fs_simps [simp]:
  "names (create_node p n f) = (names f)(p \<mapsto> next_node f)"
  "nodes (create_node p n f) = (nodes f)(next_node f := n)"
  "next_node (create_node p n f) = Suc (next_node f)"
  "names (set_contents i c f) = names f" "nodes (set_contents i c f) = (nodes f)(i := Regular c)"
  "next_node (set_contents i c f) = next_node f"
  "names (unlink d p f) = (if dk_unlink d then (names f)(p := None) else names f)"
  "nodes (unlink d p f) = nodes f" "next_node (unlink d p f) = next_node f"
  by (simp_all add: create_node_def set_contents_def unlink_def)

lemma contents_simps [simp]:
  "contents (set_contents i c f) j = (if j = i then c else contents f j)"
  "contents (unlink d p f) = contents f"
  "contents (create_node p n f) j =
     (if j = next_node f then (case n of Regular c \<Rightarrow> c | _ \<Rightarrow> []) else contents f j)"
  by (auto simp: contents_def fun_eq_iff)

lemma set_contents_twice [simp]: "set_contents i c (set_contents i b f) = set_contents i c f"
  by (simp add: set_contents_def)

lemma contents_Regular: "nodes f i = Regular c \<Longrightarrow> contents f i = c"
  by (simp add: contents_def)

lemma length_suffix_letters: "length suffix_letters = 62"
  by (simp add: suffix_letters_def)

lemma set_mkstemp_suffix: "set (mkstemp_suffix n) \<subseteq> set suffix_letters"
  by (auto simp: mkstemp_suffix_def length_suffix_letters)

lemma length_mkstemp_suffix [simp]: "length (mkstemp_suffix n) = 6"
  by (simp add: mkstemp_suffix_def)

text \<open>\<open>fresh_nodes\<close>: every name leads to a node that has been created.\<close>

definition fresh_nodes :: "Fs \<Rightarrow> bool" where
  "fresh_nodes f \<longleftrightarrow> (\<forall>p i. names f p = Some i \<longrightarrow> i < next_node f)"

lemma fresh_nodesD: "fresh_nodes f \<Longrightarrow> names f p = Some i \<Longrightarrow> i < next_node f"
  by (auto simp: fresh_nodes_def)

lemma fresh_nodes_create: "fresh_nodes f \<Longrightarrow> fresh_nodes (create_node p n f)"
  by (auto simp: fresh_nodes_def intro: less_SucI)

lemma fresh_nodes_unlink: "fresh_nodes f \<Longrightarrow> fresh_nodes (unlink d p f)"
  by (auto simp: fresh_nodes_def)

lemma fresh_nodes_contents: "fresh_nodes f \<Longrightarrow> fresh_nodes (set_contents i c f)"
  by (auto simp: fresh_nodes_def)

lemmas fresh_nodes_intros = fresh_nodes_create fresh_nodes_unlink fresh_nodes_contents

end
