(* ===== verification/File_Receiver.thy ===== *)
theory File_Receiver
  imports File_Crypto File_System Slot_Table
begin

text \<open>
  \<open>client_file_receiver.c\<close>: the table of incoming files. A transfer is staged as ciphertext
  under a hidden name in the download directory; its last frame makes the client open the
  box, replace the staged bytes by the plaintext and link the file under its final name.

  \<open>Receiver\<close> is the static table together with the file system. The answers of the system
  calls (\<open>Disk\<close>) and of libsodium (\<open>Sodium\<close>) are parameters of the handlers; messages on the
  terminal are left out. A stream is the node it is open on.
\<close>

section \<open>State\<close>

record IncomingFile =
  if_active :: bool
  if_transfer_id :: u32
  if_expected_size :: u64
  if_received_size :: u64
  if_sender :: bytes
  if_filename :: bytes
  if_file :: "nat option"
  if_temp_path :: bytes
  if_final_path :: bytes

record Receiver =
  incoming_files :: "IncomingFile list"
  fs :: Fs

definition zero_incoming :: IncomingFile where
  "zero_incoming = \<lparr>if_active = False, if_transfer_id = 0, if_expected_size = 0, if_received_size = 0, if_sender = [],
     if_filename = [], if_file = None, if_temp_path = [], if_final_path = []\<rparr>"

definition static_receiver :: "Fs \<Rightarrow> Receiver" where
  "static_receiver f = \<lparr>incoming_files = replicate MAX_INCOMING_FILES zero_incoming, fs = f\<rparr>"

abbreviation slot :: "Receiver \<Rightarrow> nat \<Rightarrow> IncomingFile" where
  "slot s i \<equiv> incoming_files s ! i"

abbreviation set_slot :: "Receiver \<Rightarrow> nat \<Rightarrow> IncomingFile \<Rightarrow> Receiver" where
  "set_slot s i e \<equiv> s\<lparr>incoming_files := (incoming_files s)[i := e]\<rparr>"

section \<open>Operations\<close>

definition find_incoming_file :: "Receiver \<Rightarrow> u32 \<Rightarrow> nat option" where
  "find_incoming_file s transfer_id =
     find_slot (\<lambda>e. if_active e \<and> if_transfer_id e = transfer_id) (incoming_files s)"

definition create_incoming_file :: "Receiver \<Rightarrow> u32 \<Rightarrow> nat result \<times> Receiver" where
  "create_incoming_file s transfer_id =
     (if find_incoming_file s transfer_id \<noteq> None then (Inl EEXIST, s)
      else case find_slot (\<lambda>e. \<not> if_active e) (incoming_files s) of
             Some i \<Rightarrow> (Inr i, set_slot s i (zero_incoming\<lparr>if_active := True, if_transfer_id := transfer_id\<rparr>))
           | None \<Rightarrow> (Inl ENOSPC, s))"

definition discard_incoming_file :: "Disk \<Rightarrow> nat \<Rightarrow> Receiver \<Rightarrow> Receiver" where
  "discard_incoming_file d i s =
     (let s1 = (if if_temp_path (slot s i) \<noteq> [] then s\<lparr>fs := unlink d (if_temp_path (slot s i)) (fs s)\<rparr> else s)
      in set_slot s1 i zero_incoming)"

text \<open>The loop of \<open>cleanup_incoming_files\<close> over the slots; each call has its own answers.\<close>

definition cleanup_incoming_files :: "(nat \<Rightarrow> Disk) \<Rightarrow> Receiver \<Rightarrow> Receiver" where
  "cleanup_incoming_files d s =
     fold (\<lambda>i s. if if_active (slot s i) then discard_incoming_file (d i) i s else s) [0..<MAX_INCOMING_FILES] s"

definition ensure_download_directory :: "Disk \<Rightarrow> bytes \<Rightarrow> Fs \<Rightarrow> unit result \<times> Fs" where
  "ensure_download_directory d directory f =
     (if directory = [] then (Inl EINVAL, f)
      else case mkdir d directory f of
             (Inr _, f1) \<Rightarrow> (Inr (), f1)
           | (Inl e, f1) \<Rightarrow>
               if e \<noteq> EEXIST then (Inl e, f1)
               else case dk_stat d of
                      Inl e \<Rightarrow> (Inl e, f1)
                    | Inr is_directory \<Rightarrow> if is_directory then (Inr (), f1) else (Inl ENOTDIR, f1))"

definition build_path :: "nat \<Rightarrow> bytes \<Rightarrow> bytes \<Rightarrow> bytes result" where
  "build_path destination_size directory filename =
     (let (written, destination) = snprintf destination_size (format (str ''%s/%s'') [directory, filename])
      in if destination_size \<le> written then Inl ENAMETOOLONG else Inr destination)"

definition temp_template :: "Disk \<Rightarrow> bytes \<Rightarrow> u32 \<Rightarrow> bytes" where
  "temp_template d directory transfer_id =
     format (str ''%s/.cipher-chat-%s-%s-XXXXXX'') [directory, decimal (unat (dk_pid d)), decimal (unat transfer_id)]"

text \<open>The part of \<open>receive_file_begin\<close> that opens the staging file of the new slot.\<close>

definition open_staging_file :: "Disk \<Rightarrow> bytes \<Rightarrow> u32 \<Rightarrow> nat \<Rightarrow> Receiver \<Rightarrow> unit result \<times> Receiver" where
  "open_staging_file d directory transfer_id i s =
     (case build_path DOWNLOAD_PATH_LIMIT directory (if_filename (slot s i)) of
        Inl e \<Rightarrow> (Inl e, discard_incoming_file d i s)
      | Inr final \<Rightarrow>
          let s1 = set_slot s i ((slot s i)\<lparr>if_final_path := final\<rparr>)
          in case lstat d final (fs s1) of
               Inr _ \<Rightarrow> (Inl EEXIST, discard_incoming_file d i s1)
             | Inl e \<Rightarrow>
                 if e \<noteq> ENOENT then (Inl e, discard_incoming_file d i s1)
                 else let (written, template) = snprintf DOWNLOAD_PATH_LIMIT (temp_template d directory transfer_id);
                          s2 = set_slot s1 i ((slot s1 i)\<lparr>if_temp_path := template\<rparr>)
                      in if DOWNLOAD_PATH_LIMIT \<le> written then (Inl ENAMETOOLONG, discard_incoming_file d i s2)
                         else let (r, path, f) = mkstemp d template (fs s2);
                                  s3 = (set_slot s2 i ((slot s2 i)\<lparr>if_temp_path := path\<rparr>))\<lparr>fs := f\<rparr>
                              in case r of
                                   Inl e \<Rightarrow> (Inl e, discard_incoming_file d i s3)
                                 | Inr node \<Rightarrow>
                                     case dk_fdopen d of
                                       Some e \<Rightarrow> (Inl e, discard_incoming_file d i s3)
                                     | None \<Rightarrow> (Inr (), set_slot s3 i ((slot s3 i)\<lparr>if_file := Some node\<rparr>)))"

definition size_unacceptable :: "FileBeginFrame \<Rightarrow> bool" where
  "size_unacceptable x \<longleftrightarrow>
     (let overhead = of_nat (FILE_CRYPTO_OVERHEAD + length (fb_filename x))
      in fb_file_size x < overhead \<or> of_nat FILE_PLAINTEXT_MAX_SIZE < fb_file_size x - overhead)"

definition receive_file_begin :: "Disk \<Rightarrow> bytes \<Rightarrow> bytes \<Rightarrow> Receiver \<Rightarrow> unit result \<times> Receiver" where
  "receive_file_begin d frame directory s =
     (case file_protocol_decode_begin frame of
        Inl e \<Rightarrow> (Inl e, s)
      | Inr x \<Rightarrow>
          if size_unacceptable x then (Inl EMSGSIZE, s)
          else case ensure_download_directory d directory (fs s) of
            (Inl e, f) \<Rightarrow> (Inl e, s\<lparr>fs := f\<rparr>)
          | (Inr _, f) \<Rightarrow>
              case create_incoming_file (s\<lparr>fs := f\<rparr>) (fb_transfer_id x) of
                (Inl e, s1) \<Rightarrow> (Inl e, s1)
              | (Inr i, s1) \<Rightarrow>
                  open_staging_file d directory (fb_transfer_id x) i
                    (set_slot s1 i ((slot s1 i)\<lparr>if_sender := fb_peer x, if_filename := fb_filename x,
                       if_expected_size := fb_file_size x\<rparr>)))"

text \<open>\<open>fwrite\<close> at the end of the staged bytes.\<close>

definition receive_file_chunk :: "Disk \<Rightarrow> bytes \<Rightarrow> Receiver \<Rightarrow> unit result \<times> Receiver" where
  "receive_file_chunk d frame s =
     (case file_protocol_decode_chunk frame of
        Inl e \<Rightarrow> (Inl e, s)
      | Inr x \<Rightarrow>
          case find_incoming_file s (fc_transfer_id x) of
            None \<Rightarrow> (Inl ENOENT, s)
          | Some i \<Rightarrow>
              let e = slot s i; node = the (if_file e); old = contents (fs s) node
              in if if_expected_size e < if_received_size e \<or>
                    of_nat (length (fc_data x)) > if_expected_size e - if_received_size e
                 then (Inl EFBIG, discard_incoming_file d i s)
                 else case dk_append d of
                   Some (k, err) \<Rightarrow>
                     (Inl (case err of None \<Rightarrow> EIO | Some v \<Rightarrow> v),
                      discard_incoming_file d i (s\<lparr>fs := set_contents node (old @ take k (fc_data x)) (fs s)\<rparr>))
                 | None \<Rightarrow>
                     (Inr (), (set_slot s i (e\<lparr>if_received_size := if_received_size e + of_nat (length (fc_data x))\<rparr>))
                        \<lparr>fs := set_contents node (old @ fc_data x) (fs s)\<rparr>))"

text \<open>
  What \<open>decrypt_received_file\<close> accepts: the staged bytes, opened, and the metadata checked.
  The result is the plaintext of the file.
\<close>

definition open_encrypted :: "Sodium \<Rightarrow> bytes \<Rightarrow> bytes \<Rightarrow> bytes \<Rightarrow> bytes result" where
  "open_encrypted so encrypted filename recipient_private_key =
     (if take FILE_CRYPTO_MAGIC_SIZE encrypted \<noteq> FILE_CRYPTO_MAGIC then Inl EPROTO
      else let sender_key = take CHAT_PUBLIC_KEY_SIZE (drop FILE_CRYPTO_MAGIC_SIZE encrypted);
               nonce = take CHAT_NONCE_SIZE (drop (FILE_CRYPTO_MAGIC_SIZE + CHAT_PUBLIC_KEY_SIZE) encrypted)
           in case box_open so (drop FILE_CRYPTO_HEADER_SIZE encrypted) nonce sender_key recipient_private_key of
                None \<Rightarrow> Inl EBADMSG
              | Some plaintext \<Rightarrow>
                  let filename_length = push_bit 8 (unat (plaintext ! FILE_CRYPTO_MAGIC_SIZE)) OR
                        unat (plaintext ! (FILE_CRYPTO_MAGIC_SIZE + 1))
                  in if take FILE_CRYPTO_MAGIC_SIZE plaintext \<noteq> FILE_CRYPTO_MAGIC \<or>
                        filename_length \<noteq> length filename \<or>
                        length plaintext - FILE_CRYPTO_METADATA_SIZE < filename_length \<or>
                        take filename_length (drop FILE_CRYPTO_METADATA_SIZE plaintext) \<noteq> filename
                     then Inl EBADMSG
                     else Inr (drop (FILE_CRYPTO_METADATA_SIZE + filename_length) plaintext))"

definition decrypt_received_file :: "Sodium \<Rightarrow> Disk \<Rightarrow> IncomingFile \<Rightarrow> bytes \<Rightarrow> Fs \<Rightarrow> nat result \<times> Fs" where
  "decrypt_received_file so d e recipient_private_key f =
     (let node = the (if_file e); staged = contents f node; encrypted_length = unat (if_expected_size e)
      in if \<not> dk_malloc d then (Inl ENOMEM, f)
         else case dk_rewind d of
           Some err \<Rightarrow> (Inl err, f)
         | None \<Rightarrow>
             if \<not> dk_fread d \<or> length staged < encrypted_length then (Inl EIO, f)
             else case open_encrypted so (take encrypted_length staged) (if_filename e) recipient_private_key of
               Inl err \<Rightarrow> (Inl err, f)
             | Inr data \<Rightarrow>
                 case dk_rewind2 d of
                   Some err \<Rightarrow> (Inl err, f)
                 | None \<Rightarrow>
                     case dk_rewrite d of
                       Some k \<Rightarrow> (Inl EIO, set_contents node (take k data @ drop (length (take k data)) staged) f)
                     | None \<Rightarrow>
                         let f1 = set_contents node (data @ drop (length data) staged) f
                         in case dk_fflush d of
                              Some err \<Rightarrow> (Inl err, f1)
                            | None \<Rightarrow>
                                case dk_ftruncate d of
                                  Some err \<Rightarrow> (Inl err, f1)
                                | None \<Rightarrow> (Inr (length data),
                                    set_contents node (truncated (length data) (contents f1 node)) f1))"

definition receive_file_end :: "Sodium \<Rightarrow> Disk \<Rightarrow> bytes \<Rightarrow> bytes \<Rightarrow> Receiver \<Rightarrow> unit result \<times> Receiver" where
  "receive_file_end so d frame recipient_private_key s =
     (case file_protocol_decode_control frame FRAME_FILE_END of
        Inl e \<Rightarrow> (Inl e, s)
      | Inr transfer_id \<Rightarrow>
          case find_incoming_file s transfer_id of
            None \<Rightarrow> (Inl ENOENT, s)
          | Some i \<Rightarrow>
              if if_received_size (slot s i) \<noteq> if_expected_size (slot s i)
              then (Inl EIO, discard_incoming_file d i s)
              else let (r, f) = decrypt_received_file so d (slot s i) recipient_private_key (fs s); s1 = s\<lparr>fs := f\<rparr>
                   in case r of
                        Inl e \<Rightarrow> (Inl e, discard_incoming_file d i s1)
                      | Inr file_size \<Rightarrow>
                          let s2 = set_slot s1 i ((slot s1 i)\<lparr>if_file := None\<rparr>)
                          in case dk_fclose d of
                               Some err \<Rightarrow>
                                 (Inl (case err of None \<Rightarrow> EIO | Some v \<Rightarrow> v), discard_incoming_file d i s2)
                             | None \<Rightarrow>
                                 let (r, f) = link d (if_temp_path (slot s2 i)) (if_final_path (slot s2 i)) (fs s2)
                                 in case r of
                                      Inl e \<Rightarrow> (Inl e, discard_incoming_file d i (s2\<lparr>fs := f\<rparr>))
                                    | Inr _ \<Rightarrow>
                                        (Inr (), (set_slot s2 i zero_incoming)
                                           \<lparr>fs := unlink d (if_temp_path (slot s2 i)) f\<rparr>))"

definition receive_file_error :: "Disk \<Rightarrow> bytes \<Rightarrow> Receiver \<Rightarrow> unit result \<times> Receiver" where
  "receive_file_error d frame s =
     (case file_protocol_decode_control frame FRAME_FILE_ERROR of
        Inl e \<Rightarrow> (Inl e, s)
      | Inr transfer_id \<Rightarrow>
          case find_incoming_file s transfer_id of
            None \<Rightarrow> (Inr (), s)
          | Some i \<Rightarrow> (Inr (), discard_incoming_file d i s))"

definition handle_incoming_file_frame ::
  "Sodium \<Rightarrow> Disk \<Rightarrow> bytes \<Rightarrow> bytes \<Rightarrow> bytes \<Rightarrow> Receiver \<Rightarrow> unit result \<times> Receiver" where
  "handle_incoming_file_frame so d frame directory recipient_private_key s =
     (if frame = [] then (Inl EINVAL, s)
      else case FrameType_of (frame ! 0) of
             FRAME_FILE_BEGIN \<Rightarrow> receive_file_begin d frame directory s
           | FRAME_FILE_CHUNK \<Rightarrow> receive_file_chunk d frame s
           | FRAME_FILE_END \<Rightarrow> receive_file_end so d frame recipient_private_key s
           | FRAME_FILE_ERROR \<Rightarrow> receive_file_error d frame s
           | _ \<Rightarrow> (Inl EINVAL, s))"

end
