(* ===== verification/Client.thy ===== *)
theory Client
  imports Pending_List Command_Parser File_Sender File_Receiver
begin

text \<open>
  \<open>client.c\<close>: the interactive client. \<open>ChatClient\<close> gathers its static state: the connection,
  the flags of the main loop, the requests that wait for a public key, the key pair, the
  transfer counter and the table of incoming files; \<open>shown\<close> is what it has displayed of
  messages received. The answers of libsodium, of the file system and of the allocator are
  in a \<open>ClientEnv\<close>. Diagnostics, prompts and the line editor are left out. A handler is
  \<open>None\<close> while a call on the connection blocks.
\<close>

section \<open>State\<close>

datatype display = ShowText bytes | ShowPrivate bytes bytes

record ChatClient =
  active_connection :: Tls
  connected :: bool
  client_exit_code :: nat
  pending :: PendingQueue
  public_key :: bytes
  private_key :: bytes
  next_transfer_id :: u32
  incoming :: Receiver
  shown :: "display list"

record ClientEnv =
  ce_sodium :: Sodium
  ce_files :: SenderOs
  ce_disk :: Disk
  ce_malloc :: bool
  ce_strdup :: bool
  ce_nonce :: bytes

definition PATH_MAX :: nat where "PATH_MAX = 4096"

section \<open>Private messages\<close>

definition is_connection_error :: "errno \<Rightarrow> bool" where
  "is_connection_error e \<longleftrightarrow> e = EPIPE \<or> e = ECONNRESET \<or> e = ENOTCONN \<or> e = EBADF"

definition display_message :: "bytes \<Rightarrow> ChatClient \<Rightarrow> ChatClient" where
  "display_message message c = c\<lparr>shown := shown c @ [ShowText message]\<rparr>"

definition display_private_message :: "bytes \<Rightarrow> bytes \<Rightarrow> ChatClient \<Rightarrow> ChatClient" where
  "display_private_message sender message c = c\<lparr>shown := shown c @ [ShowPrivate sender message]\<rparr>"

definition send_private_chat ::
  "ClientEnv \<Rightarrow> ChatClient \<Rightarrow> bytes \<Rightarrow> bytes \<Rightarrow> bytes \<Rightarrow> bytes \<Rightarrow> (unit result \<times> Tls) option" where
  "send_private_chat env c recipient message nonce recipient_public_key =
     (let recipient_len = length recipient; t = active_connection c
      in if recipient_len = 0 \<or> USERNAME_SIZE \<le> recipient_len then Some (Inl EINVAL, t)
         else if CHAT_MAX_MESSAGE_SIZE < length message then Some (Inl EMSGSIZE, t)
         else if \<not> ce_malloc env then Some (Inl ENOMEM, t)
         else case box_easy (ce_sodium env) message nonce recipient_public_key (private_key c) of
                None \<Rightarrow> Some (Inl EINVAL, t)
              | Some ciphertext \<Rightarrow>
                  sent (send_frame t FRAME_CIPHERTEXT
                    (of_nat recipient_len # recipient @ nonce @ public_key c @ ciphertext)))"

text \<open>The sender and the message to display; \<open>frame\<close> starts after the frame type.\<close>

definition open_private_chat :: "Sodium \<Rightarrow> bytes \<Rightarrow> bytes \<Rightarrow> (bytes \<times> bytes) result" where
  "open_private_chat so sk frame =
     (if length frame < 1 + CHAT_NONCE_SIZE + CHAT_PUBLIC_KEY_SIZE + CHAT_MAC_SIZE then Inl EMSGSIZE
      else let sender_len = unat (frame ! 0)
           in if sender_len = 0 \<or> USERNAME_SIZE \<le> sender_len \<or>
                 length frame < 1 + sender_len + CHAT_NONCE_SIZE + CHAT_PUBLIC_KEY_SIZE + CHAT_MAC_SIZE
              then Inl EMSGSIZE
              else let sender = take sender_len (drop 1 frame)
                   in if list_ex (\<lambda>b. isspace b \<or> iscntrl b) sender then Inl EPROTO
                      else let nonce = take CHAT_NONCE_SIZE (drop (1 + sender_len) frame);
                               sender_public_key = take CHAT_PUBLIC_KEY_SIZE (drop (1 + sender_len + CHAT_NONCE_SIZE) frame);
                               ciphertext = drop (1 + sender_len + CHAT_NONCE_SIZE + CHAT_PUBLIC_KEY_SIZE) frame
                           in if CHAT_MAC_SIZE + CHAT_MAX_MESSAGE_SIZE < length ciphertext then Inl EMSGSIZE
                              else case box_open so ciphertext nonce sender_public_key sk of
                                     None \<Rightarrow> Inl EINVAL
                                   | Some message \<Rightarrow> Inr (sender, message))"

definition receive_private_chat :: "Sodium \<Rightarrow> bytes \<Rightarrow> ChatClient \<Rightarrow> unit result \<times> ChatClient" where
  "receive_private_chat so frame c =
     (case open_private_chat so (private_key c) frame of
        Inl e \<Rightarrow> (Inl e, c)
      | Inr (sender, message) \<Rightarrow> (Inr (), display_private_message sender message c))"

section \<open>Frames from the server\<close>

text \<open>A failed operation ends the session when the error is one of the connection.\<close>

definition note_error :: "unit result \<Rightarrow> ChatClient \<Rightarrow> ChatClient" where
  "note_error r c =
     (case r of
        Inl e \<Rightarrow> if is_connection_error e then c\<lparr>client_exit_code := 1, connected := False\<rparr> else c
      | Inr _ \<Rightarrow> c)"

text \<open>A request whose recipient's key has arrived is carried out.\<close>

definition run_package :: "ClientEnv \<Rightarrow> PendingPackage \<Rightarrow> bytes \<Rightarrow> bytes \<Rightarrow> ChatClient \<Rightarrow> ChatClient option" where
  "run_package env p recipient key c =
     (case pp_type p of
        PENDING_FILE \<Rightarrow>
          do { (r, t, n) \<leftarrow> send_file (ce_sodium env) (ce_files env) (next_transfer_id c) (active_connection c)
                              recipient (pp_data p) key (public_key c) (private_key c);
               Some (note_error r (c\<lparr>active_connection := t, next_transfer_id := n\<rparr>)) }
      | PENDING_MESSAGE \<Rightarrow>
          do { (r, t) \<leftarrow> send_private_chat env c recipient (pp_data p) (ce_nonce env) key;
               Some (note_error r (c\<lparr>active_connection := t\<rparr>)) })"

definition handle_peer_key :: "ClientEnv \<Rightarrow> bytes \<Rightarrow> ChatClient \<Rightarrow> ChatClient option" where
  "handle_peer_key env frame c =
     (if length frame < 2 then Some c
      else let name_length = unat (frame ! 1); key_offset = 2 + name_length
           in if name_length = 0 \<or> USERNAME_SIZE \<le> name_length \<or>
                 (length frame \<noteq> key_offset \<and> length frame \<noteq> key_offset + CHAT_PUBLIC_KEY_SIZE) \<or>
                 0 \<in> set (take name_length (drop 2 frame))
              then Some c
              else let recipient = take name_length (drop 2 frame)
                   in do { (found, q) \<leftarrow> pending_take recipient (pending c);
                           case found of
                             None \<Rightarrow> Some c
                           | Some p \<Rightarrow>
                               if length frame = key_offset then Some (c\<lparr>pending := q\<rparr>)
                               else run_package env p recipient (drop key_offset frame) (c\<lparr>pending := q\<rparr>) })"

definition handle_server_frame :: "ClientEnv \<Rightarrow> bytes \<Rightarrow> ChatClient \<Rightarrow> ChatClient option" where
  "handle_server_frame env frame c =
     (let type = FrameType_of (frame ! 0)
      in if type = FRAME_TEXT then Some (display_message (drop 1 frame) c)
         else if type = FRAME_PEER_PK then handle_peer_key env frame c
         else if type = FRAME_CIPHERTEXT
         then Some (snd (receive_private_chat (ce_sodium env) (drop 1 frame) c))
         else let (r, s) = handle_incoming_file_frame (ce_sodium env) (ce_disk env) frame DOWNLOAD_DIRECTORY
                             (private_key c) (incoming c)
              in Some (c\<lparr>incoming := s\<rparr>))"

section \<open>Input lines\<close>

text \<open>The common end of both commands: allocate, ask the server for the key, link the request in.\<close>

definition request_key :: "ClientEnv \<Rightarrow> PendingPackage \<Rightarrow> ChatClient \<Rightarrow> (unit result \<times> ChatClient) option" where
  "request_key env p c =
     (if MAX_PENDING_PACKAGES \<le> pending_count (pending c) then Some (Inl ENOBUFS, c)
      else if \<not> ce_malloc env \<or> \<not> ce_strdup env then Some (Inl ENOMEM, c)
      else do { (r, t) \<leftarrow> send_frame (active_connection c) FRAME_REQUEST_PK (pp_recipient p);
                case r of
                  Inl e \<Rightarrow> Some (Inl e, c\<lparr>active_connection := t\<rparr>)
                | Inr _ \<Rightarrow> Some (Inr (), c\<lparr>active_connection := t, pending := pending_append p (pending c)\<rparr>) })"

definition handle_private_message :: "ClientEnv \<Rightarrow> bytes \<Rightarrow> ChatClient \<Rightarrow> (unit result \<times> ChatClient) option" where
  "handle_private_message env line c =
     do { (pc, buf) \<leftarrow> parse_command (line @ [0]);
          if pc_type pc \<noteq> CMD_PRIVATE_MESSAGE then Some (Inl EINVAL, c)
          else do { u \<leftarrow> pc_username pc; username \<leftarrow> string_at buf u;
                    m \<leftarrow> pc_message pc; message \<leftarrow> string_at buf m;
                    if CHAT_MAX_MESSAGE_SIZE < length message then Some (Inl EMSGSIZE, c)
                    else request_key env \<lparr>pp_type = PENDING_MESSAGE, pp_recipient = username, pp_data = message\<rparr> c } }"

definition handle_file_command :: "ClientEnv \<Rightarrow> bytes \<Rightarrow> ChatClient \<Rightarrow> (unit result \<times> ChatClient) option" where
  "handle_file_command env line c =
     do { (pc, buf) \<leftarrow> parse_command (line @ [0]);
          if pc_type pc \<noteq> CMD_FILE_TRANSFER then Some (Inl EINVAL, c)
          else do { u \<leftarrow> pc_username pc; username \<leftarrow> string_at buf u;
                    f \<leftarrow> pc_filepath pc; filepath \<leftarrow> string_at buf f;
                    if PATH_MAX < length filepath then Some (Inl EMSGSIZE, c)
                    else request_key env \<lparr>pp_type = PENDING_FILE, pp_recipient = username, pp_data = filepath\<rparr> c } }"

text \<open>\<open>strncmp (line, verb, n) == 0\<close> and the next character ends the word.\<close>

definition starts_with_verb :: "bytes \<Rightarrow> bytes \<Rightarrow> bool" where
  "starts_with_verb line verb \<longleftrightarrow> take (length verb) line = verb \<and>
     (length line = length verb \<or> isspace (line ! length verb))"

definition is_file_command :: "bytes \<Rightarrow> bool" where
  "is_file_command line \<longleftrightarrow> starts_with_verb line (str ''/file'')"

definition is_private_message :: "bytes \<Rightarrow> bool" where
  "is_private_message line \<longleftrightarrow> starts_with_verb (dropWhile isspace line) (str ''/msg'')"

definition finish_command :: "(unit result \<times> ChatClient) option \<Rightarrow> ChatClient option" where
  "finish_command = map_option (\<lambda>(r, c). note_error r c)"

text \<open>\<open>None\<close> as a line is the end of the input.\<close>

definition handle_input :: "ClientEnv \<Rightarrow> bytes option \<Rightarrow> ChatClient \<Rightarrow> ChatClient option" where
  "handle_input env input c =
     (case input of
        None \<Rightarrow> Some (c\<lparr>connected := False\<rparr>)
      | Some line \<Rightarrow>
          if line = [] then Some c
          else if is_file_command line then finish_command (handle_file_command env line c)
          else if is_private_message line then finish_command (handle_private_message env line c)
          else if FRAME_MAX_SIZE - 1 < length line then Some c
          else do { (r, t) \<leftarrow> send_frame (active_connection c) FRAME_TEXT line;
                    let c1 = c\<lparr>active_connection := t\<rparr>
                    in Some (case r of
                               Inl e \<Rightarrow> note_error (Inl e) c1
                             | Inr _ \<Rightarrow> if line = str ''/quit'' then c1\<lparr>connected := False\<rparr> else c1) })"

section \<open>Logging in\<close>

text \<open>
  \<open>fgets\<close> with room for \<open>n - 1\<close> characters: the characters up to and including a newline, at
  most \<open>n - 1\<close>; \<open>None\<close> at the end of the input.
\<close>

definition fgets :: "nat \<Rightarrow> bytes \<Rightarrow> bytes option" where
  "fgets n input =
     (if input = [] then None
      else let line = takeWhile (\<lambda>b. b \<noteq> 10) input
           in Some (take (n - 1) (if length line < length input then line @ [10] else line)))"

text \<open>At the end of the input the call fails with whatever \<open>errno\<close> holds, here \<open>Eother 0\<close>.\<close>

definition get_username_and_register_in_server :: "bytes \<Rightarrow> Tls \<Rightarrow> (unit result \<times> Tls) option" where
  "get_username_and_register_in_server input t =
     (case fgets (USERNAME_SIZE + 1) input of
        None \<Rightarrow> Some (Inl (Eother 0), t)
      | Some buf \<Rightarrow>
          if 10 \<notin> set (c_string buf) then Some (Inl EINVAL, t)
          else let username = takeWhile (\<lambda>b. b \<noteq> 10) (c_string buf)
               in if length username = 0 \<or> USERNAME_SIZE \<le> length username then Some (Inl EINVAL, t)
                  else if list_ex (\<lambda>b. isspace b \<or> iscntrl b) username then Some (Inl EINVAL, t)
                  else sent (send_message t username))"

definition receive_welcome_message :: "Tls \<Rightarrow> (bytes result \<times> Tls) option" where
  "receive_welcome_message t =
     do { (r, t1) \<leftarrow> receive_message t BUFFER_SIZE;
          case r of
            Inl e \<Rightarrow> Some (Inl e, t1)
          | Inr message \<Rightarrow>
              if message = [] then Some (Inl ECONNRESET, t1)
              else if take 13 (c_string message) = str ''Login failed:'' then Some (Inl EACCES, t1)
              else Some (Inr (c_string message), t1) }"

text \<open>The part of \<open>main\<close> between connecting and the loop; the result is that of the first failing call.\<close>

definition client_start :: "bytes \<Rightarrow> Disk \<Rightarrow> ChatClient \<Rightarrow> (unit result \<times> ChatClient) option" where
  "client_start input d c =
     do { (r, t) \<leftarrow> get_username_and_register_in_server input (active_connection c);
          case r of
            Inl e \<Rightarrow> Some (Inl e, c\<lparr>active_connection := t\<rparr>)
          | Inr _ \<Rightarrow>
              do { (r, t) \<leftarrow> receive_welcome_message t;
                   case r of
                     Inl e \<Rightarrow> Some (Inl e, c\<lparr>active_connection := t\<rparr>)
                   | Inr _ \<Rightarrow>
                       do { (r, t) \<leftarrow> send_frame t FRAME_REGISTER_PK (public_key c);
                            case r of
                              Inl e \<Rightarrow> Some (Inl e, c\<lparr>active_connection := t\<rparr>)
                            | Inr _ \<Rightarrow>
                                let (r, f) = ensure_download_directory d DOWNLOAD_DIRECTORY (fs (incoming c))
                                in Some (r, c\<lparr>active_connection := t, incoming := (incoming c)\<lparr>fs := f\<rparr>\<rparr>) } } }"

section \<open>The main loop\<close>

text \<open>
  One turn: how \<open>poll\<close> ended (readiness of the terminal and of the socket), whether TLS has
  buffered data, and the line the editor completed, if any.
\<close>

record ClientTurn =
  ct_env :: ClientEnv
  ct_pending :: bool
  ct_poll :: "(bool \<times> bool) result"
  ct_line :: "bytes option option"

definition client_receive :: "ClientEnv \<Rightarrow> ChatClient \<Rightarrow> ChatClient option" where
  "client_receive env c =
     do { (r, t) \<leftarrow> receive_frame (active_connection c) FRAME_MAX_SIZE;
          let c1 = c\<lparr>active_connection := t\<rparr>
          in case r of
               Inl e \<Rightarrow> Some (c1\<lparr>client_exit_code := 1, connected := False\<rparr>)
             | Inr frame \<Rightarrow>
                 if frame = [] then Some (c1\<lparr>connected := False\<rparr>) else handle_server_frame env frame c1 }"

text \<open>The flag tells whether the loop goes on to its test.\<close>

definition client_turn :: "ClientTurn \<Rightarrow> ChatClient \<Rightarrow> (bool \<times> ChatClient) option" where
  "client_turn turn c =
     (case ct_poll turn of
        Inl e \<Rightarrow> Some (False, c\<lparr>client_exit_code := 1\<rparr>)
      | Inr (input_ready, socket_ready) \<Rightarrow>
          do { c1 \<leftarrow> (if ct_pending turn \<or> socket_ready then client_receive (ct_env turn) c else Some c);
               c2 \<leftarrow> (if connected c1 \<and> input_ready
                       then (case ct_line turn of None \<Rightarrow> Some c1 | Some input \<Rightarrow> handle_input (ct_env turn) input c1)
                       else Some c1);
               Some (True, c2) })"

fun client_loop :: "ClientTurn list \<Rightarrow> ChatClient \<Rightarrow> ChatClient option" where
  "client_loop [] c = Some c"
| "client_loop (turn # turns) c =
     (if connected c
      then do { (go_on, c1) \<leftarrow> client_turn turn c; if go_on then client_loop turns c1 else Some c1 }
      else Some c)"

text \<open>What \<open>main\<close> does after the loop, before it closes the connection.\<close>

definition client_cleanup :: "(nat \<Rightarrow> Disk) \<Rightarrow> ChatClient \<Rightarrow> ChatClient option" where
  "client_cleanup disks c =
     do { q \<leftarrow> pending_free_all (pending c);
          Some (c\<lparr>incoming := cleanup_incoming_files disks (incoming c), pending := q,
                  private_key := replicate (length (private_key c)) 0\<rparr>) }"

end
