(* ===== verification/Receiver_Invariant.thy ===== *)
theory Receiver_Invariant
  imports File_Receiver
begin

text \<open>
  The invariant of the table of incoming files and its preservation by every operation.
  An active slot owns a staging file: a name of its own in the download directory, made of
  the process number, the transfer number and a suffix, that leads to a node no other name
  leads to and whose length is what the slot has received.
\<close>

section \<open>Names\<close>

text \<open>The staging name of a transfer with suffix number \<open>n\<close>, and any name of that kind.\<close>

definition staging_name :: "bytes \<Rightarrow> u32 \<Rightarrow> u32 \<Rightarrow> nat \<Rightarrow> bytes" where
  "staging_name dir pid i n =
     dir @ str ''/.cipher-chat-'' @ decimal (unat pid) @ str ''-'' @ decimal (unat i) @ str ''-'' @ mkstemp_suffix n"

definition is_staging :: "bytes \<Rightarrow> bytes \<Rightarrow> bool" where
  "is_staging dir path \<longleftrightarrow> (\<exists>rest. path = dir @ str ''/.cipher-chat-'' @ rest)"

lemma is_staging_name [simp]: "is_staging dir (staging_name dir pid i n)"
  by (auto simp: is_staging_def staging_name_def)

lemma staging_name_nonempty [simp]: "staging_name dir pid i n \<noteq> []"
  by (simp add: staging_name_def)

lemma staging_name_inj: "staging_name dir pid i n = staging_name dir pid j m \<Longrightarrow> i = j"
  by (simp add: staging_name_def decimal_inj word_unat_eq_iff)

lemma temp_template_eq:
  "temp_template d dir i =
     (dir @ str ''/.cipher-chat-'' @ decimal (unat (dk_pid d)) @ str ''-'' @ decimal (unat i) @ str ''-'') @ str ''XXXXXX''"
  by (simp add: temp_template_def)

lemma mkstemp_path_template: "mkstemp_path (temp_template d dir i) n = staging_name dir (dk_pid d) i n"
  unfolding mkstemp_path_def temp_template_eq staging_name_def by (simp del: str_Cons)

lemma temp_template_fits:
  assumes "length dir \<le> 4000"
  shows "length (temp_template d dir i) < DOWNLOAD_PATH_LIMIT"
  using assms length_decimal_u32 [of "dk_pid d"] length_decimal_u32 [of i]
  by (simp add: temp_template_eq const_simps)

lemma build_path_Inr:
  "build_path n dir name = Inr p \<longleftrightarrow> Suc (length dir + length name) < n \<and> p = dir @ str ''/'' @ name"
  by (auto simp: build_path_def snprintf_def)

section \<open>The invariant\<close>

definition size_ok :: "IncomingFile \<Rightarrow> bool" where
  "size_ok e \<longleftrightarrow> FILE_CRYPTO_OVERHEAD + length (if_filename e) \<le> unat (if_expected_size e) \<and>
     unat (if_expected_size e) \<le> FILE_CRYPTO_OVERHEAD + length (if_filename e) + FILE_PLAINTEXT_MAX_SIZE"

definition begun :: "bytes \<Rightarrow> IncomingFile \<Rightarrow> bool" where
  "begun dir e \<longleftrightarrow> if_final_path e = dir @ str ''/'' @ if_filename e \<and> file_protocol_valid_filename (if_filename e) \<and>
     file_protocol_valid_peer_name (if_sender e) \<and> size_ok e"

definition owns :: "Fs \<Rightarrow> bytes \<Rightarrow> nat \<Rightarrow> bool" where
  "owns f path node \<longleftrightarrow> (\<forall>p. names f p = Some node \<longleftrightarrow> p = path)"

definition staging_of :: "bytes \<Rightarrow> u32 \<Rightarrow> IncomingFile \<Rightarrow> bool" where
  "staging_of dir pid e \<longleftrightarrow> (\<exists>n. if_temp_path e = staging_name dir pid (if_transfer_id e) n)"

definition holds :: "Fs \<Rightarrow> IncomingFile \<Rightarrow> nat \<Rightarrow> bool" where
  "holds f e node \<longleftrightarrow> owns f (if_temp_path e) node \<and>
     (\<exists>c. nodes f node = Regular c \<and> length c = unat (if_received_size e))"

definition staged :: "bytes \<Rightarrow> u32 \<Rightarrow> Fs \<Rightarrow> IncomingFile \<Rightarrow> bool" where
  "staged dir pid f e \<longleftrightarrow> begun dir e \<and> staging_of dir pid e \<and> if_received_size e \<le> if_expected_size e \<and>
     (\<exists>node. if_file e = Some node \<and> holds f e node)"

text \<open>\<open>slots_ok dir pid X s\<close>: the invariant with the slots in \<open>X\<close> under construction.\<close>

definition slot_ok :: "bytes \<Rightarrow> u32 \<Rightarrow> Fs \<Rightarrow> IncomingFile \<Rightarrow> bool" where
  "slot_ok dir pid f e \<longleftrightarrow> (if if_active e then staged dir pid f e else e = zero_incoming)"

definition slots_ok :: "bytes \<Rightarrow> u32 \<Rightarrow> nat set \<Rightarrow> Receiver \<Rightarrow> bool" where
  "slots_ok dir pid X s \<longleftrightarrow> length (incoming_files s) = MAX_INCOMING_FILES \<and> fresh_nodes (fs s) \<and>
     slot_unique if_active if_transfer_id (incoming_files s) \<and>
     (\<forall>j < MAX_INCOMING_FILES. j \<notin> X \<longrightarrow> slot_ok dir pid (fs s) (slot s j))"

definition receiver_inv :: "bytes \<Rightarrow> u32 \<Rightarrow> Receiver \<Rightarrow> bool" where
  "receiver_inv dir pid s \<longleftrightarrow> slots_ok dir pid {} s"

interpretation by_transfer: slot_table if_active if_transfer_id zero_incoming
  by unfold_locales (simp add: zero_incoming_def)

lemma zero_incoming_simps [simp]:
  "\<not> if_active zero_incoming" "if_temp_path zero_incoming = []" "if_file zero_incoming = None"
  by (simp_all add: zero_incoming_def)

lemma static_receiver_inv: "fresh_nodes f \<Longrightarrow> receiver_inv dir pid (static_receiver f)"
  by (simp add: receiver_inv_def slots_ok_def static_receiver_def slot_ok_def by_transfer.unique_blank_table)

lemma slots_okD:
  assumes "slots_ok dir pid X s" "j < MAX_INCOMING_FILES" "j \<notin> X"
  shows "slot_ok dir pid (fs s) (slot s j)"
  using assms by (auto simp: slots_ok_def)

lemma slots_ok_mono: "slots_ok dir pid X s \<Longrightarrow> X \<subseteq> Y \<Longrightarrow> slots_ok dir pid Y s"
  by (auto simp: slots_ok_def)

lemma stagedD:
  assumes "staged dir pid f e"
  obtains node where "if_file e = Some node" "holds f e node" "names f (if_temp_path e) = Some node"
  using assms by (auto simp: staged_def holds_def owns_def)

text \<open>Different transfers stage under different names, on different nodes.\<close>

lemma staging_apart:
  assumes "staging_of dir pid e" "staging_of dir pid e'" "if_transfer_id e \<noteq> if_transfer_id e'"
  shows "if_temp_path e \<noteq> if_temp_path e'"
  using assms staging_name_inj unfolding staging_of_def by metis

lemma staged_apart:
  assumes "staged dir pid f e" "staged dir pid f e'" "if_transfer_id e \<noteq> if_transfer_id e'"
  shows "if_temp_path e \<noteq> if_temp_path e'" "if_file e \<noteq> if_file e'"
proof -
  show p: "if_temp_path e \<noteq> if_temp_path e'" using assms staging_apart unfolding staged_def by blast
  then show "if_file e \<noteq> if_file e'" using assms(1,2) unfolding staged_def holds_def owns_def by (metis option.inject)
qed

section \<open>Calls that leave a staged file alone\<close>

lemma slot_ok_cong:
  assumes "slot_ok dir pid f e"
    and "if_active e \<Longrightarrow> staged dir pid f e \<Longrightarrow> staged dir pid f' e"
  shows "slot_ok dir pid f' e"
  using assms by (auto simp: slot_ok_def split: if_splits)

lemma staged_cong:
  "staged dir pid f e \<Longrightarrow> (\<And>node. if_file e = Some node \<Longrightarrow> holds f e node \<Longrightarrow> holds f' e node) \<Longrightarrow> staged dir pid f' e"
  unfolding staged_def by blast

lemma owns_names: "owns f q node \<Longrightarrow> names f q = Some node"
  by (simp add: owns_def)

lemma owns_only: "owns f q node \<Longrightarrow> names f p = Some node \<Longrightarrow> p = q"
  by (simp add: owns_def)

lemma ownsI: "names f q = Some node \<Longrightarrow> (\<And>p. names f p = Some node \<Longrightarrow> p = q) \<Longrightarrow> owns f q node"
  unfolding owns_def by blast

lemma owns_create:
  assumes "owns f q node" "fresh_nodes f" "names f p = None"
  shows "owns (create_node p n f) q node" "node \<noteq> next_node f"
proof -
  show node: "node \<noteq> next_node f" using assms owns_names fresh_nodesD by blast
  have "p \<noteq> q" using assms(3) owns_names [OF assms(1)] by auto
  then show "owns (create_node p n f) q node"
  proof (intro ownsI)
    fix r
    assume "names (create_node p n f) r = Some node"
    then have "names f r = Some node" using node by (simp split: if_splits)
    then show "r = q" by (rule owns_only [OF assms(1)])
  qed (simp add: owns_names [OF assms(1)])
qed

lemma owns_unlink: "owns f q node \<Longrightarrow> p \<noteq> q \<Longrightarrow> owns (unlink d p f) q node"
  by (intro ownsI) (auto dest: owns_names owns_only split: if_splits)

lemma owns_link:
  assumes "owns f q node" "i \<noteq> node" "names f p = None"
  shows "owns (f\<lparr>names := (names f)(p \<mapsto> i)\<rparr>) q node"
proof -
  have "p \<noteq> q" using assms(3) owns_names [OF assms(1)] by auto
  then show ?thesis
  proof (intro ownsI)
    fix r
    assume "names (f\<lparr>names := (names f)(p \<mapsto> i)\<rparr>) r = Some node"
    then have "names f r = Some node" using assms(2) by (simp split: if_splits)
    then show "r = q" by (rule owns_only [OF assms(1)])
  qed (simp add: owns_names [OF assms(1)])
qed

lemma staged_create:
  "staged dir pid f e \<Longrightarrow> fresh_nodes f \<Longrightarrow> names f p = None \<Longrightarrow> staged dir pid (create_node p n f) e"
  by (erule staged_cong) (auto simp: holds_def owns_create(1) dest: owns_create(2))

lemma staged_unlink: "staged dir pid f e \<Longrightarrow> p \<noteq> if_temp_path e \<Longrightarrow> staged dir pid (unlink d p f) e"
  by (erule staged_cong) (auto simp: holds_def owns_unlink)

lemma staged_contents: "staged dir pid f e \<Longrightarrow> if_file e \<noteq> Some i \<Longrightarrow> staged dir pid (set_contents i c f) e"
  by (erule staged_cong) (auto simp: holds_def owns_def)

lemma staged_link:
  "staged dir pid f e \<Longrightarrow> if_file e \<noteq> Some i \<Longrightarrow> names f p = None \<Longrightarrow>
   staged dir pid (f\<lparr>names := (names f)(p \<mapsto> i)\<rparr>) e"
  by (erule staged_cong) (auto simp: holds_def owns_link)

text \<open>A new file system that keeps the staged files of the slots that are not under construction.\<close>

lemma slots_ok_fs:
  assumes ok: "slots_ok dir pid X s" and f: "fresh_nodes f"
    and other: "\<And>j. j < MAX_INCOMING_FILES \<Longrightarrow> j \<notin> X \<Longrightarrow> if_active (slot s j) \<Longrightarrow>
        staged dir pid (fs s) (slot s j) \<Longrightarrow> staged dir pid f (slot s j)"
  shows "slots_ok dir pid X (s\<lparr>fs := f\<rparr>)"
proof -
  have "slot_ok dir pid f (slot s j)" if "j < MAX_INCOMING_FILES" "j \<notin> X" for j
    using slot_ok_cong [OF slots_okD [OF ok that]] other [OF that] by blast
  then show ?thesis using ok f by (simp add: slots_ok_def)
qed

lemma slots_ok_create:
  assumes "slots_ok dir pid X s" "names (fs s) p = None"
  shows "slots_ok dir pid X (s\<lparr>fs := create_node p n (fs s)\<rparr>)"
  using assms(2) by (intro slots_ok_fs [OF assms(1)] fresh_nodes_create staged_create)
    (use assms(1) in \<open>auto simp: slots_ok_def\<close>)

lemma slots_ok_update:
  assumes ok: "slots_ok dir pid {i} s" and i: "i < MAX_INCOMING_FILES"
    and act: "if_active (slot s i)" "if_transfer_id e = if_transfer_id (slot s i)"
  shows "slots_ok dir pid {i} (set_slot s i e)"
proof -
  have "slot_unique if_active if_transfer_id ((incoming_files s)[i := e])"
    using ok i act by (intro by_transfer.unique_same_key) (auto simp: slots_ok_def)
  then show ?thesis using ok by (auto simp: slots_ok_def)
qed

lemma slots_ok_finish:
  assumes "slots_ok dir pid {i} s" "i < MAX_INCOMING_FILES \<Longrightarrow> slot_ok dir pid (fs s) (slot s i)"
  shows "receiver_inv dir pid s"
  using assms unfolding receiver_inv_def slots_ok_def by (metis empty_iff singletonD)

lemma other_id:
  assumes "slots_ok dir pid X s" "i < MAX_INCOMING_FILES" "j < MAX_INCOMING_FILES" "j \<noteq> i"
    "if_active (slot s i)" "if_active (slot s j)"
  shows "if_transfer_id (slot s j) \<noteq> if_transfer_id (slot s i)"
  using assms by (auto simp: slots_ok_def dest: by_transfer.uniqueD)

text \<open>Discarding a slot, whatever state its construction was in.\<close>

definition removable :: "bytes \<Rightarrow> u32 \<Rightarrow> IncomingFile \<Rightarrow> bool" where
  "removable dir pid e \<longleftrightarrow> if_active e \<and> (if_temp_path e = [] \<or> staging_of dir pid e)"

lemma discard_inv:
  assumes ok: "slots_ok dir pid {i} s" and i: "i < MAX_INCOMING_FILES" and rem: "removable dir pid (slot s i)"
  shows "receiver_inv dir pid (discard_incoming_file d i s)"
proof (rule slots_ok_finish)
  let ?p = "if_temp_path (slot s i)"
  let ?f = "if ?p \<noteq> [] then unlink d ?p (fs s) else fs s"
  have "staged dir pid ?f (slot s j)"
    if "j < MAX_INCOMING_FILES" "j \<noteq> i" "if_active (slot s j)" "staged dir pid (fs s) (slot s j)" for j
  proof -
    have "if_transfer_id (slot s i) \<noteq> if_transfer_id (slot s j)"
      using other_id [OF ok i] that rem by (metis removable_def)
    then have "?p \<noteq> [] \<Longrightarrow> ?p \<noteq> if_temp_path (slot s j)"
      using rem that(4) staging_apart unfolding removable_def staged_def by blast
    then show ?thesis using that(4) staged_unlink by simp
  qed
  moreover have "fresh_nodes ?f" using ok fresh_nodes_unlink by (auto simp: slots_ok_def)
  ultimately have "slots_ok dir pid {i} (s\<lparr>fs := ?f\<rparr>)" using slots_ok_fs [OF ok, of ?f] by blast
  then have "slots_ok dir pid {i} (set_slot (s\<lparr>fs := ?f\<rparr>) i zero_incoming)"
    using by_transfer.unique_inactive [of "incoming_files s" zero_incoming i] by (simp add: slots_ok_def)
  moreover have "discard_incoming_file d i s = set_slot (s\<lparr>fs := ?f\<rparr>) i zero_incoming"
    by (simp add: discard_incoming_file_def)
  ultimately show "slots_ok dir pid {i} (discard_incoming_file d i s)"
    "i < MAX_INCOMING_FILES \<Longrightarrow> slot_ok dir pid (fs (discard_incoming_file d i s)) (slot (discard_incoming_file d i s) i)"
    by (auto simp: slots_ok_def slot_ok_def)
qed

lemma staged_removable: "if_active e \<Longrightarrow> staged dir pid f e \<Longrightarrow> removable dir pid e"
  by (simp add: removable_def staged_def)


section \<open>Files outside the staging area\<close>

text \<open>
  \<open>confined dir f f'\<close>: every existing file whose name is not a staging name keeps its name,
  node and contents, and every new name is the download directory itself, a staging name, or
  a valid file name in the directory.
\<close>

definition proper_name :: "bytes \<Rightarrow> bytes \<Rightarrow> bool" where
  "proper_name dir p \<longleftrightarrow> p = dir \<or> is_staging dir p \<or> (\<exists>name. file_protocol_valid_filename name \<and> p = dir @ str ''/'' @ name)"

definition confined :: "bytes \<Rightarrow> Fs \<Rightarrow> Fs \<Rightarrow> bool" where
  "confined dir f f' \<longleftrightarrow>
     (\<forall>p node. names f p = Some node \<longrightarrow> \<not> is_staging dir p \<longrightarrow> names f' p = Some node \<and> nodes f' node = nodes f node) \<and>
     (\<forall>p. names f p = None \<longrightarrow> names f' p \<noteq> None \<longrightarrow> proper_name dir p)"

lemma confined_refl [simp]: "confined dir f f"
  by (simp add: confined_def)

lemma confined_trans: "confined dir f g \<Longrightarrow> confined dir g h \<Longrightarrow> confined dir f h"
  unfolding confined_def by metis

lemma confined_create:
  "fresh_nodes f \<Longrightarrow> names f p = None \<Longrightarrow> proper_name dir p \<Longrightarrow> confined dir f (create_node p n f)"
  by (auto simp: confined_def dest: fresh_nodesD)

lemma confined_unlink: "is_staging dir p \<Longrightarrow> confined dir f (unlink d p f)"
  by (auto simp: confined_def)

lemma confined_contents: "owns f q node \<Longrightarrow> is_staging dir q \<Longrightarrow> confined dir f (set_contents node c f)"
  by (auto simp: confined_def dest: owns_only)

lemma confined_link:
  "names f p = None \<Longrightarrow> proper_name dir p \<Longrightarrow> confined dir f (f\<lparr>names := (names f)(p \<mapsto> i)\<rparr>)"
  by (auto simp: confined_def)

lemma proper_names: "proper_name dir dir" "proper_name dir (staging_name dir pid i n)"
  "begun dir e \<Longrightarrow> proper_name dir (if_final_path e)"
  by (auto simp: proper_name_def begun_def)

lemma staging_of_is_staging: "staging_of dir pid e \<Longrightarrow> is_staging dir (if_temp_path e)"
  by (auto simp: staging_of_def)

lemma discard_confined:
  assumes "removable dir pid (slot s i)"
  shows "confined dir (fs s) (fs (discard_incoming_file d i s))"
  using assms staging_of_is_staging confined_unlink by (auto simp: discard_incoming_file_def removable_def Let_def)

text \<open>What every operation preserves.\<close>

definition sound :: "bytes \<Rightarrow> u32 \<Rightarrow> Receiver \<Rightarrow> Receiver \<Rightarrow> bool" where
  "sound dir pid s s' \<longleftrightarrow> receiver_inv dir pid s' \<and> confined dir (fs s) (fs s')"

lemma discard_sound:
  assumes "slots_ok dir pid {i} s'" "i < MAX_INCOMING_FILES" "removable dir pid (slot s' i)"
    and "confined dir (fs s) (fs s')"
  shows "sound dir pid s (discard_incoming_file d i s')"
  using discard_inv [OF assms(1-3)] confined_trans [OF assms(4) discard_confined [OF assms(3)]] by (simp add: sound_def)

lemma sound_refl: "receiver_inv dir pid s \<Longrightarrow> sound dir pid s s"
  by (simp add: sound_def)

section \<open>Opening the staging file\<close>

text \<open>A slot that \<open>receive_file_begin\<close> has filled from the frame.\<close>

definition announced :: "IncomingFile \<Rightarrow> bool" where
  "announced e \<longleftrightarrow> if_active e \<and> if_temp_path e = [] \<and> if_received_size e = 0 \<and>
     file_protocol_valid_filename (if_filename e) \<and> file_protocol_valid_peer_name (if_sender e) \<and> size_ok e"

lemma mkstemp_cases:
  assumes "mkstemp d (temp_template d dir tid) f = (r, path, f')"
  obtains n where "path = staging_name dir (dk_pid d) tid n"
    "(\<exists>e. r = Inl e \<and> f' = f) \<or> (r = Inr (next_node f) \<and> names f path = None \<and> f' = create_node path (Regular []) f)"
  using assms by (auto simp: mkstemp_def mkstemp_path_template Let_def split: sum.splits if_splits)

lemma snprintf_template:
  assumes "length dir \<le> 4000"
  shows "snprintf DOWNLOAD_PATH_LIMIT (temp_template d dir tid) =
    (length (temp_template d dir tid), temp_template d dir tid)"
  using temp_template_fits [OF assms, of d tid] by (simp add: snprintf_def)

lemma Receiver_swap: "s\<lparr>fs := f, incoming_files := x\<rparr> = s\<lparr>incoming_files := x, fs := f\<rparr>"
  by simp

text \<open>A staging file that was just created makes its slot complete.\<close>

lemma staging_created_sound:
  assumes ok: "slots_ok dir pid {i} s" and i: "i < MAX_INCOMING_FILES" and a: "announced (slot s i)"
    and final: "build_path DOWNLOAD_PATH_LIMIT dir (if_filename (slot s i)) = Inr final"
    and path: "path = staging_name dir pid (if_transfer_id (slot s i)) n" "names (fs s) path = None"
    and s': "s' = (set_slot s i ((slot s i)\<lparr>if_final_path := final, if_temp_path := path, if_file := Some (next_node (fs s))\<rparr>))
      \<lparr>fs := create_node path (Regular []) (fs s)\<rparr>"
  shows "sound dir pid s s'"
proof -
  let ?e4 = "(slot s i)\<lparr>if_final_path := final, if_temp_path := path, if_file := Some (next_node (fs s))\<rparr>"
  let ?f = "create_node path (Regular []) (fs s)"
  have len: "i < length (incoming_files s)" using ok i by (simp add: slots_ok_def)
  have "owns ?f path (next_node (fs s))"
    using ok by (intro ownsI) (auto simp: slots_ok_def dest: fresh_nodesD split: if_splits)
  then have "holds ?f ?e4 (next_node (fs s))" using a by (simp add: holds_def announced_def)
  moreover have "begun dir ?e4" using a final by (simp add: begun_def announced_def build_path_Inr size_ok_def)
  ultimately have "staged dir pid ?f ?e4"
    using path(1) a by (auto simp: staged_def announced_def staging_of_def)
  moreover have "slots_ok dir pid {i} (set_slot s i ?e4)"
    using a by (intro slots_ok_update [OF ok i]) (auto simp: announced_def)
  then have "slots_ok dir pid {i} s'"
    using slots_ok_create [of dir pid "{i}" "set_slot s i ?e4" path "Regular []"] path(2) s' by simp
  ultimately have "receiver_inv dir pid s'"
    using len s' a by (intro slots_ok_finish [of dir pid i]) (auto simp: slot_ok_def announced_def)
  moreover have "confined dir (fs s) ?f"
    using ok path confined_create [of "fs s" path dir "Regular []"] proper_names(2) by (auto simp: slots_ok_def)
  ultimately show ?thesis using s' by (simp add: sound_def)
qed

text \<open>The case that the final name is free, so that a staging file is created.\<close>

lemma open_staging_free:
  assumes ok: "slots_ok dir pid {i} s" and i: "i < MAX_INCOMING_FILES" and a: "announced (slot s i)"
    and d: "dk_pid d = pid" "length dir \<le> 4000" "if_transfer_id (slot s i) = tid"
    and path0: "build_path DOWNLOAD_PATH_LIMIT dir (if_filename (slot s i)) = Inr final" and st: "lstat d final (fs s) = Inl ENOENT"
    and run: "open_staging_file d dir tid i s = (r, s')"
  shows "sound dir pid s s'"
proof -
  let ?e = "slot s i"
  have len: "i < length (incoming_files s)" using ok i by (simp add: slots_ok_def)
  obtain q path f where mk: "mkstemp d (temp_template d dir tid) (fs s) = (q, path, f)" by (metis prod_cases3)
  from mkstemp_cases [OF this] obtain n where path: "path = staging_name dir pid tid n"
    and f: "(\<exists>e. q = Inl e \<and> f = fs s) \<or>
      (q = Inr (next_node (fs s)) \<and> names (fs s) path = None \<and> f = create_node path (Regular []) (fs s))"
    unfolding d(1) by blast
  let ?e3 = "?e\<lparr>if_final_path := final, if_temp_path := path\<rparr>"
  let ?s3 = "(set_slot s i ?e3)\<lparr>fs := f\<rparr>"
  have staging: "staging_of dir pid ?e3" using path d(3) by (auto simp: staging_of_def)
  have "slots_ok dir pid {i} (set_slot s i ?e3)"
    using a by (intro slots_ok_update [OF ok i]) (auto simp: announced_def)
  then have ok3: "slots_ok dir pid {i} ?s3"
    using f slots_ok_create [of dir pid "{i}" "set_slot s i ?e3" path "Regular []"] by auto
  have keep: "confined dir (fs s) (fs ?s3)"
    using f ok path confined_create [of "fs s" path dir "Regular []"] proper_names(2) by (auto simp: slots_ok_def)
  have rem3: "removable dir pid (slot ?s3 i)" using a len staging by (simp add: removable_def announced_def)
  have "s' = discard_incoming_file d i ?s3 \<or>
    (r = Inr () \<and> q = Inr (next_node (fs s)) \<and> s' = set_slot ?s3 i (?e3\<lparr>if_file := Some (next_node (fs s))\<rparr>))"
    using run path0 st mk len temp_template_fits [OF d(2), of d tid] f
    by (auto simp: open_staging_file_def Let_def snprintf_template [OF d(2)] split: option.splits)
  then show ?thesis
  proof
    assume "s' = discard_incoming_file d i ?s3"
    then show ?thesis using discard_sound [OF ok3 i rem3 keep] by simp
  next
    assume s': "r = Inr () \<and> q = Inr (next_node (fs s)) \<and> s' = set_slot ?s3 i (?e3\<lparr>if_file := Some (next_node (fs s))\<rparr>)"
    then have "names (fs s) path = None" "f = create_node path (Regular []) (fs s)" using f by auto
    then show ?thesis using s' path d(3)
      by (intro staging_created_sound [OF ok i a path0, of path n]) (simp_all add: Receiver_swap)
  qed
qed

lemma open_staging_sound:
  assumes ok: "slots_ok dir pid {i} s" and i: "i < MAX_INCOMING_FILES" and a: "announced (slot s i)"
    and d: "dk_pid d = pid" "length dir \<le> 4000" "if_transfer_id (slot s i) = tid"
    and run: "open_staging_file d dir tid i s = (r, s')"
  shows "sound dir pid s s'"
proof -
  let ?e = "slot s i"
  have len: "i < length (incoming_files s)" using ok i by (simp add: slots_ok_def)
  show ?thesis
  proof (cases "build_path DOWNLOAD_PATH_LIMIT dir (if_filename ?e)")
    case (Inl e)
    then show ?thesis using run a discard_sound [OF ok i, of s d]
      by (auto simp: open_staging_file_def announced_def removable_def)
  next
    case (Inr final)
    let ?s1 = "set_slot s i (?e\<lparr>if_final_path := final\<rparr>)"
    have ok1: "slots_ok dir pid {i} ?s1" using a by (intro slots_ok_update [OF ok i]) (auto simp: announced_def)
    show ?thesis
    proof (cases "lstat d final (fs s) = Inl ENOENT")
      case False
      then have "s' = discard_incoming_file d i ?s1"
        using run Inr by (auto simp: open_staging_file_def Let_def split: sum.splits if_splits)
      moreover have "removable dir pid (slot ?s1 i)" using a len by (simp add: removable_def announced_def)
      ultimately show ?thesis using discard_sound [OF ok1 i, of s d] by simp
    next
      case True
      then show ?thesis by (rule open_staging_free [OF ok i a d Inr _ run])
    qed
  qed
qed


section \<open>The handlers\<close>

lemma size_acceptable:
  assumes "\<not> size_unacceptable x" "length (fb_filename x) < 256"
  shows "FILE_CRYPTO_OVERHEAD + length (fb_filename x) \<le> unat (fb_file_size x)"
    "unat (fb_file_size x) \<le> FILE_CRYPTO_OVERHEAD + length (fb_filename x) + FILE_PLAINTEXT_MAX_SIZE"
proof -
  let ?o = "FILE_CRYPTO_OVERHEAD + length (fb_filename x)"
  have o: "unat (of_nat ?o :: u64) = ?o" using assms(2) by (simp add: const_simps unat_of_nat flip: of_nat_add)
  have m: "unat (of_nat FILE_PLAINTEXT_MAX_SIZE :: u64) = FILE_PLAINTEXT_MAX_SIZE" by (simp add: const_simps)
  have le: "(of_nat ?o :: u64) \<le> fb_file_size x"
    and "fb_file_size x - of_nat ?o \<le> of_nat FILE_PLAINTEXT_MAX_SIZE"
    using assms(1) by (simp_all add: size_unacceptable_def Let_def not_less)
  then show "?o \<le> unat (fb_file_size x)" "unat (fb_file_size x) \<le> ?o + FILE_PLAINTEXT_MAX_SIZE"
    unfolding word_le_nat_alt o m unat_sub [OF le] by auto
qed

lemma decode_begin_valid:
  "file_protocol_decode_begin frame = Inr x \<Longrightarrow>
   file_protocol_valid_filename (fb_filename x) \<and> file_protocol_valid_peer_name (fb_peer x) \<and> length (fb_filename x) < 256"
  by (auto simp: file_protocol_decode_begin_def file_protocol_valid_filename_def const_simps Let_def split: if_splits)

lemma ensure_sound:
  assumes inv: "receiver_inv dir pid s" and run: "ensure_download_directory d dir (fs s) = (r, f)"
  shows "sound dir pid s (s\<lparr>fs := f\<rparr>)"
proof -
  from run have "f = fs s \<or> names (fs s) dir = None \<and> f = create_node dir Directory (fs s)"
    by (auto simp: ensure_download_directory_def mkdir_def split: if_splits option.splits sum.splits)
  then show ?thesis
    using inv slots_ok_create [of dir pid "{}" s dir Directory]
      confined_create [of "fs s" dir dir Directory, OF _ _ proper_names(1)]
    by (auto simp: sound_def receiver_inv_def slots_ok_def)
qed

lemma create_incoming_cases:
  assumes inv: "receiver_inv dir pid s" and run: "create_incoming_file s tid = (r, s')"
  shows "(\<exists>e. r = Inl e \<and> s' = s) \<or>
    (\<exists>i < MAX_INCOMING_FILES. r = Inr i \<and> slot s i = zero_incoming \<and> slots_ok dir pid {i} s' \<and> find_incoming_file s tid = None \<and>
       s' = set_slot s i (zero_incoming\<lparr>if_active := True, if_transfer_id := tid\<rparr>))"
proof (cases "\<exists>e. r = Inl e \<and> s' = s")
  case False
  let ?e = "zero_incoming\<lparr>if_active := True, if_transfer_id := tid\<rparr>"
  from False run obtain i where i: "find_slot (\<lambda>e. \<not> if_active e) (incoming_files s) = Some i" "r = Inr i"
    "find_incoming_file s tid = None" and s': "s' = set_slot s i ?e"
    by (auto simp: create_incoming_file_def split: if_splits option.splits)
  have new: "slot_lookup if_active if_transfer_id (incoming_files s) (if_transfer_id ?e) = None"
    using i(3) by (simp add: slot_lookup_def find_incoming_file_def)
  have I: "i < MAX_INCOMING_FILES" "\<not> if_active (slot s i)"
    using i(1) inv by (auto simp: find_slot_Some receiver_inv_def slots_ok_def)
  then have "slot s i = zero_incoming"
    using slots_okD [of dir pid "{}" s i] inv by (simp add: receiver_inv_def slot_ok_def)
  moreover have "slots_ok dir pid {i} s'"
    using by_transfer.unique_new_key [OF _ new] inv by (auto simp: s' receiver_inv_def slots_ok_def)
  ultimately show ?thesis using I i s' by blast
qed simp

lemma receive_file_begin_sound:
  assumes inv: "receiver_inv dir pid s" and d: "dk_pid d = pid" "length dir \<le> 4000"
    and run: "receive_file_begin d frame dir s = (r, s')"
  shows "sound dir pid s s'"
proof (cases "\<exists>x. file_protocol_decode_begin frame = Inr x \<and> \<not> size_unacceptable x")
  case False
  then have "s' = s" using run by (auto simp: receive_file_begin_def split: sum.splits if_splits)
  then show ?thesis using inv by (simp add: sound_refl)
next
  case True
  then obtain x where x: "file_protocol_decode_begin frame = Inr x" "\<not> size_unacceptable x" by blast
  obtain q f where e: "ensure_download_directory d dir (fs s) = (q, f)" by fastforce
  note ens = ensure_sound [OF inv e]
  then have inv1: "receiver_inv dir pid (s\<lparr>fs := f\<rparr>)" by (simp add: sound_def)
  obtain c s1 where c: "create_incoming_file (s\<lparr>fs := f\<rparr>) (fb_transfer_id x) = (c, s1)" by fastforce
  show ?thesis
  proof (cases "\<exists>i. q = Inr () \<and> c = Inr i")
    case False
    then have "s' = s\<lparr>fs := f\<rparr>"
      using run x e c create_incoming_cases [OF inv1 c] by (auto simp: receive_file_begin_def split: sum.splits)
    then show ?thesis using ens by simp
  next
    case True
    with create_incoming_cases [OF inv1 c] obtain i where i: "i < MAX_INCOMING_FILES" "c = Inr i" "slots_ok dir pid {i} s1"
      and s1: "s1 = set_slot (s\<lparr>fs := f\<rparr>) i (zero_incoming\<lparr>if_active := True, if_transfer_id := fb_transfer_id x\<rparr>)"
      by auto
    let ?s2 = "set_slot s1 i ((slot s1 i)\<lparr>if_sender := fb_peer x, if_filename := fb_filename x,
                       if_expected_size := fb_file_size x\<rparr>)"
    have len: "i < length (incoming_files s)" using i inv by (simp add: receiver_inv_def slots_ok_def)
    have ok2: "slots_ok dir pid {i} ?s2" using s1 len by (intro slots_ok_update [OF i(3,1)]) simp_all
    have id2: "if_transfer_id (slot ?s2 i) = fb_transfer_id x" and a: "announced (slot ?s2 i)"
      using decode_begin_valid [OF x(1)] size_acceptable [OF x(2)] len
      by (simp_all add: s1 announced_def size_ok_def zero_incoming_def)
    have run2: "open_staging_file d dir (fb_transfer_id x) i ?s2 = (r, s')"
      using run x e c i(2) True by (simp add: receive_file_begin_def)
    have "sound dir pid ?s2 s'" by (rule open_staging_sound [OF ok2 i(1) a d id2 run2])
    then show ?thesis using ens s1 by (auto simp: sound_def intro: confined_trans)
  qed
qed

text \<open>The slot a frame addresses.\<close>

lemma find_incoming_slot:
  assumes "receiver_inv dir pid s" "find_incoming_file s tid = Some i"
  shows "i < MAX_INCOMING_FILES" "if_active (slot s i)" "if_transfer_id (slot s i) = tid"
    "staged dir pid (fs s) (slot s i)" "slots_ok dir pid {i} s" "i < length (incoming_files s)"
proof -
  show i: "i < MAX_INCOMING_FILES" "if_active (slot s i)" "if_transfer_id (slot s i) = tid" "i < length (incoming_files s)"
    using assms by (auto simp: find_incoming_file_def find_slot_Some receiver_inv_def slots_ok_def)
  then show "staged dir pid (fs s) (slot s i)"
    using slots_okD [of dir pid "{}" s i] assms(1) by (simp add: receiver_inv_def slot_ok_def)
  show "slots_ok dir pid {i} s" using assms(1) slots_ok_mono unfolding receiver_inv_def by blast
qed

text \<open>Writing to the staging file of slot \<open>i\<close> concerns no other slot and no other file.\<close>

lemma write_staged:
  assumes inv: "receiver_inv dir pid s" and i: "find_incoming_file s tid = Some i"
    and node: "if_file (slot s i) = Some node"
  shows "slots_ok dir pid {i} (s\<lparr>fs := set_contents node c (fs s)\<rparr>)"
    "confined dir (fs s) (set_contents node c (fs s))"
proof -
  note slot = find_incoming_slot [OF inv i]
  have "staged dir pid (set_contents node c (fs s)) (slot s j)"
    if "j < MAX_INCOMING_FILES" "j \<notin> {i}" "if_active (slot s j)" "staged dir pid (fs s) (slot s j)" for j
  proof -
    have "if_transfer_id (slot s j) \<noteq> if_transfer_id (slot s i)"
      using other_id [OF slot(5,1) that(1) _ slot(2) that(3)] that(2) by simp
    then have "if_file (slot s j) \<noteq> if_file (slot s i)" by (rule staged_apart(2) [OF that(4) slot(4)])
    then show ?thesis using node that(4) by (simp add: staged_contents)
  qed
  moreover have "fresh_nodes (set_contents node c (fs s))"
    using inv fresh_nodes_contents by (auto simp: receiver_inv_def slots_ok_def)
  ultimately show "slots_ok dir pid {i} (s\<lparr>fs := set_contents node c (fs s)\<rparr>)" using slots_ok_fs [OF slot(5)] by blast
  show "confined dir (fs s) (set_contents node c (fs s))"
    using slot(4) node staging_of_is_staging confined_contents unfolding staged_def holds_def by auto
qed

lemma discard_addressed:
  assumes "receiver_inv dir pid s" "find_incoming_file s tid = Some i"
  shows "sound dir pid s (discard_incoming_file d i s)"
  using find_incoming_slot [OF assms] staged_removable by (intro discard_sound) auto

lemma discard_written:
  assumes "receiver_inv dir pid s" "find_incoming_file s tid = Some i" "if_file (slot s i) = Some node"
    and "if_temp_path e = if_temp_path (slot s i)" "if_active e" "if_transfer_id e = tid"
  shows "sound dir pid s (discard_incoming_file d i (set_slot (s\<lparr>fs := set_contents node c (fs s)\<rparr>) i e))"
proof (rule discard_sound)
  note slot = find_incoming_slot [OF assms(1,2)]
  show "i < MAX_INCOMING_FILES" by (rule slot)
  show "slots_ok dir pid {i} (set_slot (s\<lparr>fs := set_contents node c (fs s)\<rparr>) i e)"
    using slots_ok_update [OF write_staged(1) [OF assms(1-3), of c] slot(1), of e] slot assms(6) by simp
  show "removable dir pid (slot (set_slot (s\<lparr>fs := set_contents node c (fs s)\<rparr>) i e) i)"
    using slot assms(4-6) by (auto simp: removable_def staged_def staging_of_def)
  show "confined dir (fs s) (fs (set_slot (s\<lparr>fs := set_contents node c (fs s)\<rparr>) i e))"
    using write_staged(2) [OF assms(1-3)] by simp
qed

lemma chunk_fits:
  assumes "\<not> (e < r \<or> of_nat n > e - (r :: u64))" "n < 2 ^ 64"
  shows "r + of_nat n \<le> e" "unat (r + of_nat n) = unat r + n"
proof -
  have le: "r \<le> e" and "of_nat n \<le> e - r" using assms(1) by (auto simp: not_less)
  then have "n \<le> unat e - unat r"
    using assms(2) by (simp add: word_le_nat_alt unat_sub unat_of_nat)
  then have sum: "unat r + n \<le> unat e" using le by (simp add: word_le_nat_alt)
  then show "unat (r + of_nat n) = unat r + n"
    using unsigned_less [of e, where ?'a = nat] assms(2) by (simp add: unat_word_ariths unat_of_nat)
  then show "r + of_nat n \<le> e" using sum by (simp add: word_le_nat_alt)
qed


lemma receive_file_chunk_accepts:
  assumes inv: "receiver_inv dir pid s" and i: "find_incoming_file s tid = Some i"
    and node: "if_file (slot s i) = Some node" and e: "e = slot s i"
    and fits: "\<not> (if_expected_size e < if_received_size e \<or> of_nat n > if_expected_size e - if_received_size e)"
    and n: "n = length b" "n < 2 ^ 64"
    and s': "s' = (set_slot s i (e\<lparr>if_received_size := if_received_size e + of_nat n\<rparr>))
               \<lparr>fs := set_contents node (contents (fs s) node @ b) (fs s)\<rparr>"
  shows "sound dir pid s s'"
proof -
  note slot = find_incoming_slot [OF inv i]
  note w = write_staged [OF inv i node, of "contents (fs s) node @ b"]
  let ?e = "e\<lparr>if_received_size := if_received_size e + of_nat n\<rparr>"
  have s'': "s' = set_slot (s\<lparr>fs := set_contents node (contents (fs s) node @ b) (fs s)\<rparr>) i ?e" by (simp add: s')
  have ok: "slots_ok dir pid {i} s'" unfolding s''
    using slot e by (intro slots_ok_update [OF w(1) slot(1)]) simp_all
  have st: "begun dir e" "staging_of dir pid e" "holds (fs s) e node"
    using slot(4) node e by (auto simp: staged_def)
  then have "begun dir ?e" "staging_of dir pid ?e"
    by (simp_all add: begun_def size_ok_def staging_of_def)
  moreover have "holds (set_contents node (contents (fs s) node @ b) (fs s)) ?e node"
  proof -
    obtain c where "owns (fs s) (if_temp_path e) node" "nodes (fs s) node = Regular c" "length c = unat (if_received_size e)"
      using st(3) unfolding holds_def by blast
    then show ?thesis using chunk_fits(2) [OF fits n(2)] n(1) by (simp add: holds_def owns_def contents_Regular)
  qed
  ultimately have "staged dir pid (fs s') ?e"
    using chunk_fits(1) [OF fits n(2)] node e by (simp add: staged_def s')
  then have "receiver_inv dir pid s'"
    using slot e by (intro slots_ok_finish [OF ok]) (simp add: s' slot_ok_def)
  then show ?thesis using w(2) by (simp add: sound_def s')
qed

lemma decode_chunk_length: "file_protocol_decode_chunk frame = Inr x \<Longrightarrow> 0 < length (fc_data x) \<and> length (fc_data x) \<le> 900"
  by (auto simp: file_protocol_decode_chunk_def Let_def const_simps split: if_splits)

lemma receive_file_chunk_sound:
  assumes inv: "receiver_inv dir pid s" and run: "receive_file_chunk d frame s = (r, s')"
  shows "sound dir pid s s'"
proof (cases "\<exists>x i. file_protocol_decode_chunk frame = Inr x \<and> find_incoming_file s (fc_transfer_id x) = Some i")
  case False
  then have "s' = s" using run by (auto simp: receive_file_chunk_def split: sum.splits option.splits)
  then show ?thesis using inv by (simp add: sound_refl)
next
  case True
  then obtain x i where x: "file_protocol_decode_chunk frame = Inr x" and i: "find_incoming_file s (fc_transfer_id x) = Some i"
    by blast
  note slot = find_incoming_slot [OF inv i]
  from slot(4) obtain node where node: "if_file (slot s i) = Some node" by (rule stagedD)
  let ?e = "slot s i"
  let ?over = "if_expected_size ?e < if_received_size ?e \<or> of_nat (length (fc_data x)) > if_expected_size ?e - if_received_size ?e"
  consider "?over" "s' = discard_incoming_file d i s"
    | c where "s' = discard_incoming_file d i (s\<lparr>fs := set_contents node c (fs s)\<rparr>)"
    | "\<not> ?over" "s' = (set_slot s i (?e\<lparr>if_received_size := if_received_size ?e + of_nat (length (fc_data x))\<rparr>))
               \<lparr>fs := set_contents node (contents (fs s) node @ fc_data x) (fs s)\<rparr>"
    using run x i node by (fastforce simp: receive_file_chunk_def Let_def split: if_splits option.splits)
  then show ?thesis
  proof cases
    case 1
    then show ?thesis using discard_addressed [OF inv i] by simp
  next
    case 2
    have "s\<lparr>fs := set_contents node c (fs s)\<rparr> = set_slot (s\<lparr>fs := set_contents node c (fs s)\<rparr>) i ?e" by simp
    then show ?thesis using 2 discard_written [OF inv i node, of ?e d c] slot by simp
  next
    case 3
    then show ?thesis using decode_chunk_length [OF x]
      by (intro receive_file_chunk_accepts [OF inv i node refl _ refl _ 3(2)]) auto
  qed
qed

lemma decrypt_effect:
  assumes "decrypt_received_file so d e key f = (r, f')" "if_file e = Some node"
  shows "f' = f \<or> (\<exists>c. f' = set_contents node c f)"
    and "r = Inr n \<Longrightarrow> \<exists>data. open_encrypted so (take (unat (if_expected_size e)) (contents f node)) (if_filename e) key = Inr data \<and>
      n = length data \<and> f' = set_contents node data f"
  using assms by (auto simp: decrypt_received_file_def Let_def truncated_def split: if_splits option.splits sum.splits)

text \<open>The last step of a transfer: the final name is linked, the staging name removed, the slot cleared.\<close>

lemma linked_sound:
  assumes inv: "receiver_inv dir pid s" and i: "find_incoming_file s tid = Some i" and node: "if_file (slot s i) = Some node"
    and ok: "slots_ok dir pid {i} (s\<lparr>fs := f\<rparr>)" "confined dir (fs s) f" "names f = names (fs s)"
    and new: "names f (if_final_path (slot s i)) = None"
    and s': "incoming_files s' = (incoming_files s)[i := zero_incoming]"
      "fs s' = unlink d (if_temp_path (slot s i)) (f\<lparr>names := (names f)(if_final_path (slot s i) \<mapsto> node)\<rparr>)"
  shows "sound dir pid s s'"
proof -
  note slot = find_incoming_slot [OF inv i]
  let ?e = "slot s i" and ?h = "fs s'"
  have own: "names (fs s) (if_temp_path ?e) = Some node" using slot(4) node by (auto elim: stagedD)
  have staging: "is_staging dir (if_temp_path ?e)" and proper: "proper_name dir (if_final_path ?e)"
    using slot staging_of_is_staging proper_names(3) by (auto simp: staged_def staging_of_def)
  have "staged dir pid ?h (slot s j)"
    if j: "j < MAX_INCOMING_FILES" "j \<notin> {i}" "if_active (slot s j)" "staged dir pid f (slot s j)" for j
  proof -
    have t: "if_transfer_id (slot s j) \<noteq> if_transfer_id ?e"
      using other_id [OF slot(5,1) j(1) _ slot(2) j(3)] j(2) by simp
    have "slot_ok dir pid (fs s) (slot s j)" using slots_okD [OF slot(5) j(1,2)] .
    then have "staged dir pid (fs s) (slot s j)" using j(3) by (simp add: slot_ok_def)
    then have "if_file (slot s j) \<noteq> Some node" "if_temp_path ?e \<noteq> if_temp_path (slot s j)"
      using staged_apart [OF _ slot(4) t] node by auto
    then show ?thesis using staged_unlink staged_link [OF j(4) _ new] s'(2) by simp
  qed
  moreover have "fresh_nodes ?h"
    using ok(1,3) own fresh_nodesD by (auto simp: slots_ok_def fresh_nodes_def s'(2) split: if_splits)
  ultimately have "slots_ok dir pid {i} (s\<lparr>fs := ?h\<rparr>)" using slots_ok_fs [OF ok(1), of ?h] by simp
  then have "slots_ok dir pid {i} s'"
    using by_transfer.unique_inactive [of "incoming_files s" zero_incoming i] s'(1) by (simp add: slots_ok_def)
  then have "receiver_inv dir pid s'"
    using s'(1) slot(6) by (intro slots_ok_finish [of dir pid i]) (simp_all add: slot_ok_def)
  moreover have "confined dir (fs s) ?h"
    using confined_trans [OF ok(2) confined_trans [OF confined_link [OF new proper] confined_unlink [OF staging]]] s'(2) by simp
  ultimately show ?thesis by (simp add: sound_def)
qed

lemma receive_file_end_sound:
  assumes inv: "receiver_inv dir pid s" and run: "receive_file_end so d frame key s = (r, s')"
  shows "sound dir pid s s'"
proof (cases "\<exists>tid i. file_protocol_decode_control frame FRAME_FILE_END = Inr tid \<and> find_incoming_file s tid = Some i")
  case False
  then have "s' = s" using run by (auto simp: receive_file_end_def split: sum.splits option.splits)
  then show ?thesis using inv by (simp add: sound_refl)
next
  case True
  then obtain tid i where c: "file_protocol_decode_control frame FRAME_FILE_END = Inr tid"
    and i: "find_incoming_file s tid = Some i" by blast
  note slot = find_incoming_slot [OF inv i]
  from slot(4) obtain node where node: "if_file (slot s i) = Some node"
    and own: "names (fs s) (if_temp_path (slot s i)) = Some node" by (rule stagedD)
  obtain q f where dec: "decrypt_received_file so d (slot s i) key (fs s) = (q, f)" by fastforce
  from decrypt_effect(1) [OF dec node] obtain c where f: "f = fs s \<or> f = set_contents node c (fs s)" by blast
  let ?e = "slot s i" and ?e2 = "(slot s i)\<lparr>if_file := None\<rparr>"
  let ?s2 = "set_slot (s\<lparr>fs := f\<rparr>) i ?e2"
  obtain l g where l: "link d (if_temp_path ?e) (if_final_path ?e) f = (l, g)" by fastforce
  have names: "names f = names (fs s)" using f by auto
  have g: "(\<exists>err. l = Inl err \<and> g = f) \<or>
      l = Inr () \<and> names f (if_final_path ?e) = None \<and> g = f\<lparr>names := (names f)(if_final_path ?e \<mapsto> node)\<rparr>"
    using l own names by (auto simp: link_def split: option.splits if_splits)
  have ok: "slots_ok dir pid {i} (s\<lparr>fs := f\<rparr>)" "confined dir (fs s) f"
    using f slot(5) write_staged [OF inv i node, of c] by auto
  have ok2: "slots_ok dir pid {i} ?s2" using slot by (intro slots_ok_update [OF ok(1) slot(1)]) simp_all
  have rem: "removable dir pid ?e2" "is_staging dir (if_temp_path ?e)"
    using slot staging_of_is_staging by (auto simp: removable_def staged_def staging_of_def)
  have "s' = discard_incoming_file d i s \<or> s' = discard_incoming_file d i (s\<lparr>fs := f\<rparr>) \<or> s' = discard_incoming_file d i ?s2 \<or>
    l = Inr () \<and> s' = (set_slot ?s2 i zero_incoming)\<lparr>fs := unlink d (if_temp_path ?e) g\<rparr>"
    using run c i dec l g slot
    by (auto simp: receive_file_end_def Let_def Receiver_swap split: if_splits sum.splits option.splits)
  then consider "s' = discard_incoming_file d i s" | "s' = discard_incoming_file d i (s\<lparr>fs := f\<rparr>)"
    | "s' = discard_incoming_file d i ?s2"
    | "l = Inr ()" "s' = (set_slot ?s2 i zero_incoming)\<lparr>fs := unlink d (if_temp_path ?e) g\<rparr>" by blast
  then show ?thesis
  proof cases
    case 1
    then show ?thesis using discard_addressed [OF inv i] by simp
  next
    case 2
    then show ?thesis using discard_sound [OF ok(1) slot(1)] ok(2) staged_removable slot by simp
  next
    case 3
    then show ?thesis using discard_sound [OF ok2 slot(1)] ok(2) rem(1) slot(6) by simp
  next
    case 4
    then have "names f (if_final_path ?e) = None" "g = f\<lparr>names := (names f)(if_final_path ?e \<mapsto> node)\<rparr>" using g by auto
    then show ?thesis using 4(2) by (intro linked_sound [OF inv i node ok names, of s' d]) simp_all
  qed
qed

lemma receive_file_error_sound:
  assumes inv: "receiver_inv dir pid s" and run: "receive_file_error d frame s = (r, s')"
  shows "sound dir pid s s'"
  using run discard_addressed [OF inv] sound_refl [OF inv]
  by (auto simp: receive_file_error_def split: sum.splits option.splits)

lemma handle_incoming_sound:
  assumes "receiver_inv dir pid s" "dk_pid d = pid" "length dir \<le> 4000"
    and "handle_incoming_file_frame so d frame dir key s = (r, s')"
  shows "sound dir pid s s'"
  using assms receive_file_begin_sound receive_file_chunk_sound receive_file_end_sound receive_file_error_sound
    sound_refl [OF assms(1)]
  by (auto simp: handle_incoming_file_frame_def split: if_splits FrameType.splits)

lemma cleanup_inv:
  assumes "receiver_inv dir pid s"
  shows "sound dir pid s (cleanup_incoming_files d s)"
proof -
  let ?g = "\<lambda>i s. if if_active (slot s i) then discard_incoming_file (d i) i s else s"
  have "sound dir pid s (fold ?g is s)" if "set is \<subseteq> {..<MAX_INCOMING_FILES}" for "is"
    using that
  proof (induction "is" rule: rev_induct)
    case Nil
    then show ?case using assms by (simp add: sound_refl)
  next
    case (snoc i "is")
    let ?t = "fold ?g is s"
    have inv: "receiver_inv dir pid ?t" and keep: "confined dir (fs s) (fs ?t)" and i: "i < MAX_INCOMING_FILES"
      using snoc by (auto simp: sound_def)
    have "slots_ok dir pid {i} ?t" using inv slots_ok_mono unfolding receiver_inv_def by blast
    moreover have "slot_ok dir pid (fs ?t) (slot ?t i)"
      using slots_okD [of dir pid "{}" ?t i] inv i by (simp add: receiver_inv_def)
    ultimately have "if_active (slot ?t i) \<Longrightarrow> sound dir pid s (discard_incoming_file (d i) i ?t)"
      using discard_sound [OF _ i _ keep] staged_removable by (auto simp: slot_ok_def split: if_splits)
    then show ?case using snoc by simp
  qed
  then show ?thesis by (simp add: cleanup_incoming_files_def lessThan_atLeast0)
qed

end
