(* ===== verification/Receiver_Properties.thy ===== *)
theory Receiver_Properties
  imports Receiver_Invariant File_Sender
begin

text \<open>
  What the receiving client guarantees: its table stays well formed in every history of
  frames, clean-ups and actions of other processes; it stays inside the download directory
  and overwrites nothing; what it saves was boxed for its key; a transfer that fails leaves
  nothing behind; and what the sending client emits is what it saves.
\<close>

section \<open>Histories\<close>

text \<open>
  Other processes may do anything to the file system but touch the staging files that are
  in use.
\<close>

definition leaves_staging :: "Receiver \<Rightarrow> Fs \<Rightarrow> bool" where
  "leaves_staging s f \<longleftrightarrow> fresh_nodes f \<and>
     (\<forall>e node. e \<in> set (incoming_files s) \<longrightarrow> if_active e \<longrightarrow> if_file e = Some node \<longrightarrow>
        nodes f node = nodes (fs s) node \<and> (\<forall>p. names f p = Some node \<longleftrightarrow> names (fs s) p = Some node))"

inductive receiver_step :: "bytes \<Rightarrow> u32 \<Rightarrow> Receiver \<Rightarrow> Receiver \<Rightarrow> bool" for dir pid where
  frame: "dk_pid d = pid \<Longrightarrow> handle_incoming_file_frame so d frame dir key s = (r, s') \<Longrightarrow> receiver_step dir pid s s'"
| cleanup: "receiver_step dir pid s (cleanup_incoming_files ds s)"
| others: "leaves_staging s f \<Longrightarrow> receiver_step dir pid s (s\<lparr>fs := f\<rparr>)"

inductive receiver_run :: "bytes \<Rightarrow> u32 \<Rightarrow> Receiver \<Rightarrow> Receiver \<Rightarrow> bool" for dir pid where
  start: "receiver_run dir pid s s"
| step: "receiver_run dir pid s s1 \<Longrightarrow> receiver_step dir pid s1 s' \<Longrightarrow> receiver_run dir pid s s'"

lemma others_inv:
  assumes inv: "receiver_inv dir pid s" and f: "leaves_staging s f"
  shows "receiver_inv dir pid (s\<lparr>fs := f\<rparr>)"
  unfolding receiver_inv_def
proof (rule slots_ok_fs)
  show "slots_ok dir pid {} s" "fresh_nodes f" using inv f by (simp_all add: receiver_inv_def leaves_staging_def)
  fix j
  assume j: "j < MAX_INCOMING_FILES" "if_active (slot s j)" and st: "staged dir pid (fs s) (slot s j)"
  then have "slot s j \<in> set (incoming_files s)" using inv by (simp add: receiver_inv_def slots_ok_def)
  then have "holds f (slot s j) node" if "if_file (slot s j) = Some node" "holds (fs s) (slot s j) node" for node
    using f j that by (simp add: leaves_staging_def holds_def owns_def)
  then show "staged dir pid f (slot s j)" using staged_cong [OF st] by blast
qed

lemma receiver_step_inv:
  "receiver_step dir pid s s' \<Longrightarrow> length dir \<le> 4000 \<Longrightarrow> receiver_inv dir pid s \<Longrightarrow> receiver_inv dir pid s'"
  by (induction rule: receiver_step.induct)
     (auto dest: handle_incoming_sound cleanup_inv others_inv simp: sound_def)

lemma receiver_run_inv:
  "receiver_run dir pid s s' \<Longrightarrow> length dir \<le> 4000 \<Longrightarrow> receiver_inv dir pid s \<Longrightarrow> receiver_inv dir pid s'"
  by (induction rule: receiver_run.induct) (auto dest: receiver_step_inv)

text \<open>
  C13. In every history that starts with an empty table - frames of any contents with any
  answers of the system, clean-ups, other processes that do not touch the staging files - the
  table stays well formed: sixteen slots, unused ones zero; no two active slots with the same
  transfer number; and every active slot has a valid sender and file name, a size within the
  limits, at most that many bytes received, and a staging file of its own in the download
  directory that holds exactly the bytes received.
\<close>

theorem receiver_always_wf:
  assumes "receiver_run dir pid (static_receiver f) s" and "fresh_nodes f" and "length dir \<le> 4000"
  shows "receiver_inv dir pid s"
  using receiver_run_inv [OF assms(1,3) static_receiver_inv [OF assms(2)]] .

text \<open>
  C7. Handling a frame never touches a file outside the staging area: every existing file
  whose name is not a staging name keeps its name and contents, whatever file name the peer
  chose; and every name that is new afterwards is the download directory, a staging name, or
  the directory followed by a valid file name, which has no separator.
\<close>

theorem receiver_confined:
  assumes "receiver_inv dir pid s" and "dk_pid d = pid" and "length dir \<le> 4000"
    and "handle_incoming_file_frame so d frame dir key s = (r, s')"
  shows "(\<forall>p node. names (fs s) p = Some node \<longrightarrow> \<not> is_staging dir p \<longrightarrow>
            names (fs s') p = Some node \<and> nodes (fs s') node = nodes (fs s) node) \<and>
         (\<forall>p. names (fs s) p = None \<longrightarrow> names (fs s') p \<noteq> None \<longrightarrow>
            p = dir \<or> is_staging dir p \<or> (\<exists>name. file_protocol_valid_filename name \<and> p = dir @ str ''/'' @ name))"
  using handle_incoming_sound [OF assms] unfolding sound_def confined_def proper_name_def by blast

section \<open>Opening an encrypted file\<close>

lemma open_envelope:
  assumes "length spk = 32" "length nonce = 24" "length name < 256"
    and "box_open so box nonce spk key = Some (file_plaintext name data)"
  shows "open_encrypted so (file_envelope spk nonce box) name key = Inr data"
proof -
  let ?p = "file_plaintext name data"
  have n: "take 8 ?p = FILE_CRYPTO_MAGIC" "?p ! 8 = of_nat (drop_bit 8 (length name))" "?p ! 9 = of_nat (length name)"
    "drop 10 ?p = name @ data"
    by (simp_all add: file_plaintext_def nth_append)
  have e: "take 8 (file_envelope spk nonce box) = FILE_CRYPTO_MAGIC"
    "take 32 (drop 8 (file_envelope spk nonce box)) = spk"
    "take 24 (drop 40 (file_envelope spk nonce box)) = nonce" "drop 64 (file_envelope spk nonce box) = box"
    using assms(1,2) by (simp_all add: file_envelope_def)
  have len: "push_bit 8 (unat (of_nat (drop_bit 8 (length name)) :: byte)) OR unat (of_nat (length name) :: byte) = length name"
    using assms(3) by (intro length_bytes) simp
  have d: "drop (10 + length name) ?p = data" using n(4) by (metis append_eq_conv_conj drop_drop add.commute)
  show ?thesis
    unfolding open_encrypted_def Let_def client_file_consts CHAT_PUBLIC_KEY_SIZE_def CHAT_NONCE_SIZE_def
    using assms(4) by (simp add: e n len d)
qed

lemma length_bytes_back:
  assumes "push_bit 8 (unat (a :: byte)) OR unat (b :: byte) = n"
  shows "a = of_nat (drop_bit 8 n)" "b = of_nat n"
proof -
  have "drop_bit 8 n = unat a" "take_bit 8 n = unat b"
    unfolding assms [symmetric] by (rule bit_eqI; auto simp: bit_simps dest: bit_imp_le_length)+
  then show "a = of_nat (drop_bit 8 n)" by simp
  have "(of_nat (take_bit 8 n) :: byte) = of_nat n" by (simp add: word_of_nat_eq_iff)
  then show "b = of_nat n" using \<open>take_bit 8 n = unat b\<close> by simp
qed


lemma open_encrypted_sound:
  assumes "open_encrypted so enc name key = Inr data" "box_sized so" "90 + length name \<le> length enc"
  shows "\<exists>spk nonce box. length spk = 32 \<and> length nonce = 24 \<and> enc = file_envelope spk nonce box \<and>
    box_open so box nonce spk key = Some (file_plaintext name data)"
proof -
  let ?spk = "take 32 (drop 8 enc)" and ?nonce = "take 24 (drop 40 enc)" and ?box = "drop 64 enc"
  from assms(1) obtain p where p: "take 8 enc = FILE_CRYPTO_MAGIC" "box_open so ?box ?nonce ?spk key = Some p"
    "take 8 p = FILE_CRYPTO_MAGIC" "push_bit 8 (unat (p ! 8)) OR unat (p ! 9) = length name"
    "take (length name) (drop 10 p) = name" "data = drop (10 + length name) p"
    unfolding open_encrypted_def Let_def client_file_consts CHAT_PUBLIC_KEY_SIZE_def CHAT_NONCE_SIZE_def
    by (auto split: if_splits option.splits)
  have len: "length ?box = length p + 16" using box_open_length [OF assms(2) p(2)] .
  then have "10 + length name \<le> length p" using assms(3) by simp
  then have "drop 8 p = p ! 8 # p ! 9 # drop 10 p"
    using Cons_nth_drop_Suc [of 8 p] Cons_nth_drop_Suc [of 9 p] by (simp add: numeral_eq_Suc)
  then have "p = FILE_CRYPTO_MAGIC @ [p ! 8, p ! 9] @ drop 10 p"
    using append_take_drop_id [of 8 p] p(3) by (metis append_Cons append_Nil)
  moreover have "drop 10 p = name @ data"
    using append_take_drop_id [of "length name" "drop 10 p"] p(5,6) by (simp add: add.commute)
  ultimately have "p = file_plaintext name data"
    using length_bytes_back [OF p(4)] by (simp add: file_plaintext_def)
  moreover have "enc = take 8 enc @ ?spk @ ?nonce @ ?box"
    using append_take_drop_id [of 8 enc] append_take_drop_id [of 32 "drop 8 enc"] append_take_drop_id [of 24 "drop 40 enc"]
    by (simp add: drop_drop del: append_take_drop_id)
  then have "enc = file_envelope ?spk ?nonce ?box" using p(1) by (simp add: file_envelope_def)
  moreover have "length ?spk = 32" "length ?nonce = 24" using assms(3) by auto
  ultimately show ?thesis using p(2) by blast
qed

section \<open>The last frame\<close>

lemma receive_file_end_Inr:
  assumes inv: "receiver_inv dir pid s" and run: "receive_file_end so d frame key s = (Inr (), s')"
  shows "\<exists>tid i node data. file_protocol_decode_control frame FRAME_FILE_END = Inr tid \<and>
    find_incoming_file s tid = Some i \<and> if_file (slot s i) = Some node \<and>
    length (contents (fs s) node) = unat (if_expected_size (slot s i)) \<and>
    open_encrypted so (contents (fs s) node) (if_filename (slot s i)) key = Inr data \<and>
    names (fs s) (if_final_path (slot s i)) = None \<and>
    incoming_files s' = (incoming_files s)[i := zero_incoming] \<and>
    fs s' = unlink d (if_temp_path (slot s i))
      ((set_contents node data (fs s))\<lparr>names := (names (fs s))(if_final_path (slot s i) \<mapsto> node)\<rparr>)"
proof -
  from run obtain tid i where c: "file_protocol_decode_control frame FRAME_FILE_END = Inr tid"
    and i: "find_incoming_file s tid = Some i"
    and size: "if_received_size (slot s i) = if_expected_size (slot s i)"
    by (auto simp: receive_file_end_def split: sum.splits option.splits if_splits)
  note slot = find_incoming_slot [OF inv i]
  from slot(4) obtain node where node: "if_file (slot s i) = Some node" "holds (fs s) (slot s i) node"
    "names (fs s) (if_temp_path (slot s i)) = Some node" by (rule stagedD)
  have len: "length (contents (fs s) node) = unat (if_expected_size (slot s i))"
    using node(2) size by (auto simp: holds_def contents_Regular)
  obtain q f where dec: "decrypt_received_file so d (slot s i) key (fs s) = (q, f)" by fastforce
  obtain l g where l: "link d (if_temp_path (slot s i)) (if_final_path (slot s i)) f = (l, g)" by fastforce
  from run c i size dec l slot obtain n where q: "q = Inr n" and lr: "l = Inr ()"
    and s': "s' = (set_slot s i zero_incoming)\<lparr>fs := unlink d (if_temp_path (slot s i)) g\<rparr>"
    by (auto simp: receive_file_end_def Let_def split: sum.splits option.splits)
  from decrypt_effect(2) [OF dec node(1) q] len obtain data where
    data: "open_encrypted so (contents (fs s) node) (if_filename (slot s i)) key = Inr data"
    and f: "f = set_contents node data (fs s)" by auto
  have "names (fs s) (if_final_path (slot s i)) = None"
    "g = (set_contents node data (fs s))\<lparr>names := (names (fs s))(if_final_path (slot s i) \<mapsto> node)\<rparr>"
    using l lr f node(3) by (auto simp: link_def split: option.splits if_splits)
  then show ?thesis using c i node(1) len data s' by (intro exI [of _ tid] exI [of _ i] exI [of _ node] exI [of _ data]) simp
qed

text \<open>
  C3. A file is saved only if it is authentic and complete: when the last frame of a transfer
  is accepted, the staged bytes are exactly as many as announced and are the envelope of a
  box that opens, under the receiver's private key and the key in the envelope, to the
  announced file name and the file's contents. The file appears with these contents under
  its final name, which was not in use before, and the transfer is forgotten.
\<close>

theorem saved_file_authentic:
  assumes "receiver_inv dir pid s" and "box_sized so" and "receive_file_end so d frame key s = (Inr (), s')"
  shows "\<exists>tid i e node spk nonce box data.
    file_protocol_decode_control frame FRAME_FILE_END = Inr tid \<and> find_incoming_file s tid = Some i \<and>
    e = slot s i \<and> if_file e = Some node \<and>
    contents (fs s) node = file_envelope spk nonce box \<and>
    length (file_envelope spk nonce box) = unat (if_expected_size e) \<and>
    box_open so box nonce spk key = Some (file_plaintext (if_filename e) data) \<and>
    if_final_path e = dir @ str ''/'' @ if_filename e \<and>
    names (fs s) (if_final_path e) = None \<and> names (fs s') (if_final_path e) = Some node \<and>
    nodes (fs s') node = Regular data \<and> find_incoming_file s' tid = None"
proof -
  from receive_file_end_Inr [OF assms(1,3)] obtain tid i node data where
    c: "file_protocol_decode_control frame FRAME_FILE_END = Inr tid" and i: "find_incoming_file s tid = Some i"
    and node: "if_file (slot s i) = Some node" and len: "length (contents (fs s) node) = unat (if_expected_size (slot s i))"
    and enc: "open_encrypted so (contents (fs s) node) (if_filename (slot s i)) key = Inr data"
    and free: "names (fs s) (if_final_path (slot s i)) = None"
    and tab: "incoming_files s' = (incoming_files s)[i := zero_incoming]"
    and f: "fs s' = unlink d (if_temp_path (slot s i))
      ((set_contents node data (fs s))\<lparr>names := (names (fs s))(if_final_path (slot s i) \<mapsto> node)\<rparr>)"
    by blast
  note slot = find_incoming_slot [OF assms(1) i]
  have b: "begun dir (slot s i)" using slot(4) by (simp add: staged_def)
  then have "90 + length (if_filename (slot s i)) \<le> length (contents (fs s) node)"
    using len by (simp add: begun_def size_ok_def const_simps)
  from open_encrypted_sound [OF enc assms(2) this] obtain spk nonce box where
    box: "contents (fs s) node = file_envelope spk nonce box"
    "box_open so box nonce spk key = Some (file_plaintext (if_filename (slot s i)) data)" by blast
  have "if_temp_path (slot s i) \<noteq> if_final_path (slot s i)" using slot(4) free by (auto elim: stagedD)
  moreover have "find_incoming_file s' tid = None"
  proof -
    have "slot_lookup if_active if_transfer_id (incoming_files s') tid = None"
      using by_transfer.lookup_clear [of "incoming_files s" i zero_incoming] slot assms(1)
      by (simp add: tab receiver_inv_def slots_ok_def)
    then show ?thesis by (simp add: slot_lookup_def find_incoming_file_def)
  qed
  ultimately show ?thesis using c i node len box b free f by (auto simp: begun_def)
qed

section \<open>Failures\<close>

lemma discard_effect:
  assumes inv: "receiver_inv dir pid s" and i: "find_incoming_file s tid = Some i" and d: "dk_unlink d"
    and s': "s' = discard_incoming_file d i t" "incoming_files t = (incoming_files s)[i := e]"
      "if_temp_path e = if_temp_path (slot s i)" "names (fs t) = names (fs s)"
  shows "find_incoming_file s' tid = None \<and> names (fs s') = (names (fs s))(if_temp_path (slot s i) := None) \<and>
    incoming_files s' = (incoming_files s)[i := zero_incoming]"
proof -
  note slot = find_incoming_slot [OF inv i]
  have tab: "incoming_files s' = (incoming_files s)[i := zero_incoming]"
    using s' slot(6) by (simp add: discard_incoming_file_def Let_def)
  have "if_temp_path (slot s i) \<noteq> []" using slot(4) staging_name_nonempty unfolding staged_def staging_of_def by metis
  then have "names (fs s') = (names (fs s))(if_temp_path (slot s i) := None)"
    using s' slot(6) d by (simp add: discard_incoming_file_def Let_def)
  moreover have "slot_lookup if_active if_transfer_id (incoming_files s') tid = None"
    using by_transfer.lookup_clear [of "incoming_files s" i zero_incoming] slot inv
    by (simp add: tab receiver_inv_def slots_ok_def)
  ultimately show ?thesis using tab by (simp add: slot_lookup_def find_incoming_file_def)
qed

lemma chunk_failure_discards:
  assumes "receive_file_chunk d frame s = (Inl e, s')" "file_protocol_decode_chunk frame = Inr x"
    "find_incoming_file s (fc_transfer_id x) = Some i"
  shows "\<exists>f. s' = discard_incoming_file d i (s\<lparr>fs := f\<rparr>) \<and> names f = names (fs s)"
proof -
  have "s' = discard_incoming_file d i (s\<lparr>fs := fs s\<rparr>) \<or>
      (\<exists>node c. s' = discard_incoming_file d i (s\<lparr>fs := set_contents node c (fs s)\<rparr>))"
    using assms by (auto simp: receive_file_chunk_def Let_def split: if_splits option.splits)
  then show ?thesis using Fs_simps(4) by blast
qed

lemma end_failure_discards:
  assumes "receive_file_end so d frame key s = (Inl e, s')" "file_protocol_decode_control frame FRAME_FILE_END = Inr tid"
    and "receiver_inv dir pid s" "find_incoming_file s tid = Some i"
  shows "\<exists>f v. s' = discard_incoming_file d i ((set_slot s i ((slot s i)\<lparr>if_file := v\<rparr>))\<lparr>fs := f\<rparr>) \<and> names f = names (fs s)"
proof -
  note slot = find_incoming_slot [OF assms(3,4)]
  from slot(4) obtain node where node: "if_file (slot s i) = Some node" by (rule stagedD)
  obtain q f where dec: "decrypt_received_file so d (slot s i) key (fs s) = (q, f)" by fastforce
  have names: "names f = names (fs s)" using decrypt_effect(1) [OF dec node] by auto
  obtain l g where l: "link d (if_temp_path (slot s i)) (if_final_path (slot s i)) f = (l, g)" by fastforce
  have g: "\<exists>x. l = Inl x \<Longrightarrow> g = f" using l by (auto simp: link_def split: option.splits if_splits)
  have same: "s\<lparr>fs := h\<rparr> = (set_slot s i ((slot s i)\<lparr>if_file := if_file (slot s i)\<rparr>))\<lparr>fs := h\<rparr>" for h by simp
  have "s' = discard_incoming_file d i (s\<lparr>fs := fs s\<rparr>) \<or> s' = discard_incoming_file d i (s\<lparr>fs := f\<rparr>) \<or>
      s' = discard_incoming_file d i ((set_slot s i ((slot s i)\<lparr>if_file := None\<rparr>))\<lparr>fs := f\<rparr>)"
    using assms dec l g slot
    by (auto simp: receive_file_end_def Let_def Receiver_swap split: sum.splits option.splits if_splits)
  then show ?thesis using names same by metis
qed

lemma failure_discards:
  assumes "receiver_inv dir pid s" "find_incoming_file s tid = Some i"
    and "(\<exists>x. receive_file_chunk d frame s = (Inl err, s') \<and> file_protocol_decode_chunk frame = Inr x \<and> fc_transfer_id x = tid) \<or>
         (receive_file_end so d frame key s = (Inl err, s') \<and> file_protocol_decode_control frame FRAME_FILE_END = Inr tid)"
  obtains t e where "s' = discard_incoming_file d i t" "incoming_files t = (incoming_files s)[i := e]"
    "if_temp_path e = if_temp_path (slot s i)" "names (fs t) = names (fs s)"
  using assms(3)
proof
  assume "\<exists>x. receive_file_chunk d frame s = (Inl err, s') \<and> file_protocol_decode_chunk frame = Inr x \<and> fc_transfer_id x = tid"
  then obtain x where "receive_file_chunk d frame s = (Inl err, s')" "file_protocol_decode_chunk frame = Inr x"
    "find_incoming_file s (fc_transfer_id x) = Some i" using assms(2) by blast
  from chunk_failure_discards [OF this] obtain f where "s' = discard_incoming_file d i (s\<lparr>fs := f\<rparr>)" "names f = names (fs s)"
    by blast
  then show thesis by (intro that [of "s\<lparr>fs := f\<rparr>" "slot s i"]) simp_all
next
  assume "receive_file_end so d frame key s = (Inl err, s') \<and> file_protocol_decode_control frame FRAME_FILE_END = Inr tid"
  then obtain f v where "s' = discard_incoming_file d i ((set_slot s i ((slot s i)\<lparr>if_file := v\<rparr>))\<lparr>fs := f\<rparr>)"
    "names f = names (fs s)" using end_failure_discards assms(1,2) by blast
  then show thesis
    by (intro that [of "(set_slot s i ((slot s i)\<lparr>if_file := v\<rparr>))\<lparr>fs := f\<rparr>" "(slot s i)\<lparr>if_file := v\<rparr>"]) simp_all
qed

text \<open>
  C19. A transfer that fails leaves nothing behind. When a chunk is refused (too long, or not
  written) or the last frame is refused (bytes missing, not a box for this key, wrong name,
  final name taken, any system error), the slot is free again, the staging name is gone and no
  other name has changed, so no partial or unauthenticated file is ever visible.
\<close>

theorem failed_transfer_cleans:
  assumes "receiver_inv dir pid s" and "find_incoming_file s tid = Some i" and "dk_unlink d"
    and "(\<exists>x. receive_file_chunk d frame s = (Inl e, s') \<and> file_protocol_decode_chunk frame = Inr x \<and> fc_transfer_id x = tid) \<or>
         (receive_file_end so d frame key s = (Inl e, s') \<and> file_protocol_decode_control frame FRAME_FILE_END = Inr tid)"
  shows "find_incoming_file s' tid = None \<and> names (fs s') = (names (fs s))(if_temp_path (slot s i) := None) \<and>
    incoming_files s' = (incoming_files s)[i := zero_incoming]"
proof -
  obtain t c where "s' = discard_incoming_file d i t" "incoming_files t = (incoming_files s)[i := c]"
    "if_temp_path c = if_temp_path (slot s i)" "names (fs t) = names (fs s)"
    by (rule failure_discards [OF assms(1,2,4)])
  then show ?thesis by (rule discard_effect [OF assms(1-3)])
qed

section \<open>From the sender to the receiver\<close>

text \<open>A run of the handler over a list of frames, with the answers of the system for each.\<close>

primrec receive_frames ::
  "Sodium \<Rightarrow> bytes \<Rightarrow> bytes \<Rightarrow> (Disk \<times> bytes) list \<Rightarrow> Receiver \<Rightarrow> unit result list \<times> Receiver" where
  "receive_frames so dir key [] s = ([], s)"
| "receive_frames so dir key (x # xs) s =
     (let (r, s1) = handle_incoming_file_frame so (fst x) (snd x) dir key s; (rs, s2) = receive_frames so dir key xs s1
      in (r # rs, s2))"

lemma receive_frames_append:
  "receive_frames so dir key (xs @ ys) s =
     (let (rs, s1) = receive_frames so dir key xs s; (rs', s2) = receive_frames so dir key ys s1 in (rs @ rs', s2))"
  by (induction xs arbitrary: s) (auto simp: Let_def case_prod_beta)

text \<open>Answers of a system that works.\<close>

definition working :: "Disk \<Rightarrow> bool" where
  "working d \<longleftrightarrow> dk_mkdir d = None \<and> dk_stat d = Inr True \<and> dk_lstat d = None \<and> dk_fdopen d = None \<and> dk_append d = None \<and>
     dk_malloc d \<and> dk_rewind d = None \<and> dk_fread d \<and> dk_rewind2 d = None \<and> dk_rewrite d = None \<and> dk_fflush d = None \<and>
     dk_ftruncate d = None \<and> dk_fclose d = None \<and> dk_link d = None \<and> dk_unlink d"


lemma find_incoming_unique:
  assumes "receiver_inv dir pid s" "i < MAX_INCOMING_FILES" "if_active (slot s i)"
  shows "find_incoming_file s (if_transfer_id (slot s i)) = Some i"
  unfolding find_incoming_file_def
proof (rule find_slot_unique)
  show "i < length (incoming_files s)" using assms by (simp add: receiver_inv_def slots_ok_def)
  fix j
  assume "j < length (incoming_files s)" "if_active (slot s j) \<and> if_transfer_id (slot s j) = if_transfer_id (slot s i)"
  then show "j = i" using assms by (auto simp: receiver_inv_def slots_ok_def dest: by_transfer.uniqueD)
qed (use assms in simp)

text \<open>The state in the middle of a transfer that started in \<open>s0\<close>; \<open>c\<close> has been received.\<close>

definition receiving :: "bytes \<Rightarrow> u32 \<Rightarrow> Receiver \<Rightarrow> nat \<Rightarrow> u32 \<Rightarrow> bytes \<Rightarrow> u64 \<Rightarrow> bytes \<Rightarrow> Receiver \<Rightarrow> bool" where
  "receiving dir pid s0 i tid name n c s \<longleftrightarrow> receiver_inv dir pid s \<and> find_incoming_file s tid = Some i \<and>
     slot s0 i = zero_incoming \<and> (\<exists>e. incoming_files s = (incoming_files s0)[i := e]) \<and>
     if_filename (slot s i) = name \<and> if_expected_size (slot s i) = n \<and>
     (\<exists>node. if_file (slot s i) = Some node \<and> nodes (fs s) node = Regular c) \<and> names (fs s) (dir @ str ''/'' @ name) = None"

lemma receiving_slot:
  assumes "receiving dir pid s0 i tid name n c s"
  obtains node where "if_file (slot s i) = Some node" "nodes (fs s) node = Regular c"
    "names (fs s) (if_temp_path (slot s i)) = Some node" "unat (if_received_size (slot s i)) = length c"
    "if_received_size (slot s i) \<le> n" "if_final_path (slot s i) = dir @ str ''/'' @ name"
proof -
  have inv: "receiver_inv dir pid s" "find_incoming_file s tid = Some i" using assms by (simp_all add: receiving_def)
  note slot = find_incoming_slot [OF inv]
  from slot(4) obtain node where node: "if_file (slot s i) = Some node" "holds (fs s) (slot s i) node"
    "names (fs s) (if_temp_path (slot s i)) = Some node" by (rule stagedD)
  then show thesis using assms slot(4) by (intro that) (auto simp: receiving_def holds_def staged_def begun_def)
qed

lemma chunk_received:
  assumes rec: "receiving dir pid s0 i tid name n c s" and d: "working d" "dk_pid d = pid" "length dir \<le> 4000"
    and b: "0 < length b" "length b \<le> FILE_CHUNK_SIZE" "length c + length b \<le> unat n"
  shows "\<exists>s'. handle_incoming_file_frame so d (frame_byte FRAME_FILE_CHUNK # write_u32 tid @ b) dir key s = (Inr (), s') \<and>
    receiving dir pid s0 i tid name n (c @ b) s'"
proof -
  obtain node where node: "if_file (slot s i) = Some node" "nodes (fs s) node = Regular c"
    and size: "unat (if_received_size (slot s i)) = length c" "if_received_size (slot s i) \<le> n"
    by (rule receiving_slot [OF rec])
  have inv: "receiver_inv dir pid s" "find_incoming_file s tid = Some i" "if_expected_size (slot s i) = n"
    using rec by (simp_all add: receiving_def)
  note slot = find_incoming_slot [OF inv(1,2)]
  let ?frame = "frame_byte FRAME_FILE_CHUNK # write_u32 tid @ b"
  have dec: "file_protocol_decode_chunk ?frame = Inr \<lparr>fc_transfer_id = tid, fc_data = b\<rparr>"
    using b by (subst decode_chunk_Inr) (simp add: encode_chunk_def encode_chunk_Inr const_simps)
  have len: "unat (of_nat (length b) :: u64) = length b" using b by (simp add: const_simps unat_of_nat)
  have fits: "\<not> (if_expected_size (slot s i) < if_received_size (slot s i) \<or>
      of_nat (length b) > if_expected_size (slot s i) - if_received_size (slot s i))"
    using b(3) size inv(3) by (auto simp: not_less word_le_nat_alt unat_sub len)
  let ?e = "(slot s i)\<lparr>if_received_size := if_received_size (slot s i) + of_nat (length b)\<rparr>"
  let ?s' = "(set_slot s i ?e)\<lparr>fs := set_contents node (c @ b) (fs s)\<rparr>"
  have run: "handle_incoming_file_frame so d ?frame dir key s = (Inr (), ?s')"
    using dec inv(2) fits node d(1)
    by (simp add: handle_incoming_file_frame_def FrameType_of_def receive_file_chunk_def Let_def working_def
        contents_Regular)
  then have "receiver_inv dir pid ?s'" using handle_incoming_sound [OF inv(1) d(2,3) run] by (simp add: sound_def)
  moreover have "find_incoming_file ?s' tid = Some i"
    using find_incoming_unique [OF calculation slot(1)] slot by simp
  ultimately have "receiving dir pid s0 i tid name n (c @ b) ?s'"
    using rec node slot(6) by (auto simp: receiving_def)
  then show ?thesis using run by blast
qed

lemma chunks_received:
  "receiving dir pid s0 i tid name n c s \<Longrightarrow>
   (\<And>d b. (d, b) \<in> set xs \<Longrightarrow> working d \<and> dk_pid d = pid \<and> 0 < length b \<and> length b \<le> FILE_CHUNK_SIZE) \<Longrightarrow>
   length dir \<le> 4000 \<Longrightarrow> length c + length (concat (map snd xs)) \<le> unat n \<Longrightarrow>
   \<exists>s'. receive_frames so dir key (map (\<lambda>(d, b). (d, frame_byte FRAME_FILE_CHUNK # write_u32 tid @ b)) xs) s =
       (replicate (length xs) (Inr ()), s') \<and> receiving dir pid s0 i tid name n (c @ concat (map snd xs)) s'"
proof (induction xs arbitrary: c s)
  case Nil
  then show ?case by simp
next
  case (Cons x xs)
  obtain d b where x: "x = (d, b)" by fastforce
  have pre: "working d" "dk_pid d = pid" "0 < length b" "length b \<le> FILE_CHUNK_SIZE" "length c + length b \<le> unat n"
    using Cons.prems(2) [of d b] Cons.prems(4) by (simp_all add: x)
  from chunk_received [OF Cons.prems(1) pre(1,2) Cons.prems(3) pre(3-5), of so key] obtain s1 where
    s1: "handle_incoming_file_frame so d (frame_byte FRAME_FILE_CHUNK # write_u32 tid @ b) dir key s = (Inr (), s1)"
    "receiving dir pid s0 i tid name n (c @ b) s1" by blast
  have "\<exists>s'. receive_frames so dir key (map (\<lambda>(d, b). (d, frame_byte FRAME_FILE_CHUNK # write_u32 tid @ b)) xs) s1 =
       (replicate (length xs) (Inr ()), s') \<and> receiving dir pid s0 i tid name n ((c @ b) @ concat (map snd xs)) s'"
    using Cons.prems by (intro Cons.IH [OF s1(2)]) (auto simp: x)
  then show ?case using s1(1) by (auto simp: x)
qed

lemma end_received:
  assumes rec: "receiving dir pid s0 i tid name n c s" and d: "working d" and size: "length c = unat n"
    and enc: "open_encrypted so c name key = Inr data"
  shows "\<exists>s' node. handle_incoming_file_frame so d (frame_byte FRAME_FILE_END # write_u32 tid) dir key s = (Inr (), s') \<and>
    incoming_files s' = incoming_files s0 \<and> names (fs s') (dir @ str ''/'' @ name) = Some node \<and>
    nodes (fs s') node = Regular data"
proof -
  obtain node where node: "if_file (slot s i) = Some node" "nodes (fs s) node = Regular c"
    "names (fs s) (if_temp_path (slot s i)) = Some node" "unat (if_received_size (slot s i)) = length c"
    "if_final_path (slot s i) = dir @ str ''/'' @ name"
    by (rule receiving_slot [OF rec])
  obtain e where inv: "receiver_inv dir pid s" "find_incoming_file s tid = Some i" "if_expected_size (slot s i) = n"
    "if_filename (slot s i) = name" "names (fs s) (dir @ str ''/'' @ name) = None"
    "incoming_files s = (incoming_files s0)[i := e]" "slot s0 i = zero_incoming"
    using rec by (auto simp: receiving_def)
  note slot = find_incoming_slot [OF inv(1,2)]
  have full: "if_received_size (slot s i) = if_expected_size (slot s i)"
    using node(4) size inv(3) by (simp add: word_unat_eq_iff)
  have dec: "decrypt_received_file so d (slot s i) key (fs s) = (Inr (length data), set_contents node data (fs s))"
    using d enc size inv(3,4) node(1) contents_Regular [OF node(2)]
    by (simp add: decrypt_received_file_def Let_def working_def truncated_def)
  let ?f = "(set_contents node data (fs s))\<lparr>names := (names (fs s))(dir @ str ''/'' @ name \<mapsto> node)\<rparr>"
  have link: "link d (if_temp_path (slot s i)) (if_final_path (slot s i)) (set_contents node data (fs s)) = (Inr (), ?f)"
    using d node(3,5) inv(5) by (simp add: link_def working_def)
  let ?s' = "(set_slot s i zero_incoming)\<lparr>fs := unlink d (if_temp_path (slot s i)) ?f\<rparr>"
  have ctl: "file_protocol_decode_control (frame_byte FRAME_FILE_END # write_u32 tid) FRAME_FILE_END = Inr tid"
    by (subst decode_control_Inr) simp_all
  have "receive_file_end so d (frame_byte FRAME_FILE_END # write_u32 tid) key s = (Inr (), ?s')"
    using d inv(2) full dec link slot(6) unfolding receive_file_end_def ctl by (simp add: Let_def working_def)
  then have "handle_incoming_file_frame so d (frame_byte FRAME_FILE_END # write_u32 tid) dir key s = (Inr (), ?s')"
    by (simp add: handle_incoming_file_frame_def FrameType_of_def)
  moreover have "incoming_files ?s' = incoming_files s0"
  proof -
    have "incoming_files ?s' = (incoming_files s0)[i := zero_incoming]" using inv(6) by simp
    then show ?thesis using list_update_id [of "incoming_files s0" i] inv(7) by simp
  qed
  moreover have "if_temp_path (slot s i) \<noteq> dir @ str ''/'' @ name" using node(3) inv(5) by auto
  then have "names (fs ?s') (dir @ str ''/'' @ name) = Some node" "nodes (fs ?s') node = Regular data"
    using d by (simp_all add: working_def)
  ultimately show ?thesis by blast
qed


text \<open>What a first frame needs to be accepted: a free slot, and two names that are not in use.\<close>

definition can_begin :: "bytes \<Rightarrow> u32 \<Rightarrow> Disk \<Rightarrow> nat \<Rightarrow> Receiver \<Rightarrow> u32 \<Rightarrow> bytes \<Rightarrow> bool" where
  "can_begin dir pid d i s tid name \<longleftrightarrow> receiver_inv dir pid s \<and> working d \<and> dk_pid d = pid \<and> dir \<noteq> [] \<and> length dir \<le> 3800 \<and>
     find_incoming_file s tid = None \<and> find_slot (\<lambda>e. \<not> if_active e) (incoming_files s) = Some i \<and>
     names (fs s) (dir @ str ''/'' @ name) = None \<and> \<not> is_staging dir (dir @ str ''/'' @ name) \<and>
     (\<exists>n. dk_mkstemp d = Inr n \<and> names (fs s) (staging_name dir pid tid n) = None)"

lemma ensure_working:
  assumes "working d" "dir \<noteq> []"
  shows "ensure_download_directory d dir f = (Inr (), if names f dir = None then create_node dir Directory f else f)"
  using assms by (auto simp: ensure_download_directory_def mkdir_def working_def)

lemma open_staging_success:
  assumes "i < length (incoming_files t)" "build_path DOWNLOAD_PATH_LIMIT dir (if_filename (slot t i)) = Inr final"
    "lstat d final (fs t) = Inl ENOENT" "mkstemp d (temp_template d dir tid) (fs t) = (Inr node, temp, g)"
    "length dir \<le> 4000" "dk_fdopen d = None"
  shows "open_staging_file d dir tid i t =
    (Inr (), (set_slot t i ((slot t i)\<lparr>if_final_path := final, if_temp_path := temp, if_file := Some node\<rparr>))\<lparr>fs := g\<rparr>)"
  using assms temp_template_fits [OF assms(5), of d tid]
  by (simp add: open_staging_file_def Let_def snprintf_template [OF assms(5)] Receiver_swap)

lemma begin_opened:
  assumes dec: "file_protocol_decode_begin frame = Inr x" and x: "fb_transfer_id x = tid" "fb_filename x = name" "\<not> size_unacceptable x"
    and dir: "working d" "dir \<noteq> []" "length dir \<le> 3800" and slot: "find_incoming_file s tid = None"
      "find_slot (\<lambda>e. \<not> if_active e) (incoming_files s) = Some i" "i < length (incoming_files s)"
  defines "f \<equiv> if names (fs s) dir = None then create_node dir Directory (fs s) else fs s"
  assumes disk: "dk_pid d = pid" "dk_mkstemp d = Inr n"
    and free: "names f (dir @ str ''/'' @ name) = None" "names f (staging_name dir pid tid n) = None"
  shows "receive_file_begin d frame dir s = (Inr (), (set_slot s i (zero_incoming\<lparr>if_active := True, if_transfer_id := tid,
      if_sender := fb_peer x, if_filename := name, if_expected_size := fb_file_size x, if_final_path := dir @ str ''/'' @ name,
      if_temp_path := staging_name dir pid tid n, if_file := Some (next_node f)\<rparr>))
      \<lparr>fs := create_node (staging_name dir pid tid n) (Regular []) f\<rparr>)"
proof -
  let ?final = "dir @ str ''/'' @ name" and ?temp = "staging_name dir pid tid n"
  have path: "build_path DOWNLOAD_PATH_LIMIT dir name = Inr ?final"
    using decode_begin_valid [OF dec] x(2) dir(3) by (simp add: build_path_Inr const_simps)
  have stat: "lstat d ?final f = Inl ENOENT" using dir(1) free(1) by (simp add: lstat_def working_def)
  have mk: "mkstemp d (temp_template d dir tid) f = (Inr (next_node f), ?temp, create_node ?temp (Regular []) f)"
    using disk free(2) by (simp add: mkstemp_def mkstemp_path_template Let_def)
  define e0 where "e0 = zero_incoming\<lparr>if_active := True, if_transfer_id := tid, if_sender := fb_peer x,
      if_filename := name, if_expected_size := fb_file_size x\<rparr>"
  have create: "create_incoming_file (s\<lparr>fs := f\<rparr>) tid =
      (Inr i, set_slot (s\<lparr>fs := f\<rparr>) i (zero_incoming\<lparr>if_active := True, if_transfer_id := tid\<rparr>))"
    using slot(1,2) by (simp add: create_incoming_file_def find_incoming_file_def)
  have t: "slot ((set_slot s i e0)\<lparr>fs := f\<rparr>) i = e0" "i < length (incoming_files ((set_slot s i e0)\<lparr>fs := f\<rparr>))"
    "if_filename e0 = name" using slot(3) by (simp_all add: e0_def)
  have "open_staging_file d dir tid i ((set_slot s i e0)\<lparr>fs := f\<rparr>) =
      (Inr (), (set_slot s i (e0\<lparr>if_final_path := ?final, if_temp_path := ?temp, if_file := Some (next_node f)\<rparr>))
         \<lparr>fs := create_node ?temp (Regular []) f\<rparr>)"
    using open_staging_success [of i "(set_slot s i e0)\<lparr>fs := f\<rparr>" dir ?final d tid "next_node f" ?temp] t path stat mk dir(1,3)
    by (simp del: str_Cons add: working_def)
  moreover have "set_slot (set_slot (s\<lparr>fs := f\<rparr>) i (zero_incoming\<lparr>if_active := True, if_transfer_id := tid\<rparr>)) i
      ((zero_incoming\<lparr>if_active := True, if_transfer_id := tid\<rparr>)\<lparr>if_sender := fb_peer x,
      if_filename := name, if_expected_size := fb_file_size x\<rparr>) = (set_slot s i e0)\<lparr>fs := f\<rparr>"
    by (simp add: e0_def)
  moreover have "e0\<lparr>if_final_path := ?final, if_temp_path := ?temp, if_file := Some (next_node f)\<rparr> =
      zero_incoming\<lparr>if_active := True, if_transfer_id := tid, if_sender := fb_peer x, if_filename := name,
        if_expected_size := fb_file_size x, if_final_path := ?final, if_temp_path := ?temp, if_file := Some (next_node f)\<rparr>"
    by (simp add: e0_def)
  ultimately show ?thesis
    unfolding receive_file_begin_def dec sum.case if_not_P [OF x(3)] ensure_working [OF dir(1,2)] prod.case x f_def [symmetric] create
    using slot(3) by simp
qed

lemma begin_received:
  assumes can: "can_begin dir pid d i s tid name" and dec: "file_protocol_decode_begin frame = Inr x"
    and x: "fb_transfer_id x = tid" "fb_filename x = name" "\<not> size_unacceptable x"
  shows "\<exists>s'. handle_incoming_file_frame so d frame dir key s = (Inr (), s') \<and>
    receiving dir pid s i tid name (fb_file_size x) [] s'"
proof -
  from can obtain n where c: "receiver_inv dir pid s" "working d" "dk_pid d = pid" "dir \<noteq> []" "length dir \<le> 4000"
    "find_incoming_file s tid = None" "find_slot (\<lambda>e. \<not> if_active e) (incoming_files s) = Some i"
    "names (fs s) (dir @ str ''/'' @ name) = None" "dk_mkstemp d = Inr n" "names (fs s) (staging_name dir pid tid n) = None"
    "\<not> is_staging dir (dir @ str ''/'' @ name)" "length dir \<le> 3800"
    by (auto simp: can_begin_def)
  let ?final = "dir @ str ''/'' @ name" and ?temp = "staging_name dir pid tid n"
  have i: "i < length (incoming_files s)" "i < MAX_INCOMING_FILES" "slot s i = zero_incoming"
    using c(1,7) slots_okD [of dir pid "{}" s i] by (auto simp: find_slot_Some receiver_inv_def slots_ok_def slot_ok_def)
  let ?f = "if names (fs s) dir = None then create_node dir Directory (fs s) else fs s"
  have dirs: "dir \<noteq> ?final" "dir \<noteq> ?temp" by (simp_all add: staging_name_def)
  have apart: "?final \<noteq> ?temp" using c(11) is_staging_name by metis
  have free: "names ?f ?final = None" "names ?f ?temp = None" using c(8,10) dirs by auto
  let ?e = "zero_incoming\<lparr>if_active := True, if_transfer_id := tid, if_sender := fb_peer x, if_filename := name,
     if_expected_size := fb_file_size x, if_final_path := ?final, if_temp_path := ?temp, if_file := Some (next_node ?f)\<rparr>"
  let ?s' = "(set_slot s i ?e)\<lparr>fs := create_node ?temp (Regular []) ?f\<rparr>"
  have opened: "receive_file_begin d frame dir s = (Inr (), ?s')"
    by (rule begin_opened [OF dec x c(2,4,12,6,7) i(1) c(3,9) free])
  have "frame \<noteq> []" "frame ! 0 = 0"
    using dec by (auto simp: file_protocol_decode_begin_def Let_def const_simps split: if_splits)
  then have run: "handle_incoming_file_frame so d frame dir key s = (Inr (), ?s')"
    using opened by (simp add: handle_incoming_file_frame_def FrameType_of_def)
  have inv: "receiver_inv dir pid ?s'" using handle_incoming_sound [OF c(1,3,5) run] by (simp add: sound_def)
  have "find_incoming_file ?s' tid = Some i" using find_incoming_unique [OF inv i(2)] i(1) by simp
  moreover have "names (fs ?s') ?final = None" using free(1) apart by simp
  ultimately have "receiving dir pid s i tid name (fb_file_size x) [] ?s'"
    using inv i by (auto simp: receiving_def)
  then show ?thesis using run by blast
qed


lemma decode_begin_payload:
  assumes "file_protocol_valid_peer_name peer" "file_protocol_valid_filename name"
  shows "file_protocol_decode_begin (frame_byte FRAME_FILE_BEGIN # begin_payload tid n peer name) =
    Inr \<lparr>fb_transfer_id = tid, fb_file_size = n, fb_peer = peer, fb_filename = name\<rparr>"
  by (rule decode_encode_begin) (simp add: encode_begin_def encode_begin_payload assms)

lemma size_acceptable_envelope:
  assumes "length name < 256" "length data \<le> FILE_PLAINTEXT_MAX_SIZE" "fb_filename x = name"
    and "fb_file_size x = of_nat (90 + length name + length data)"
  shows "\<not> size_unacceptable x" "unat (fb_file_size x) = 90 + length name + length data"
proof -
  let ?o = "FILE_CRYPTO_OVERHEAD + length name"
  have small: "90 + length name + length data < 2 ^ 64" using assms(1,2) by (simp add: const_simps)
  then show u: "unat (fb_file_size x) = 90 + length name + length data"
    unfolding assms(4) unat_of_nat by simp
  have o: "unat (of_nat ?o :: u64) = ?o" using assms(1) by (simp add: const_simps unat_of_nat flip: of_nat_add)
  have "?o = 90 + length name" by (simp add: const_simps)
  then have le: "(of_nat ?o :: u64) \<le> fb_file_size x" unfolding word_le_nat_alt o u by simp
  have "unat (of_nat FILE_PLAINTEXT_MAX_SIZE :: u64) = FILE_PLAINTEXT_MAX_SIZE" by (simp add: const_simps)
  then have "fb_file_size x - of_nat ?o \<le> of_nat FILE_PLAINTEXT_MAX_SIZE"
    unfolding word_le_nat_alt unat_sub [OF le] o u using assms(2) \<open>?o = 90 + length name\<close> by simp
  with le show "\<not> size_unacceptable x" by (simp add: size_unacceptable_def Let_def assms(3) not_less)
qed

text \<open>
  The frames of a transfer, with the answers of the system for each, are received; \<open>enc\<close> is
  the envelope of a box that opens to the name and the data.
\<close>

lemma transfer_received:
  assumes can: "can_begin dir pid d0 i s tid name"
    and names: "file_protocol_valid_peer_name peer" "file_protocol_valid_filename name"
    and box: "length spk = 32" "length nonce = 24" "length data \<le> FILE_PLAINTEXT_MAX_SIZE" "box_sized so"
      "box_open so box nonce spk key = Some (file_plaintext name data)" "enc = file_envelope spk nonce box"
    and ds: "length ds = length (file_chunks enc)" "\<And>d. d \<in> set ds \<Longrightarrow> working d \<and> dk_pid d = pid" "working d1"
  shows "\<exists>s' node. receive_frames so dir key
      ((d0, frame_byte FRAME_FILE_BEGIN # begin_payload tid (of_nat (length enc)) peer name) #
       map (\<lambda>(d, b). (d, frame_byte FRAME_FILE_CHUNK # write_u32 tid @ b)) (zip ds (file_chunks enc)) @
       [(d1, frame_byte FRAME_FILE_END # write_u32 tid)]) s = (replicate (length (file_chunks enc) + 2) (Inr ()), s') \<and>
    incoming_files s' = incoming_files s \<and> names (fs s') (dir @ str ''/'' @ name) = Some node \<and>
    nodes (fs s') node = Regular data"
proof -
  have name: "length name < 256" using names(2) by (rule valid_name_lengths)
  have "length box = 26 + length name + length data" using box_open_length [OF box(4,5)] by simp
  then have len: "length enc = 90 + length name + length data" using box(1,2,6) by simp
  let ?x = "\<lparr>fb_transfer_id = tid, fb_file_size = of_nat (length enc), fb_peer = peer, fb_filename = name\<rparr>"
  have size: "\<not> size_unacceptable ?x" "unat (fb_file_size ?x) = length enc"
    using size_acceptable_envelope [OF name box(3), of ?x] unfolding len by simp_all
  have dir: "length dir \<le> 4000" using can by (simp add: can_begin_def)
  from begin_received [OF can decode_begin_payload [OF names] _ _ size(1), of so key] obtain s1 where
    s1: "handle_incoming_file_frame so d0 (frame_byte FRAME_FILE_BEGIN # begin_payload tid (of_nat (length enc)) peer name)
           dir key s = (Inr (), s1)"
    and r1: "receiving dir pid s i tid name (of_nat (length enc)) [] s1" by auto
  have ok: "working d \<and> dk_pid d = pid \<and> 0 < length b \<and> length b \<le> FILE_CHUNK_SIZE"
    if "(d, b) \<in> set (zip ds (file_chunks enc))" for d b
    using ds(2) file_chunks_sizes set_zip_leftD [OF that] set_zip_rightD [OF that] by blast
  have cat: "concat (map snd (zip ds (file_chunks enc))) = enc" using ds(1) by simp
  have "length ([] :: bytes) + length (concat (map snd (zip ds (file_chunks enc)))) \<le> unat (of_nat (length enc) :: u64)"
    unfolding cat using size(2) by simp
  from chunks_received [OF r1 ok dir this, of so key] obtain s2 where
    s2: "receive_frames so dir key (map (\<lambda>(d, b). (d, frame_byte FRAME_FILE_CHUNK # write_u32 tid @ b)) (zip ds (file_chunks enc))) s1 =
       (replicate (length (file_chunks enc)) (Inr ()), s2)"
    and r2: "receiving dir pid s i tid name (of_nat (length enc)) enc s2" unfolding cat using ds(1) by auto
  have "open_encrypted so enc name key = Inr data" unfolding box(6) by (rule open_envelope [OF box(1,2) name box(5)])
  from end_received [OF r2 ds(3) _ this] size(2) obtain s' node where
    s': "handle_incoming_file_frame so d1 (frame_byte FRAME_FILE_END # write_u32 tid) dir key s2 = (Inr (), s')"
    and res: "incoming_files s' = incoming_files s" "names (fs s') (dir @ str ''/'' @ name) = Some node"
      "nodes (fs s') node = Regular data" by auto
  have "receive_frames so dir key
      ((d0, frame_byte FRAME_FILE_BEGIN # begin_payload tid (of_nat (length enc)) peer name) #
       map (\<lambda>(d, b). (d, frame_byte FRAME_FILE_CHUNK # write_u32 tid @ b)) (zip ds (file_chunks enc)) @
       [(d1, frame_byte FRAME_FILE_END # write_u32 tid)]) s = (replicate (length (file_chunks enc) + 2) (Inr ()), s')"
    using s1 s2 s' by (simp add: receive_frames_append Let_def case_prod_beta replicate_append_same del: frame_byte.simps)
  then show ?thesis using res by blast
qed


section \<open>Examples\<close>

definition example_disk :: Disk where
  "example_disk = \<lparr>dk_pid = 7, dk_mkdir = None, dk_stat = Inr True, dk_lstat = None, dk_mkstemp = Inr 0, dk_fdopen = None,
     dk_append = None, dk_malloc = True, dk_rewind = None, dk_fread = True, dk_rewind2 = None, dk_rewrite = None,
     dk_fflush = None, dk_ftruncate = None, dk_fclose = None, dk_link = None, dk_unlink = True\<rparr>"

definition example_fs :: Fs where
  "example_fs = \<lparr>names = [str ''downloads/keep'' \<mapsto> 0], nodes = (\<lambda>_. Regular [9]), next_node = 1\<rparr>"

definition example_receiver :: Receiver where
  "example_receiver = static_receiver example_fs"

lemma example_disk_simps: "working example_disk" "dk_pid example_disk = 7" "dk_mkstemp example_disk = Inr 0" "dk_unlink example_disk"
  by (simp_all add: example_disk_def working_def)

lemma example_fs_fresh: "fresh_nodes example_fs"
  by (simp add: fresh_nodes_def example_fs_def)

lemma example_receiver_inv: "receiver_inv dir pid example_receiver"
  by (simp add: example_receiver_def static_receiver_inv example_fs_fresh)

lemma example_can_begin: "can_begin (str ''downloads'') 7 example_disk 0 example_receiver tid (str ''b.txt'')"
proof -
  have "find_incoming_file example_receiver tid = None"
    "find_slot (\<lambda>e. \<not> if_active e) (incoming_files example_receiver) = Some 0"
    by (simp_all add: find_incoming_file_def example_receiver_def static_receiver_def const_simps)
  moreover have "names (fs example_receiver) (str ''downloads'' @ str ''/'' @ str ''b.txt'') = None"
    "\<not> is_staging (str ''downloads'') (str ''downloads'' @ str ''/'' @ str ''b.txt'')"
    "names (fs example_receiver) (staging_name (str ''downloads'') 7 tid 0) = None"
    by (simp_all add: example_receiver_def static_receiver_def example_fs_def is_staging_def staging_name_def)
  ultimately show ?thesis
    using example_receiver_inv example_disk_simps by (simp add: can_begin_def)
qed

lemma example_begun:
  "\<exists>s'. handle_incoming_file_frame so example_disk
      (frame_byte FRAME_FILE_BEGIN # begin_payload 1 98 (str ''alice'') (str ''b.txt'')) (str ''downloads'') key example_receiver =
      (Inr (), s') \<and> receiving (str ''downloads'') 7 example_receiver 0 1 (str ''b.txt'') 98 [] s'"
proof -
  have peer: "file_protocol_valid_peer_name (str ''alice'')"
    by (simp add: file_protocol_valid_peer_name_def isspace_def iscntrl_def const_simps)
  let ?x = "\<lparr>fb_transfer_id = 1, fb_file_size = 98, fb_peer = str ''alice'', fb_filename = str ''b.txt''\<rparr>"
  have "\<not> size_unacceptable ?x" by (simp add: size_unacceptable_def Let_def const_simps)
  from begin_received [OF example_can_begin decode_begin_payload [OF peer example_sender_names(3)] _ _ this, where so = so and key = key]
  show ?thesis by simp
qed

definition example_envelope :: bytes where
  "example_envelope = file_envelope (replicate 32 2) (replicate 24 5) example_box"

lemma length_example_envelope: "length example_envelope = 98"
  by (simp add: example_envelope_def example_box_def)

lemma example_staged:
  "\<exists>s'. receiving (str ''downloads'') 7 example_receiver 0 1 (str ''b.txt'') 98 example_envelope s'"
proof -
  obtain s1 where s1: "receiving (str ''downloads'') 7 example_receiver 0 1 (str ''b.txt'') 98 [] s1"
    using example_begun by blast
  have "0 < length example_envelope" "length example_envelope \<le> FILE_CHUNK_SIZE"
    "length ([] :: bytes) + length example_envelope \<le> unat (98 :: u64)" "length (str ''downloads'') \<le> 4000"
    by (simp_all add: length_example_envelope const_simps)
  from chunk_received [OF s1 example_disk_simps(1,2) this(4,1-3)] show ?thesis by auto
qed

lemma example_opens:
  "open_encrypted example_sodium example_envelope (str ''b.txt'') key = Inr [1, 2, 3]"
  unfolding example_envelope_def
proof (rule open_envelope)
  show "box_open example_sodium example_box (replicate 24 5) (replicate 32 2) key =
      Some (file_plaintext (str ''b.txt'') [1, 2, 3])"
    by (simp add: example_sodium_def example_box_def comp_def del: str_Cons)
qed simp_all

theorem receiver_always_wf_witness:
  "\<exists>s. receiver_run (str ''downloads'') 7 (static_receiver example_fs) s \<and> find_incoming_file s 1 = Some 0 \<and>
     receiver_inv (str ''downloads'') 7 s"
proof -
  obtain s where s: "handle_incoming_file_frame example_sodium example_disk
      (frame_byte FRAME_FILE_BEGIN # begin_payload 1 98 (str ''alice'') (str ''b.txt'')) (str ''downloads'') [] example_receiver =
      (Inr (), s)" "find_incoming_file s 1 = Some 0"
    using example_begun unfolding receiving_def by blast
  have run: "receiver_run (str ''downloads'') 7 (static_receiver example_fs) s"
    using receiver_run.step [OF receiver_run.start receiver_step.frame [OF example_disk_simps(2) s(1)]]
    by (simp only: example_receiver_def)
  have "length (str ''downloads'') \<le> 4000" by simp
  with receiver_always_wf [OF run example_fs_fresh] s(2) run show ?thesis by blast
qed

theorem receiver_confined_witness:
  "\<exists>s. handle_incoming_file_frame example_sodium example_disk
      (frame_byte FRAME_FILE_BEGIN # begin_payload 1 98 (str ''alice'') (str ''b.txt'')) (str ''downloads'') [] example_receiver =
      (Inr (), s) \<and> names (fs s) (str ''downloads/keep'') = Some 0 \<and> nodes (fs s) 0 = Regular [9]"
proof -
  obtain s where s: "handle_incoming_file_frame example_sodium example_disk
      (frame_byte FRAME_FILE_BEGIN # begin_payload 1 98 (str ''alice'') (str ''b.txt'')) (str ''downloads'') [] example_receiver =
      (Inr (), s)" using example_begun by blast
  have keep: "names (fs example_receiver) (str ''downloads/keep'') = Some 0" "nodes (fs example_receiver) 0 = Regular [9]"
    "\<not> is_staging (str ''downloads'') (str ''downloads/keep'')"
    by (simp_all add: example_receiver_def static_receiver_def example_fs_def is_staging_def)
  have dir: "length (str ''downloads'') \<le> 4000" by simp
  note conjunct1 [OF receiver_confined [OF example_receiver_inv example_disk_simps(2) dir s], rule_format, OF keep(1,3)]
  then show ?thesis using s unfolding keep(2) by blast
qed

theorem saved_file_authentic_witness:
  "\<exists>s s' node. receive_file_end example_sodium example_disk (frame_byte FRAME_FILE_END # write_u32 1) [] s = (Inr (), s') \<and>
     nodes (fs s') node = Regular [1, 2, 3] \<and> find_incoming_file s' 1 = None"
proof -
  obtain s where s: "receiving (str ''downloads'') 7 example_receiver 0 1 (str ''b.txt'') 98 example_envelope s"
    using example_staged by blast
  have "length example_envelope = unat (98 :: u64)" by (simp add: length_example_envelope)
  from end_received [OF s example_disk_simps(1) this example_opens] obtain s' node where
    "handle_incoming_file_frame example_sodium example_disk (frame_byte FRAME_FILE_END # write_u32 1) (str ''downloads'') [] s =
      (Inr (), s')" "nodes (fs s') node = Regular [1, 2, 3]" by blast
  then have run: "receive_file_end example_sodium example_disk (frame_byte FRAME_FILE_END # write_u32 1) [] s = (Inr (), s')"
    and node: "nodes (fs s') node = Regular [1, 2, 3]"
    by (simp_all add: handle_incoming_file_frame_def FrameType_of_def)
  have ctl: "file_protocol_decode_control (frame_byte FRAME_FILE_END # write_u32 1) FRAME_FILE_END = Inr 1"
    by (subst decode_control_Inr) simp_all
  have inv: "receiver_inv (str ''downloads'') 7 s" using s by (simp add: receiving_def)
  have "find_incoming_file s' 1 = None"
    using saved_file_authentic [OF inv example_sodium_laws(1) run] unfolding ctl by blast
  then show ?thesis using run node by blast
qed

theorem failed_transfer_cleans_witness:
  "\<exists>s s'. find_incoming_file s 1 = Some 0 \<and>
     receive_file_end example_sodium example_disk (frame_byte FRAME_FILE_END # write_u32 1) [] s = (Inl EIO, s') \<and>
     find_incoming_file s' 1 = None"
proof -
  obtain s where s: "receiving (str ''downloads'') 7 example_receiver 0 1 (str ''b.txt'') 98 [] s"
    using example_begun by blast
  then have inv: "receiver_inv (str ''downloads'') 7 s" "find_incoming_file s 1 = Some 0" "if_expected_size (slot s 0) = 98"
    by (simp_all add: receiving_def)
  obtain node where "unat (if_received_size (slot s 0)) = length ([] :: bytes)" by (rule receiving_slot [OF s])
  then have "if_received_size (slot s 0) \<noteq> if_expected_size (slot s 0)" using inv(3) by auto
  moreover have ctl: "file_protocol_decode_control (frame_byte FRAME_FILE_END # write_u32 1) FRAME_FILE_END = Inr 1"
    by (subst decode_control_Inr) simp_all
  ultimately have run: "receive_file_end example_sodium example_disk (frame_byte FRAME_FILE_END # write_u32 1) [] s =
      (Inl EIO, discard_incoming_file example_disk 0 s)"
    using inv(2) by (simp add: receive_file_end_def del: frame_byte.simps)
  then have "find_incoming_file (discard_incoming_file example_disk 0 s) 1 = None"
    using failed_transfer_cleans [OF inv(1,2) example_disk_simps(4)] ctl by blast
  then show ?thesis using run inv(2) by blast
qed

end
