(* ===== verification/Client_Properties.thy ===== *)
theory Client_Properties
  imports Client Receiver_Properties
begin

text \<open>
  What holds of the client in every history of its main loop, how the reply to a key request
  is matched with what is waiting for it, and what a command line can put on the wire.
\<close>

section \<open>The commands through the parser's specification\<close>

lemma string_at_no_nul: "string_at buf p = Some s \<Longrightarrow> 0 \<notin> set s"
  by (auto simp: string_at_def c_string_no_nul split: if_splits)

lemma parse_view:
  assumes "0 \<notin> set line"
  obtains pc buf where "parse_command (line @ [0]) = Some (pc, buf)" "command_view (pc, buf) = Some (parse_spec line)"
  using parse_command_meets_spec [OF assms, of "[]"] by blast

lemma handle_private_message_eq:
  assumes "0 \<notin> set line"
  shows "handle_private_message env line c =
    (case parse_spec line of
       PrivateMessage u m \<Rightarrow>
         if CHAT_MAX_MESSAGE_SIZE < length m then Some (Inl EMSGSIZE, c)
         else request_key env \<lparr>pp_type = PENDING_MESSAGE, pp_recipient = u, pp_data = m\<rparr> c
     | _ \<Rightarrow> Some (Inl EINVAL, c))"
proof -
  obtain pc buf where p: "parse_command (line @ [0]) = Some (pc, buf)" "command_view (pc, buf) = Some (parse_spec line)"
    by (rule parse_view [OF assms])
  from p(2) [symmetric] show ?thesis
    by (cases "pc_type pc") (auto simp: handle_private_message_def p(1) split: Option.bind_splits)
qed

lemma handle_file_command_eq:
  assumes "0 \<notin> set line"
  shows "handle_file_command env line c =
    (case parse_spec line of
       FileTransfer u f \<Rightarrow>
         if PATH_MAX < length f then Some (Inl EMSGSIZE, c)
         else request_key env \<lparr>pp_type = PENDING_FILE, pp_recipient = u, pp_data = f\<rparr> c
     | _ \<Rightarrow> Some (Inl EINVAL, c))"
proof -
  obtain pc buf where p: "parse_command (line @ [0]) = Some (pc, buf)" "command_view (pc, buf) = Some (parse_spec line)"
    by (rule parse_view [OF assms])
  from p(2) [symmetric] show ?thesis
    by (cases "pc_type pc") (auto simp: handle_file_command_def p(1) split: Option.bind_splits)
qed

text \<open>The name of a recipient fits the field of the request it is copied to.\<close>

definition recipient_ok :: "bytes \<Rightarrow> bool" where
  "recipient_ok u \<longleftrightarrow> 0 < length u \<and> length u < USERNAME_SIZE \<and> 0 \<notin> set u"

lemma parsed_recipient:
  assumes "0 \<notin> set line" "parse_spec line = PrivateMessage u m \<or> parse_spec line = FileTransfer u m"
  shows "recipient_ok u"
proof -
  obtain pc buf where p: "parse_command (line @ [0]) = Some (pc, buf)" "command_view (pc, buf) = Some (parse_spec line)"
    by (rule parse_view [OF assms(1)])
  have "0 < length u \<and> length u < USERNAME_SIZE"
    using parsed_arguments_ok [OF assms(1) p(1)] p(2) assms(2) by auto
  moreover have "0 \<notin> set u"
    using p(2) assms(2) string_at_no_nul by (auto split: ClientCommand.splits Option.bind_splits)
  ultimately show ?thesis by (simp add: recipient_ok_def)
qed

section \<open>The invariant of the client\<close>

definition package_ok :: "PendingPackage \<Rightarrow> bool" where
  "package_ok p \<longleftrightarrow> recipient_ok (pp_recipient p) \<and>
     (case pp_type p of PENDING_MESSAGE \<Rightarrow> length (pp_data p) \<le> CHAT_MAX_MESSAGE_SIZE
      | PENDING_FILE \<Rightarrow> length (pp_data p) \<le> PATH_MAX)"

definition queue_ok :: "PendingQueue \<Rightarrow> bool" where
  "queue_ok q \<longleftrightarrow> (\<exists>ps. represents q ps \<and> length ps \<le> MAX_PENDING_PACKAGES \<and> list_all package_ok ps)"

definition client_inv :: "u32 \<Rightarrow> ChatClient \<Rightarrow> bool" where
  "client_inv pid c \<longleftrightarrow> queue_ok (pending c) \<and> receiver_inv DOWNLOAD_DIRECTORY pid (incoming c)"

lemma note_error_simps [simp]:
  "pending (note_error r c) = pending c" "incoming (note_error r c) = incoming c" "shown (note_error r c) = shown c"
  "active_connection (note_error r c) = active_connection c" "private_key (note_error r c) = private_key c"
  "public_key (note_error r c) = public_key c"
  by (auto simp: note_error_def split: sum.splits)

lemma take_first_parts:
  "take_first r ps = (x, qs) \<Longrightarrow> length qs \<le> length ps \<and> set qs \<subseteq> set ps \<and> (\<forall>p. x = Some p \<longrightarrow> p \<in> set ps \<and> pp_recipient p = r)"
  by (induction ps arbitrary: qs) (auto split: if_splits prod.splits)

lemma queue_ok_take:
  assumes "queue_ok q" "pending_take r q = Some (x, q')"
  shows "queue_ok q' \<and> (\<forall>p. x = Some p \<longrightarrow> package_ok p \<and> pp_recipient p = r)"
proof -
  obtain ps where ps: "represents q ps" "length ps \<le> MAX_PENDING_PACKAGES" "list_all package_ok ps"
    using assms(1) by (auto simp: queue_ok_def)
  from pending.remove_total [OF ps(1), of r] assms(2) obtain qs where
    qs: "take_first r ps = (x, qs)" "represents q' qs" by auto
  have "queue_ok q'"
    unfolding queue_ok_def using take_first_parts [OF qs(1)] ps qs(2) by (intro exI [of _ qs]) (auto simp: list_all_iff)
  then show ?thesis using take_first_parts [OF qs(1)] ps(3) by (auto simp: list_all_iff)
qed

lemma queue_ok_append:
  assumes "queue_ok q" "package_ok p" "pending_count q < MAX_PENDING_PACKAGES"
  shows "queue_ok (pending_append p q)"
proof -
  obtain ps where ps: "represents q ps" "list_all package_ok ps" using assms(1) by (auto simp: queue_ok_def)
  then show ?thesis
    using pending.repr_append [OF ps(1), of p] assms(2,3) represents_count [OF ps(1)]
    unfolding queue_ok_def by (intro exI [of _ "ps @ [p]"]) simp
qed

lemma request_key_inv:
  assumes "client_inv pid c" "package_ok p" "request_key env p c = Some (r, c')"
  shows "client_inv pid c'"
  using assms queue_ok_append [of "pending c" p]
  by (auto simp: request_key_def client_inv_def split: if_splits Option.bind_splits sum.splits)

lemma handle_input_inv:
  assumes inv: "client_inv pid c" and z: "\<And>line. input = Some line \<Longrightarrow> 0 \<notin> set line"
    and run: "handle_input env input c = Some c'"
  shows "client_inv pid c'"
proof -
  have msg: "client_inv pid c1" if "handle_private_message env line c = Some (r, c1)" "input = Some line" for line r c1
  proof (cases "\<exists>u m. parse_spec line = PrivateMessage u m \<and> length m \<le> CHAT_MAX_MESSAGE_SIZE")
    case True
    then obtain u m where um: "parse_spec line = PrivateMessage u m" "length m \<le> CHAT_MAX_MESSAGE_SIZE" by blast
    have "package_ok \<lparr>pp_type = PENDING_MESSAGE, pp_recipient = u, pp_data = m\<rparr>"
      using parsed_recipient [OF z [OF that(2)]] um by (simp add: package_ok_def)
    from request_key_inv [OF inv this] that um show ?thesis by (simp add: handle_private_message_eq [OF z])
  next
    case False
    then show ?thesis using that inv by (auto simp: handle_private_message_eq [OF z] split: command.splits if_splits)
  qed
  have file_cmd: "client_inv pid c1" if "handle_file_command env line c = Some (r, c1)" "input = Some line" for line r c1
  proof (cases "\<exists>u m. parse_spec line = FileTransfer u m \<and> length m \<le> PATH_MAX")
    case True
    then obtain u m where um: "parse_spec line = FileTransfer u m" "length m \<le> PATH_MAX" by blast
    have "package_ok \<lparr>pp_type = PENDING_FILE, pp_recipient = u, pp_data = m\<rparr>"
      using parsed_recipient [OF z [OF that(2)]] um by (simp add: package_ok_def)
    from request_key_inv [OF inv this] that um show ?thesis by (simp add: handle_file_command_eq [OF z])
  next
    case False
    then show ?thesis using that inv by (auto simp: handle_file_command_eq [OF z] split: command.splits if_splits)
  qed
  have flags: "client_inv pid (note_error r c1) = client_inv pid c1" for r c1 by (simp add: client_inv_def)
  have same: "client_inv pid c1" if "pending c1 = pending c" "incoming c1 = incoming c" for c1
    using inv that by (simp add: client_inv_def)
  show ?thesis
  proof (cases input)
    case None
    then show ?thesis using run by (auto simp: handle_input_def intro: same)
  next
    case (Some line)
    then show ?thesis using run msg file_cmd
      by (auto simp: handle_input_def finish_command_def flags Let_def split: if_splits Option.bind_splits sum.splits intro: same)
  qed
qed

lemma run_package_inv:
  assumes "run_package env p r key c = Some c'"
  shows "pending c' = pending c \<and> incoming c' = incoming c"
  using assms by (auto simp: run_package_def split: PendingPackageType.splits Option.bind_splits)

lemma handle_peer_key_cases:
  assumes "handle_peer_key env frame c = Some c'"
  obtains "c' = c" | name x q where "pending_take name (pending c) = Some (x, q)" "c' = c\<lparr>pending := q\<rparr>"
    | name x q p key where "pending_take name (pending c) = Some (x, q)"
        "run_package env p name key (c\<lparr>pending := q\<rparr>) = Some c'"
proof (cases "c' = c")
  case False
  let ?n = "unat (frame ! 1)"
  let ?name = "take ?n (drop 2 frame)"
  from assms False have run: "do { (found, q) \<leftarrow> pending_take ?name (pending c);
      case found of None \<Rightarrow> Some c
      | Some p \<Rightarrow> if length frame = 2 + ?n then Some (c\<lparr>pending := q\<rparr>)
                  else run_package env p ?name (drop (2 + ?n) frame) (c\<lparr>pending := q\<rparr>) } = Some c'"
    unfolding handle_peer_key_def Let_def by (simp split: if_splits)
  then obtain x q where x: "pending_take ?name (pending c) = Some (x, q)" by (cases "pending_take ?name (pending c)") auto
  show thesis
  proof (cases x)
    case None
    then show ?thesis using run x False by simp
  next
    case (Some p)
    then show ?thesis using run x that(2,3) by (simp split: if_splits)
  qed
qed (rule that(1))

lemma handle_peer_key_inv:
  assumes inv: "client_inv pid c" and run: "handle_peer_key env frame c = Some c'"
  shows "client_inv pid c'"
  using run
proof (cases rule: handle_peer_key_cases)
  case 1
  then show ?thesis using inv by simp
next
  case (2 name x q)
  then show ?thesis using queue_ok_take [OF _ 2(1)] inv by (simp add: client_inv_def)
next
  case (3 name x q p key)
  then show ?thesis using queue_ok_take [OF _ 3(1)] run_package_inv [OF 3(2)] inv by (simp add: client_inv_def)
qed

lemma handle_server_frame_inv:
  assumes inv: "client_inv pid c" and d: "dk_pid (ce_disk env) = pid" and run: "handle_server_frame env frame c = Some c'"
  shows "client_inv pid c'"
proof -
  obtain r s where hs: "handle_incoming_file_frame (ce_sodium env) (ce_disk env) frame DOWNLOAD_DIRECTORY (private_key c) (incoming c)
      = (r, s)" by fastforce
  have "receiver_inv DOWNLOAD_DIRECTORY pid s"
    using handle_incoming_sound [OF _ d _ hs] inv by (simp add: sound_def client_inv_def DOWNLOAD_DIRECTORY_def)
  then have files: "client_inv pid (c\<lparr>incoming := s\<rparr>)" using inv by (simp add: client_inv_def)
  have chat: "client_inv pid (snd (receive_private_chat so f c))" for so f
    using inv by (auto simp: receive_private_chat_def display_private_message_def client_inv_def split: sum.splits)
  show ?thesis
    using run files chat handle_peer_key_inv [OF inv] inv hs
    by (auto simp: handle_server_frame_def Let_def display_message_def client_inv_def split: if_splits)
qed

lemma client_turn_inv:
  assumes inv: "client_inv pid c" and d: "dk_pid (ce_disk (ct_env turn)) = pid"
    and z: "\<And>line. ct_line turn = Some (Some line) \<Longrightarrow> 0 \<notin> set line" and run: "client_turn turn c = Some (go, c')"
  shows "client_inv pid c'"
proof -
  have same: "client_inv pid (c\<lparr>active_connection := t\<rparr>)" "client_inv pid (c\<lparr>client_exit_code := n\<rparr>)"
    "client_inv pid (c\<lparr>active_connection := t, client_exit_code := n, connected := b\<rparr>)"
    "client_inv pid (c\<lparr>active_connection := t, connected := b\<rparr>)" for t n b
    using inv by (simp_all add: client_inv_def)
  have recv: "client_inv pid c1" if "client_receive (ct_env turn) c = Some c1" for c1
    using that same handle_server_frame_inv [OF same(1) d]
    by (auto simp: client_receive_def Let_def split: Option.bind_splits sum.splits if_splits)
  show ?thesis
  proof (cases "ct_poll turn")
    case (Inl e)
    then show ?thesis using run same by (auto simp: client_turn_def)
  next
    case (Inr rr)
    with run obtain c1 where c1: "(if ct_pending turn \<or> snd rr then client_receive (ct_env turn) c else Some c) = Some c1"
      and c2: "(if connected c1 \<and> fst rr
                then (case ct_line turn of None \<Rightarrow> Some c1 | Some input \<Rightarrow> handle_input (ct_env turn) input c1)
                else Some c1) = Some c'"
      by (auto simp: client_turn_def case_prod_beta split: Option.bind_splits)
    have inv1: "client_inv pid c1" using c1 recv inv by (auto split: if_splits)
    then show ?thesis using c2 z handle_input_inv [OF inv1] by (auto split: if_splits option.splits)
  qed
qed

lemma client_loop_inv:
  assumes "client_loop turns c = Some c'" "client_inv pid c"
    and "\<And>turn. turn \<in> set turns \<Longrightarrow> dk_pid (ce_disk (ct_env turn)) = pid"
    and "\<And>turn line. turn \<in> set turns \<Longrightarrow> ct_line turn = Some (Some line) \<Longrightarrow> 0 \<notin> set line"
  shows "client_inv pid c'"
  using assms
proof (induction turns c rule: client_loop.induct)
  case (2 turn turns c)
  show ?case
  proof (cases "connected c")
    case True
    with "2.prems"(1) obtain go c1 where t: "client_turn turn c = Some (go, c1)"
      and rest: "(if go then client_loop turns c1 else Some c1) = Some c'"
      by (auto split: Option.bind_splits)
    have "client_inv pid c1" by (rule client_turn_inv [OF "2.prems"(2) _ _ t]) (use "2.prems" in auto)
    then show ?thesis using rest "2.IH" [OF True t refl] "2.prems" by (auto split: if_splits)
  next
    case False
    then show ?thesis using "2.prems" by simp
  qed
qed auto


section \<open>The client from start to end\<close>

definition fresh_client :: "Tls \<Rightarrow> bytes \<Rightarrow> bytes \<Rightarrow> Fs \<Rightarrow> ChatClient" where
  "fresh_client t pk sk f = \<lparr>active_connection = t, connected = True, client_exit_code = 0, pending = no_pending,
     public_key = pk, private_key = sk, next_transfer_id = 1, incoming = static_receiver f, shown = []\<rparr>"

lemma fresh_client_inv: "fresh_nodes f \<Longrightarrow> client_inv pid (fresh_client t pk sk f)"
  unfolding client_inv_def queue_ok_def fresh_client_def using pending.repr_empty
  by (auto simp: static_receiver_inv intro!: exI [of _ "[]"])

lemma cleanup_total:
  assumes "client_inv pid c"
  shows "\<exists>c'. client_cleanup disks c = Some c' \<and> cells (pending c') = Map.empty"
proof -
  obtain cs where "pending_inv (pending c) cs" using assms by (auto simp: client_inv_def queue_ok_def represents_def)
  then show ?thesis using pending_free_all_inv by (force simp: client_cleanup_def)
qed

text \<open>
  C24. In every history of the main loop - frames of any contents, input lines, answers of the
  system, in any order - the client's state stays well formed: the linked list of waiting
  requests is a proper list with its tail and counter right, holds at most 128 requests, each
  with a recipient of 1 to 31 bytes and a message or path within its limit, and the table of
  incoming files satisfies its invariant. The loop that releases the list at the end
  terminates and leaves no cell allocated.
\<close>

theorem client_always_wf:
  assumes "client_loop turns (fresh_client t pk sk f) = Some c" and "fresh_nodes f"
    and "\<forall>turn\<in>set turns. dk_pid (ce_disk (ct_env turn)) = pid"
    and "\<forall>turn\<in>set turns. \<forall>line. ct_line turn = Some (Some line) \<longrightarrow> 0 \<notin> set line"
  shows "(\<exists>ps. represents (pending c) ps \<and> length ps \<le> MAX_PENDING_PACKAGES \<and> list_all package_ok ps) \<and>
    receiver_inv DOWNLOAD_DIRECTORY pid (incoming c) \<and>
    (\<exists>c'. client_cleanup disks c = Some c' \<and> cells (pending c') = Map.empty)"
proof -
  have "client_inv pid c"
    by (rule client_loop_inv [OF assms(1) fresh_client_inv [OF assms(2)]]) (use assms(3,4) in auto)
  then show ?thesis using cleanup_total [of pid c disks] by (simp add: client_inv_def queue_ok_def)
qed

section \<open>Replies to key requests\<close>

definition peer_key_frame :: "bytes \<Rightarrow> bytes \<Rightarrow> bytes" where
  "peer_key_frame name key = frame_byte FRAME_PEER_PK # of_nat (length name) # name @ key"

lemma peer_key_reply:
  assumes "recipient_ok name" "key = [] \<or> length key = CHAT_PUBLIC_KEY_SIZE"
  shows "handle_peer_key env (peer_key_frame name key) c =
    do { (found, q) \<leftarrow> pending_take name (pending c);
         case found of None \<Rightarrow> Some c
         | Some p \<Rightarrow> if key = [] then Some (c\<lparr>pending := q\<rparr>) else run_package env p name key (c\<lparr>pending := q\<rparr>) }"
proof -
  let ?f = "peer_key_frame name key"
  have n: "unat (?f ! 1) = length name"
    using assms(1) by (simp add: peer_key_frame_def recipient_ok_def const_simps unat_of_nat)
  have f: "take (length name) (drop 2 ?f) = name" "drop (2 + length name) ?f = key"
    "length ?f = 2 + length name + length key" by (simp_all add: peer_key_frame_def)
  have ok: "\<not> (length name = 0 \<or> USERNAME_SIZE \<le> length name \<or>
      length ?f \<noteq> 2 + length name \<and> length ?f \<noteq> 2 + length name + CHAT_PUBLIC_KEY_SIZE \<or> 0 \<in> set name)"
    using assms f(3) by (auto simp: recipient_ok_def)
  have short: "\<not> length ?f < 2" and none: "(length ?f = 2 + length name) = (key = [])" using f(3) by simp_all
  show ?thesis
    unfolding handle_peer_key_def Let_def if_not_P [OF short] n f(1,2) if_not_P [OF ok] by (simp only: none)
qed

lemma peer_key_dispatched:
  assumes ps: "represents (pending c) ps" and f: "recipient_ok name" "key = [] \<or> length key = CHAT_PUBLIC_KEY_SIZE"
  shows "\<exists>q. represents q (snd (take_first name ps)) \<and>
    handle_server_frame env (peer_key_frame name key) c =
      (case fst (take_first name ps) of
         None \<Rightarrow> Some c
       | Some p \<Rightarrow> if key = [] then Some (c\<lparr>pending := q\<rparr>) else run_package env p name key (c\<lparr>pending := q\<rparr>))"
proof -
  obtain x q qs where t: "pending_take name (pending c) = Some (x, q)" "take_first name ps = (x, qs)" "represents q qs"
    using pending.remove_total [OF ps, of name] by blast
  have "handle_server_frame env (peer_key_frame name key) c = handle_peer_key env (peer_key_frame name key) c"
    by (simp add: handle_server_frame_def peer_key_frame_def FrameType_of_def)
  then show ?thesis unfolding peer_key_reply [OF f] using t by (intro exI [of _ q]) (simp add: case_prod_beta split: option.splits)
qed

text \<open>
  C25. A reply with a public key serves exactly the oldest request for that name: the request
  leaves the list, all others keep their order, and it is carried out with that key for
  that name, or dropped when the reply carries no key. A reply that no request waits for
  changes nothing.
\<close>

theorem peer_key_dispatch:
  assumes "represents (pending c) ps" and "recipient_ok name" and "key = [] \<or> length key = CHAT_PUBLIC_KEY_SIZE"
  shows "\<exists>q. represents q (snd (take_first name ps)) \<and>
    handle_server_frame env (peer_key_frame name key) c =
      (case fst (take_first name ps) of
         None \<Rightarrow> Some c
       | Some p \<Rightarrow> if key = [] then Some (c\<lparr>pending := q\<rparr>) else run_package env p name key (c\<lparr>pending := q\<rparr>))"
  by (rule peer_key_dispatched [OF assms])

section \<open>Command lines on the wire\<close>

lemma rstrip_prefix: "\<exists>suffix. s = rstrip P s @ suffix \<and> (\<forall>b\<in>set suffix. P b)"
proof -
  have "s = rstrip P s @ rev (takeWhile P (rev s))"
    unfolding rstrip_def by (metis rev_append rev_rev_ident takeWhile_dropWhile_id)
  then show ?thesis by (metis set_rev set_takeWhileD)
qed

lemma line_ending_space: "is_line_ending b \<Longrightarrow> isspace b"
  by (auto simp: is_line_ending_def isspace_def)

text \<open>Both recognisers agree with the parser on where the first word ends.\<close>

lemma first_word_starts:
  assumes "first_word s = verb" "\<forall>b\<in>set suffix. isspace b"
  shows "starts_with_verb (s @ suffix) verb"
proof -
  have s: "s = verb @ dropWhile (\<lambda>b. \<not> isspace b) s" unfolding assms(1) [symmetric] first_word_def by simp
  show ?thesis
  proof (cases "dropWhile (\<lambda>b. \<not> isspace b) s")
    case Nil
    then have "s = verb" using s by (metis append_Nil2)
    then show ?thesis using assms(2) by (cases suffix) (auto simp: starts_with_verb_def nth_append)
  next
    case (Cons b bs)
    then have "isspace b" using hd_dropWhile [of "\<lambda>b. \<not> isspace b" s] by simp
    moreover have "s = verb @ b # bs" using s Cons by simp
    ultimately show ?thesis by (simp add: starts_with_verb_def nth_append)
  qed
qed

lemma private_message_recognised:
  assumes "parse_spec line = PrivateMessage u m"
  shows "is_private_message line" "\<not> is_file_command line" "line \<noteq> []"
proof -
  obtain suffix where suf: "line = rstrip is_line_ending line @ suffix" "\<forall>b\<in>set suffix. isspace b"
    using rstrip_prefix [of line is_line_ending] line_ending_space by blast
  let ?s = "dropWhile isspace (rstrip is_line_ending line)"
  have w: "first_word ?s = str ''/msg''"
    using assms by (auto simp: parse_spec_def spec_arguments_def Let_def split: if_splits)
  then have "?s \<noteq> []" by (metis first_word_def list.distinct(1) str_Cons takeWhile.simps(1))
  then have "\<exists>b\<in>set (rstrip is_line_ending line). \<not> isspace b" by (simp add: dropWhile_eq_Nil_conv)
  then have line: "dropWhile isspace line = ?s @ suffix"
    by (subst suf(1)) (auto simp: dropWhile_append)
  then show msg: "is_private_message line"
    using first_word_starts [OF w suf(2)] by (simp add: is_private_message_def)
  show "\<not> is_file_command line"
  proof
    assume "is_file_command line"
    then have "take (length (str ''/file'')) line = str ''/file''" unfolding is_file_command_def starts_with_verb_def by blast
    then obtain r where r: "line = str ''/file'' @ r" by (metis append_take_drop_id)
    then have "dropWhile isspace line = line" by (simp add: isspace_def)
    with msg r show False by (simp add: is_private_message_def starts_with_verb_def)
  qed
  show "line \<noteq> []" using msg by (auto simp: is_private_message_def starts_with_verb_def)
qed

lemma request_key_wire:
  assumes "request_key env p c = Some (r, c')" "recipient_ok (pp_recipient p)"
  shows "\<exists>k. tls_out (active_connection c') = tls_out (active_connection c) @ take k (frame_bytes FRAME_REQUEST_PK (pp_recipient p))"
proof (cases "c' = c")
  case True
  then show ?thesis by (intro exI [of _ 0]) simp
next
  case False
  with assms(1) obtain q t where q: "send_frame (active_connection c) FRAME_REQUEST_PK (pp_recipient p) = Some (q, t)"
    and c': "active_connection c' = t"
    by (auto simp: request_key_def split: if_splits Option.bind_splits sum.splits)
  show ?thesis
  proof (cases q)
    case (Inl e)
    then show ?thesis using send_frame_writes [OF q] c' by auto
  next
    case (Inr n)
    then show ?thesis using send_frame_writes [OF q] c'
      by (intro exI [of _ "length (frame_bytes FRAME_REQUEST_PK (pp_recipient p))"]) simp
  qed
qed

text \<open>
  C11. A private message never leaves the client in clear: for every input line that the
  server's parser would take for a private message, the client puts at most the request for
  the recipient's public key on the wire, which names the recipient and carries nothing of
  the message.
\<close>

theorem private_text_never_sent:
  assumes "0 \<notin> set line" and "parse_spec line = PrivateMessage u m" and "handle_input env (Some line) c = Some c'"
  shows "\<exists>k. tls_out (active_connection c') =
    tls_out (active_connection c) @ take k (frame_bytes FRAME_REQUEST_PK u)"
proof -
  have "finish_command (handle_private_message env line c) = Some c'"
    using assms(3) private_message_recognised [OF assms(2)] by (simp add: handle_input_def)
  then obtain r c1 where hp: "handle_private_message env line c = Some (r, c1)"
    and c': "active_connection c' = active_connection c1" by (auto simp: finish_command_def)
  show ?thesis
  proof (cases "CHAT_MAX_MESSAGE_SIZE < length m")
    case True
    then show ?thesis using hp c' assms(2) by (intro exI [of _ 0]) (simp add: handle_private_message_eq [OF assms(1)])
  next
    case False
    then have "request_key env \<lparr>pp_type = PENDING_MESSAGE, pp_recipient = u, pp_data = m\<rparr> c = Some (r, c1)"
      using hp assms(2) by (simp add: handle_private_message_eq [OF assms(1)])
    from request_key_wire [OF this] parsed_recipient [OF assms(1)] assms(2) c' show ?thesis by simp
  qed
qed

text \<open>
  The same does not hold for files: \<open>/file\<close> is recognised at the very start of a line only, so
  after a blank the line, which the parser takes for a file command, is sent to the server.
\<close>

lemma file_command_after_blank:
  "parse_spec (str '' /file bob x'') = FileTransfer (str ''bob'') (str ''x'')"
  "\<not> is_file_command (str '' /file bob x'')" "\<not> is_private_message (str '' /file bob x'')"
  by (simp_all add: parse_spec_def spec_arguments_def rstrip_def is_line_ending_def isspace_def first_word_def
      after_word_def is_file_command_def is_private_message_def starts_with_verb_def const_simps)

section \<open>Examples\<close>

definition example_env :: ClientEnv where
  "example_env = \<lparr>ce_sodium = example_sodium, ce_files = example_sender_os, ce_disk = example_disk, ce_malloc = True,
     ce_strdup = True, ce_nonce = replicate 24 5\<rparr>"

definition example_line :: bytes where
  "example_line = str ''/msg bob hi there'' @ [10]"

definition example_chat_client :: ChatClient where
  "example_chat_client = fresh_client example_sender_tls (replicate 32 2) (replicate 32 3) example_fs"

definition example_request :: PendingPackage where
  "example_request = \<lparr>pp_type = PENDING_MESSAGE, pp_recipient = str ''bob'', pp_data = str ''hi there''\<rparr>"

lemma example_line_facts: "0 \<notin> set example_line" "parse_spec example_line = PrivateMessage (str ''bob'') (str ''hi there'')"
  unfolding example_line_def using example_line_spec by simp_all

lemma example_chat_client_simps:
  "active_connection example_chat_client = example_sender_tls" "pending example_chat_client = no_pending"
  "connected example_chat_client"
  by (simp_all add: example_chat_client_def fresh_client_def)

lemma example_request_sent:
  "\<exists>c'. handle_input example_env (Some example_line) example_chat_client = Some c' \<and>
     pending c' = pending_append example_request no_pending"
proof -
  have ws: "tls_writes example_sender_tls = map WriteOk (replicate 300 0) @ []"
    and fit: "length (frame_bytes FRAME_REQUEST_PK (str ''bob'')) \<le> length (replicate 300 (0::nat))"
    by (simp_all add: example_sender_tls_simps frame_bytes_def)
  have "completes (\<lambda>t. sent (send_frame t FRAME_REQUEST_PK (str ''bob''))) (frame_bytes FRAME_REQUEST_PK (str ''bob''))"
    by (rule sent_frame_completes) (simp_all add: const_simps)
  from completesD [OF this example_sender_tls_simps(1) ws fit] obtain t where
    "sent (send_frame example_sender_tls FRAME_REQUEST_PK (str ''bob'')) = Some (Inr (), t)" by blast
  then obtain n where n: "send_frame example_sender_tls FRAME_REQUEST_PK (str ''bob'') = Some (Inr n, t)"
    unfolding sent_Inr by blast
  have "request_key example_env example_request example_chat_client =
      Some (Inr (), example_chat_client\<lparr>active_connection := t, pending := pending_append example_request no_pending\<rparr>)"
    using n by (simp add: request_key_def example_chat_client_simps no_pending_def MAX_PENDING_PACKAGES_def example_env_def
        example_request_def del: str_Cons)
  then have "handle_private_message example_env example_line example_chat_client =
      Some (Inr (), example_chat_client\<lparr>active_connection := t, pending := pending_append example_request no_pending\<rparr>)"
    unfolding handle_private_message_eq [OF example_line_facts(1)] example_line_facts(2)
    by (simp add: example_request_def const_simps del: str_Cons)
  then show ?thesis
    using private_message_recognised [OF example_line_facts(2)]
    by (simp add: handle_input_def finish_command_def note_error_def)
qed

theorem client_always_wf_witness:
  "\<exists>c. client_loop [\<lparr>ct_env = example_env, ct_pending = False, ct_poll = Inr (True, False), ct_line = Some (Some example_line)\<rparr>]
      (fresh_client example_sender_tls (replicate 32 2) (replicate 32 3) example_fs) = Some c \<and>
    pending c = pending_append example_request no_pending \<and> receiver_inv DOWNLOAD_DIRECTORY 7 (incoming c)"
proof -
  let ?turn = "\<lparr>ct_env = example_env, ct_pending = False, ct_poll = Inr (True, False), ct_line = Some (Some example_line)\<rparr>"
  obtain c where c: "handle_input example_env (Some example_line) example_chat_client = Some c"
    "pending c = pending_append example_request no_pending" using example_request_sent by blast
  have run: "client_loop [?turn] (fresh_client example_sender_tls (replicate 32 2) (replicate 32 3) example_fs) = Some c"
    using c(1) example_chat_client_simps(3) by (simp add: client_turn_def flip: example_chat_client_def)
  have "\<forall>turn\<in>set [?turn]. dk_pid (ce_disk (ct_env turn)) = 7" by (simp add: example_env_def example_disk_simps)
  moreover have "\<forall>turn\<in>set [?turn]. \<forall>line. ct_line turn = Some (Some line) \<longrightarrow> 0 \<notin> set line"
    using example_line_facts(1) by simp
  ultimately show ?thesis using client_always_wf [OF run example_fs_fresh] run c(2) by blast
qed

theorem peer_key_dispatch_witness:
  "\<exists>q. represents q [] \<and>
     handle_server_frame example_env (peer_key_frame (str ''bob'') [])
       (example_chat_client\<lparr>pending := pending_append example_request no_pending\<rparr>) =
     Some (example_chat_client\<lparr>pending := q\<rparr>)"
proof -
  let ?c = "example_chat_client\<lparr>pending := pending_append example_request no_pending\<rparr>"
  have rep: "represents (pending ?c) [example_request]"
    using pending.repr_append [OF pending.repr_empty, of example_request] by simp
  have ok: "recipient_ok (str ''bob'')" by (simp add: recipient_ok_def const_simps)
  have take: "take_first (str ''bob'') [example_request] = (Some example_request, [])" by (simp add: example_request_def)
  from peer_key_dispatch [OF rep ok, of "[]" example_env] take show ?thesis by auto
qed

theorem private_text_never_sent_witness:
  "\<exists>c k. handle_input example_env (Some example_line) example_chat_client = Some c \<and>
     tls_out (active_connection c) = take k (frame_bytes FRAME_REQUEST_PK (str ''bob''))"
proof -
  obtain c where c: "handle_input example_env (Some example_line) example_chat_client = Some c"
    using example_request_sent by blast
  have "tls_out (active_connection example_chat_client) = []"
    by (simp add: example_chat_client_simps example_sender_tls_simps)
  with private_text_never_sent [OF example_line_facts c] c show ?thesis by (metis append_Nil)
qed

end
