(* ===== verification/Client_Main.thy ===== *)
theory Client_Main
  imports Client_Properties Network
begin

text \<open>
  \<open>main\<close> of \<open>client.c\<close> from its first to its last call: ignoring the signal, initialising
  libsodium, the key pair, connecting, logging in, the main loop, the clean-up and the end of
  the connection. \<open>ClientOs\<close> holds the answers of the calls. \<open>None\<close> is a client that is still
  blocked in a call or still in its loop.
\<close>

section \<open>Operations\<close>

record ClientOs =
  co_sigpipe :: bool
  co_sodium_init :: bool
  co_keypair :: "bytes \<times> bytes"
  co_sockets :: SocketOs
  co_handshake :: HandshakeOs
  co_stream :: Tls
  co_input :: bytes
  co_directory :: Disk
  co_turns :: "ClientTurn list"
  co_cleanup :: "nat \<Rightarrow> Disk"
  co_shutdown :: ShutdownOs

text \<open>Whether the loop has ended when the turns are used up: by its condition or by a \<open>break\<close>.\<close>

fun client_loop_ends :: "ClientTurn list \<Rightarrow> ChatClient \<Rightarrow> bool" where
  "client_loop_ends [] c \<longleftrightarrow> \<not> connected c"
| "client_loop_ends (turn # turns) c \<longleftrightarrow>
     (connected c \<longrightarrow>
        (case client_turn turn c of None \<Rightarrow> False | Some (go_on, c1) \<Rightarrow> go_on \<longrightarrow> client_loop_ends turns c1))"

text \<open>What is left when the process ends: its state, the descriptors closed, and whether TLS was shut down.\<close>

record ClientExit =
  ex_code :: nat
  ex_client :: ChatClient
  ex_closed :: "int list"
  ex_shutdown :: bool

definition client_close :: "ShutdownOs \<Rightarrow> nat \<Rightarrow> ChatClient \<Rightarrow> ClientExit option" where
  "client_close env code c =
     (let connection = conn (active_connection c)
      in do { (connection', fds, _) \<leftarrow> close_connection env True connection;
              Some \<lparr>ex_code = code, ex_client = c\<lparr>active_connection := (active_connection c)\<lparr>conn := connection'\<rparr>\<rparr>,
                     ex_closed = fds, ex_shutdown = shuts_down True connection\<rparr> })"

text \<open>The loop and everything after it.\<close>

definition client_run :: "ClientOs \<Rightarrow> ChatClient \<Rightarrow> ClientExit option" where
  "client_run env c =
     do { c1 \<leftarrow> client_loop (co_turns env) c;
          if \<not> client_loop_ends (co_turns env) c then None
          else do { c2 \<leftarrow> client_cleanup (co_cleanup env) c1;
                    client_close (co_shutdown env) (client_exit_code c2) c2 } }"

text \<open>Everything before the loop: the exit of an early return, or the client that enters the loop.\<close>

definition client_setup :: "ClientOs \<Rightarrow> Fs \<Rightarrow> (ClientExit + ChatClient) option" where
  "client_setup env f =
     (let zero_key = replicate CHAT_PUBLIC_KEY_SIZE 0;
          gone = (\<lambda>fds c. Some (Inl \<lparr>ex_code = 1, ex_client = c, ex_closed = fds, ex_shutdown = False\<rparr>));
          blank = fresh_client ((co_stream env)\<lparr>conn := no_connection\<rparr>) zero_key zero_key f
      in if \<not> co_sigpipe env then gone [] blank
         else if \<not> co_sodium_init env then gone [] blank
         else let (pk, sk) = co_keypair env
              in do { (r, connection, fds, _) \<leftarrow> connect_to_server (co_sockets env) (co_handshake env);
                      let c = fresh_client ((co_stream env)\<lparr>conn := connection\<rparr>) pk sk f
                      in case r of
                           Inl _ \<Rightarrow> gone fds c
                         | Inr _ \<Rightarrow>
                             do { (r1, c1) \<leftarrow> client_start (co_input env) (co_directory env) c;
                                  case r1 of
                                    Inl _ \<Rightarrow> map_option Inl (client_close (co_shutdown env) 1 c1)
                                  | Inr _ \<Rightarrow> Some (Inr c1) } })"

definition client_main :: "ClientOs \<Rightarrow> Fs \<Rightarrow> ClientExit option" where
  "client_main env f =
     do { r \<leftarrow> client_setup env f; case r of Inl x \<Rightarrow> Some x | Inr c \<Rightarrow> client_run env c }"

section \<open>The socket stays the same\<close>

definition same_socket :: "ChatClient \<Rightarrow> ChatClient \<Rightarrow> bool" where
  "same_socket c c' \<longleftrightarrow> socket_fd (conn (active_connection c')) = socket_fd (conn (active_connection c))"

lemma same_socketI: "same_connection r (active_connection c) (active_connection c') \<Longrightarrow> same_socket c c'"
  by (simp add: same_socket_def same_connection_def)

lemma same_socket_trans: "same_socket a b \<Longrightarrow> same_socket b c \<Longrightarrow> same_socket a c"
  by (simp add: same_socket_def)

lemma request_key_socket:
  assumes "request_key env p c = Some (r, c')"
  shows "same_socket c c'"
proof (cases "send_frame (active_connection c) FRAME_REQUEST_PK (pp_recipient p)")
  case (Some x)
  obtain q t where x: "x = (q, t)" by (cases x)
  show ?thesis using assms send_frame_connection [OF Some [unfolded x]] Some x
    by (cases q) (auto simp: request_key_def same_socket_def same_connection_def split: if_splits)
qed (use assms in \<open>auto simp: request_key_def same_socket_def split: if_splits\<close>)

lemma note_error_socket [simp]: "same_socket c (note_error r d) \<longleftrightarrow> same_socket c d"
  by (simp add: same_socket_def)

lemma same_socket_refl [simp]: "same_socket c c"
  by (simp add: same_socket_def)

lemma handle_input_socket:
  assumes "handle_input env input c = Some c'"
  shows "same_socket c c'"
proof (cases input)
  case None
  then show ?thesis using assms by (auto simp: handle_input_def same_socket_def)
next
  case (Some line)
  have request: "same_socket c d"
    if "handle_private_message env line c = Some (r, d) \<or> handle_file_command env line c = Some (r, d)" for r d
    using that by (auto simp: handle_private_message_def handle_file_command_def bind_eq_Some_conv
        split: if_splits dest!: request_key_socket)
  show ?thesis
  proof (cases "\<exists>r d. (handle_private_message env line c = Some (r, d) \<or> handle_file_command env line c = Some (r, d)) \<and> c' = note_error r d")
    case True
    then obtain r d where d: "handle_private_message env line c = Some (r, d) \<or> handle_file_command env line c = Some (r, d)"
      and c': "c' = note_error r d" by blast
    show ?thesis unfolding c' using request [OF d] by simp
  next
    case False
    then have "c' = c \<or> (\<exists>r t. send_frame (active_connection c) FRAME_TEXT line = Some (r, t) \<and>
        active_connection c' = t)"
      using assms Some by (auto simp: handle_input_def finish_command_def bind_eq_Some_conv Let_def simp del: str_Cons split: if_splits sum.splits)
    then show ?thesis by (auto intro: same_socketI send_frame_connection)
  qed
qed

lemma run_package_socket:
  "run_package env p recipient key c = Some c' \<Longrightarrow> same_socket c c'"
  unfolding run_package_def send_private_chat_def
  by (auto simp: bind_eq_Some_conv same_socket_def Let_def split: PendingPackageType.splits if_splits option.splits
      dest!: send_file_connection keeps_connectionD [OF keeps_sent(1)] simp: same_connection_def)

lemma handle_server_frame_socket:
  assumes "handle_server_frame env frame c = Some c'"
  shows "same_socket c c'"
proof -
  have "same_socket c d" if "handle_peer_key env frame c = Some d" for d
    using that run_package_socket [of env _ _ _ "c\<lparr>pending := q\<rparr>" d for q]
    by (auto simp: handle_peer_key_def Let_def bind_eq_Some_conv same_socket_def split: if_splits option.splits)
  then show ?thesis using assms
    by (auto simp: handle_server_frame_def Let_def receive_private_chat_def display_message_def display_private_message_def
        same_socket_def split: if_splits prod.splits sum.splits)
qed

lemma client_receive_socket:
  assumes "client_receive env c = Some c'"
  shows "same_socket c c'"
proof -
  obtain q t where q: "receive_frame (active_connection c) FRAME_MAX_SIZE = Some (q, t)"
    using assms by (auto simp: client_receive_def bind_eq_Some_conv)
  have t: "same_socket c (c\<lparr>active_connection := t\<rparr>)"
    using receive_frame_connection [OF q] by (simp add: same_socket_def same_connection_def)
  show ?thesis
  proof (cases "\<exists>frame. handle_server_frame env frame (c\<lparr>active_connection := t\<rparr>) = Some c'")
    case True
    then show ?thesis using same_socket_trans [OF t handle_server_frame_socket] by blast
  next
    case False
    then have "active_connection c' = t" using assms q by (cases q) (auto simp: client_receive_def Let_def split: if_splits)
    then show ?thesis using t by (simp add: same_socket_def)
  qed
qed

lemma client_turn_socket:
  assumes "client_turn turn c = Some (go, c')"
  shows "same_socket c c'"
proof (cases "ct_poll turn")
  case (Inr x)
  obtain input_ready socket_ready where x: "x = (input_ready, socket_ready)" by (cases x)
  obtain c1 where c1: "(if ct_pending turn \<or> socket_ready then client_receive (ct_env turn) c else Some c) = Some c1"
    and c2: "(if connected c1 \<and> input_ready
              then (case ct_line turn of None \<Rightarrow> Some c1 | Some input \<Rightarrow> handle_input (ct_env turn) input c1)
              else Some c1) = Some c'"
    using assms Inr x by (auto simp: client_turn_def bind_eq_Some_conv)
  have "same_socket c c1" using c1 client_receive_socket by (auto split: if_splits)
  moreover have "same_socket c1 c'" using c2 handle_input_socket by (auto split: if_splits option.splits)
  ultimately show ?thesis by (rule same_socket_trans)
qed (use assms in \<open>auto simp: client_turn_def same_socket_def\<close>)

lemma client_loop_socket: "client_loop turns c = Some c' \<Longrightarrow> same_socket c c'"
proof (induction turns c rule: client_loop.induct)
  case (2 turn turns c)
  show ?case
  proof (cases "connected c")
    case True
    with "2.prems" obtain go c1 where t: "client_turn turn c = Some (go, c1)"
      and rest: "(if go then client_loop turns c1 else Some c1) = Some c'" by (auto simp: bind_eq_Some_conv)
    have "same_socket c1 c'" using rest "2.IH" [OF True t refl] by (auto split: if_splits)
    then show ?thesis using same_socket_trans [OF client_turn_socket [OF t]] by blast
  qed (use "2.prems" in simp)
qed simp

lemma register_connection:
  "get_username_and_register_in_server input t = Some (r, t') \<Longrightarrow> same_connection r t t'"
  by (auto simp: get_username_and_register_in_server_def Let_def split: option.splits if_splits
      dest!: keeps_connectionD [OF keeps_sent(2)])

lemma welcome_received_connection:
  assumes "receive_welcome_message t = Some (r, t')"
  shows "same_connection r t t'"
proof -
  obtain q t1 where q: "receive_message t BUFFER_SIZE = Some (q, t1)"
    using assms by (auto simp: receive_welcome_message_def bind_eq_Some_conv)
  show ?thesis using receive_message_connection [OF q] assms q
    by (cases q) (auto simp: receive_welcome_message_def same_connection_def simp del: str_Cons split: if_splits)
qed

lemma client_start_socket:
  assumes "client_start input d c = Some (r, c')"
  shows "same_socket c c'"
proof -
  obtain q t1 where q: "get_username_and_register_in_server input (active_connection c) = Some (q, t1)"
    using assms by (auto simp: client_start_def bind_eq_Some_conv)
  note c1 = register_connection [OF q]
  show ?thesis
  proof (cases q)
    case (Inl e)
    then show ?thesis using assms q c1 by (auto simp: client_start_def same_socket_def same_connection_def)
  next
    case q': (Inr u)
    obtain w t2 where w: "receive_welcome_message t1 = Some (w, t2)"
      using assms q q' by (auto simp: client_start_def bind_eq_Some_conv)
    note c2 = welcome_received_connection [OF w]
    show ?thesis
    proof (cases w)
      case (Inl e)
      then show ?thesis using assms q q' w c1 c2 by (auto simp: client_start_def same_socket_def same_connection_def)
    next
      case w': (Inr m)
      obtain k t3 where k: "send_frame t2 FRAME_REGISTER_PK (public_key c) = Some (k, t3)"
        using assms q q' w w' by (auto simp: client_start_def bind_eq_Some_conv)
      have "active_connection c' = t3"
        using assms q q' w w' k by (cases k) (auto simp: client_start_def Let_def split: prod.splits)
      then show ?thesis using c1 c2 send_frame_connection [OF k] by (simp add: same_socket_def same_connection_def)
    qed
  qed
qed

section \<open>Cleaning up\<close>

lemma cleanup_slots:
  assumes "length (incoming_files s) = MAX_INCOMING_FILES" "i < MAX_INCOMING_FILES"
  shows "\<not> if_active (slot (cleanup_incoming_files ds s) i)"
proof -
  let ?g = "\<lambda>i s. if if_active (slot s i) then discard_incoming_file (ds i) i s else s"
  have "length (incoming_files (fold ?g is s)) = MAX_INCOMING_FILES \<and>
      (\<forall>j\<in>set is. \<not> if_active (slot (fold ?g is s) j))" if "set is \<subseteq> {..<MAX_INCOMING_FILES}" for "is"
    using that
  proof (induction "is" rule: rev_induct)
    case (snoc i "is")
    then show ?case by (auto simp: discard_incoming_file_def Let_def nth_list_update)
  qed (use assms(1) in simp)
  from this [of "[0..<MAX_INCOMING_FILES]"] assms(2) show ?thesis
    by (simp add: cleanup_incoming_files_def lessThan_atLeast0)
qed

text \<open>A staged file whose removal succeeds is gone, and the removal of another one does not bring it back.\<close>

lemma cleanup_unlinks:
  assumes "length (incoming_files s) = MAX_INCOMING_FILES" "i < MAX_INCOMING_FILES" "if_active (slot s i)"
    "if_temp_path (slot s i) \<noteq> []" "dk_unlink (ds i)"
  shows "names (fs (cleanup_incoming_files ds s)) (if_temp_path (slot s i)) = None"
proof -
  let ?g = "\<lambda>i s. if if_active (slot s i) then discard_incoming_file (ds i) i s else s"
  have mono: "names (fs (fold ?g is t)) p = None" if "names (fs t) p = None" for "is" t p
    using that by (induction "is" arbitrary: t) (auto simp: discard_incoming_file_def unlink_def Let_def)
  have keep: "slot (fold ?g is t) i = slot t i" if "i \<notin> set is" for "is" t
    using that by (induction "is" arbitrary: t) (auto simp: discard_incoming_file_def Let_def)
  have split: "[0..<MAX_INCOMING_FILES] = [0..<i] @ i # [Suc i..<MAX_INCOMING_FILES]"
    using assms(2) by (metis le0 less_imp_le_nat upt_add_eq_append upt_conv_Cons le_add_diff_inverse)
  let ?t = "fold ?g [0..<i] s"
  have "slot ?t i = slot s i" by (rule keep) simp
  then have "names (fs (?g i ?t)) (if_temp_path (slot s i)) = None"
    using assms(3-5) by (simp add: discard_incoming_file_def unlink_def Let_def)
  from mono [OF this, of "[Suc i..<MAX_INCOMING_FILES]"] show ?thesis
    by (simp add: cleanup_incoming_files_def split)
qed

section \<open>The whole program\<close>

lemma close_client_effect:
  assumes "client_close env code c = Some x" "0 \<le> socket_fd (conn (active_connection c))"
  shows "ex_code x = code \<and> ex_closed x = [socket_fd (conn (active_connection c))] \<and>
    pending (ex_client x) = pending c \<and> private_key (ex_client x) = private_key c \<and> incoming (ex_client x) = incoming c"
  using assms by (auto simp: client_close_def Let_def bind_eq_Some_conv close_connection_def)

lemma connect_closing:
  assumes "connect_to_server env hk = Some (r, connection, fds, tr)" "\<And>fd. sk_socket env = Inr fd \<Longrightarrow> 0 \<le> fd"
  shows "case r of Inl _ \<Rightarrow> fds = (case sk_socket env of Inl _ \<Rightarrow> [] | Inr fd \<Rightarrow> [fd])
    | Inr _ \<Rightarrow> sk_socket env = Inr (socket_fd connection) \<and> fds = []"
proof (cases "sk_socket env")
  case (Inr fd)
  have "case r of Inl _ \<Rightarrow> fds = [fd] | Inr _ \<Rightarrow> socket_fd connection = fd \<and> fds = []"
    if "perform_tls_handshake hk True (no_connection\<lparr>socket_fd := fd\<rparr>) = Some (r, connection, fds, tr)"
    using handshake_closing [OF that] assms(2) [OF Inr] by (auto split: sum.splits)
  then show ?thesis using assms(1) Inr by (auto simp: connect_to_server_def split: if_splits sum.splits)
qed (use assms(1) in \<open>auto simp: connect_to_server_def\<close>)

lemma started_fresh:
  assumes "client_start input d (fresh_client t pk sk f) = Some (Inr u, c)" "fresh_nodes f"
  shows "\<exists>t' f'. c = fresh_client t' pk sk f' \<and> fresh_nodes f'"
proof -
  let ?e = "ensure_download_directory d DOWNLOAD_DIRECTORY f"
  have fresh: "fresh_nodes (snd ?e)"
    using assms(2) by (auto simp: ensure_download_directory_def mkdir_def intro: fresh_nodes_create split: option.splits sum.splits if_splits)
  have "\<exists>t'. c = (fresh_client t pk sk f)\<lparr>active_connection := t',
      incoming := (incoming (fresh_client t pk sk f))\<lparr>fs := snd ?e\<rparr>\<rparr>"
    using assms(1) by (auto simp: client_start_def Let_def fresh_client_def static_receiver_def case_prod_beta
        split: Option.bind_splits sum.splits)
  then show ?thesis using fresh by (auto simp: fresh_client_def static_receiver_def)
qed

text \<open>What the end of the loop leaves: no request allocated, no key, no transfer in progress.\<close>

definition cleaned :: "ChatClient \<Rightarrow> bool" where
  "cleaned c \<longleftrightarrow> cells (pending c) = Map.empty \<and> set (private_key c) \<subseteq> {0} \<and>
     (\<forall>i<MAX_INCOMING_FILES. \<not> if_active (slot (incoming c) i))"

lemma run_outcome:
  assumes run: "client_run env c = Some x" and loop: "client_loop (co_turns env) c = Some c1" and inv: "client_inv pid c1"
    and fd: "socket_fd (conn (active_connection c)) = fd" "0 \<le> fd"
  shows "ex_closed x = [fd]" "ex_code x = client_exit_code c1" "cleaned (ex_client x)"
    "i < MAX_INCOMING_FILES \<Longrightarrow> if_active (slot (incoming c1) i) \<Longrightarrow> dk_unlink (co_cleanup env i) \<Longrightarrow>
     names (fs (incoming (ex_client x))) (if_temp_path (slot (incoming c1) i)) = None"
proof -
  obtain c2 where c2: "client_cleanup (co_cleanup env) c1 = Some c2" and cl: "client_close (co_shutdown env) (client_exit_code c2) c2 = Some x"
    using run loop by (auto simp: client_run_def bind_eq_Some_conv split: if_splits)
  have s: "active_connection c2 = active_connection c1" "client_exit_code c2 = client_exit_code c1"
    "incoming c2 = cleanup_incoming_files (co_cleanup env) (incoming c1)" "private_key c2 = replicate (length (private_key c1)) 0"
    using c2 by (auto simp: client_cleanup_def bind_eq_Some_conv)
  have "cells (pending c2) = Map.empty" using cleanup_total [OF inv, of "co_cleanup env"] c2 by simp
  moreover have len: "length (incoming_files (incoming c1)) = MAX_INCOMING_FILES"
    using inv by (simp add: client_inv_def receiver_inv_def slots_ok_def)
  moreover have c2fd: "socket_fd (conn (active_connection c2)) = fd"
    using client_loop_socket [OF loop] s(1) fd(1) by (simp add: same_socket_def)
  ultimately show "ex_closed x = [fd]" "ex_code x = client_exit_code c1" "cleaned (ex_client x)"
    using close_client_effect [OF cl] fd(2) s cleanup_slots by (auto simp: cleaned_def)
  assume i: "i < MAX_INCOMING_FILES" "if_active (slot (incoming c1) i)" "dk_unlink (co_cleanup env i)"
  have "if_temp_path (slot (incoming c1) i) \<noteq> []"
    using inv i slots_okD [of DOWNLOAD_DIRECTORY pid "{}" "incoming c1" i]
    by (auto simp: client_inv_def receiver_inv_def slot_ok_def staged_def staging_of_def staging_name_def)
  then show "names (fs (incoming (ex_client x))) (if_temp_path (slot (incoming c1) i)) = None"
    using cleanup_unlinks [of _ i "co_cleanup env", OF len i(1,2) _ i(3)] close_client_effect [OF cl] c2fd fd(2) s(3) by simp
qed

text \<open>The descriptors closed by a client that does not reach its loop, and by one that does.\<close>

definition setup_closed :: "ClientOs \<Rightarrow> int list" where
  "setup_closed env = (if co_sigpipe env \<and> co_sodium_init env
     then case sk_socket (co_sockets env) of Inl _ \<Rightarrow> [] | Inr fd \<Rightarrow> [fd] else [])"

lemma setup_outcome:
  assumes su: "client_setup env f = Some r" and f: "fresh_nodes f"
    and fd: "\<forall>fd. sk_socket (co_sockets env) = Inr fd \<longrightarrow> 0 \<le> fd"
  shows "case r of
      Inl x \<Rightarrow> ex_code x = 1 \<and> ex_closed x = setup_closed env
    | Inr c \<Rightarrow> co_sigpipe env \<and> co_sodium_init env \<and>
        sk_socket (co_sockets env) = Inr (socket_fd (conn (active_connection c))) \<and>
        (\<exists>t' pk sk f'. c = fresh_client t' pk sk f' \<and> fresh_nodes f')"
proof (cases "co_sigpipe env \<and> co_sodium_init env")
  case False
  then show ?thesis using su by (cases "co_sigpipe env") (auto simp: client_setup_def setup_closed_def Let_def)
next
  case True
  obtain pk sk where keys: "co_keypair env = (pk, sk)" by (cases "co_keypair env")
  obtain q connection fds tr where con: "connect_to_server (co_sockets env) (co_handshake env) = Some (q, connection, fds, tr)"
    using su True keys by (auto simp: client_setup_def Let_def bind_eq_Some_conv)
  let ?c = "fresh_client ((co_stream env)\<lparr>conn := connection\<rparr>) pk sk f"
  have closing: "case q of Inl _ \<Rightarrow> fds = (case sk_socket (co_sockets env) of Inl _ \<Rightarrow> [] | Inr fd \<Rightarrow> [fd])
    | Inr _ \<Rightarrow> sk_socket (co_sockets env) = Inr (socket_fd connection) \<and> fds = []"
    by (rule connect_closing [OF con]) (use fd in blast)
  show ?thesis
  proof (cases q)
    case (Inl e)
    then show ?thesis using su True keys con closing by (auto simp: client_setup_def setup_closed_def Let_def)
  next
    case q: (Inr u)
    then have sock: "sk_socket (co_sockets env) = Inr (socket_fd connection)" "0 \<le> socket_fd connection"
      using closing fd by auto
    obtain p c1 where st: "client_start (co_input env) (co_directory env) ?c = Some (p, c1)"
      using su True keys con q by (auto simp: client_setup_def Let_def bind_eq_Some_conv)
    have c1: "socket_fd (conn (active_connection c1)) = socket_fd connection"
      using client_start_socket [OF st] by (simp add: same_socket_def fresh_client_def)
    have eq: "(case p of Inl _ \<Rightarrow> map_option Inl (client_close (co_shutdown env) 1 c1) | Inr _ \<Rightarrow> Some (Inr c1)) = Some r"
      using su True keys con q st by (simp add: client_setup_def Let_def)
    show ?thesis
    proof (cases p)
      case (Inl e)
      then obtain x where "client_close (co_shutdown env) 1 c1 = Some x" "r = Inl x" using eq by auto
      then show ?thesis using close_client_effect [of "co_shutdown env" 1 c1 x] c1 sock True by (simp add: setup_closed_def)
    next
      case (Inr v)
      then have "r = Inr c1" using eq by simp
      moreover have "\<exists>t' pk sk f'. c1 = fresh_client t' pk sk f' \<and> fresh_nodes f'"
        using started_fresh [OF st [unfolded Inr] f] by blast
      ultimately show ?thesis using c1 sock True by simp
    qed
  qed
qed

text \<open>
  C18. The client gives back what it took, on every way out of \<open>main\<close>. Its socket is closed
  exactly once when it was created, whatever failed afterwards, and nothing is closed when it
  was not. A client that could not be set up exits with 1. Once it was logged in, it exits
  with the code of its loop, no cell of the list of waiting requests is left allocated, the
  private key is overwritten with zeros, no transfer is in progress, and the staging file of
  every transfer that was, is gone from the download directory unless its removal failed.
\<close>

theorem client_exits_clean:
  assumes "client_main env f = Some x" and "fresh_nodes f"
    and "\<forall>fd. sk_socket (co_sockets env) = Inr fd \<longrightarrow> 0 \<le> fd"
    and "\<forall>turn\<in>set (co_turns env). dk_pid (ce_disk (ct_env turn)) = pid"
    and "\<forall>turn\<in>set (co_turns env). \<forall>line. ct_line turn = Some (Some line) \<longrightarrow> 0 \<notin> set line"
  shows "ex_closed x = (if co_sigpipe env \<and> co_sodium_init env
      then case sk_socket (co_sockets env) of Inl _ \<Rightarrow> [] | Inr fd \<Rightarrow> [fd] else []) \<and>
    (case client_setup env f of
       Some (Inr c) \<Rightarrow>
         cells (pending (ex_client x)) = Map.empty \<and> set (private_key (ex_client x)) \<subseteq> {0} \<and>
         (\<forall>i<MAX_INCOMING_FILES. \<not> if_active (slot (incoming (ex_client x)) i)) \<and>
         (\<exists>c1. client_loop (co_turns env) c = Some c1 \<and> ex_code x = client_exit_code c1 \<and>
            (\<forall>i<MAX_INCOMING_FILES. if_active (slot (incoming c1) i) \<and> dk_unlink (co_cleanup env i) \<longrightarrow>
               names (fs (incoming (ex_client x))) (if_temp_path (slot (incoming c1) i)) = None))
     | _ \<Rightarrow> ex_code x = 1)"
proof -
  obtain r where r: "client_setup env f = Some r" using assms(1) by (auto simp: client_main_def bind_eq_Some_conv)
  note out = setup_outcome [OF r assms(2)]
  show ?thesis
  proof (cases r)
    case (Inl y)
    then show ?thesis using assms(1,3) r out by (simp add: client_main_def setup_closed_def)
  next
    case (Inr c)
    then have run: "client_run env c = Some x" using assms(1) r by (simp add: client_main_def)
    obtain t' pk sk f' where fresh: "c = fresh_client t' pk sk f'" "fresh_nodes f'" and on: "co_sigpipe env \<and> co_sodium_init env"
      and sock: "sk_socket (co_sockets env) = Inr (socket_fd (conn (active_connection c)))" "0 \<le> socket_fd (conn (active_connection c))"
      using out Inr assms(3) by auto
    obtain c1 where loop: "client_loop (co_turns env) c = Some c1"
      using run by (auto simp: client_run_def bind_eq_Some_conv)
    have "client_inv pid c1"
      by (rule client_loop_inv [OF loop [unfolded fresh(1)] fresh_client_inv [OF fresh(2)]]) (use assms(4,5) in auto)
    note ran = run_outcome [OF run loop this refl sock(2)]
    show ?thesis using ran(1-3) ran(4) r Inr loop sock(1) on by (auto simp: cleaned_def setup_closed_def)
  qed
qed

section \<open>Example\<close>

text \<open>A login as bob, after which the input ends.\<close>

definition example_client_os :: ClientOs where
  "example_client_os = \<lparr>co_sigpipe = True, co_sodium_init = True, co_keypair = (replicate 32 2, replicate 32 3),
     co_sockets = \<lparr>sk_socket = Inr 5, sk_setsockopt = Inr (), sk_bind = Inr (), sk_listen = Inr (), sk_accept = Inr 0,
       sk_inet_pton = True, sk_connect = Inr ()\<rparr>,
     co_handshake = example_handshake,
     co_stream = \<lparr>conn = no_connection, tls_in = [0, 0, 0, 2, 104, 105], tls_reads = [ReadOk 9, ReadOk 9], tls_out = [],
       tls_writes = [WriteOk 99, WriteOk 99, WriteOk 99, WriteOk 99, WriteOk 99]\<rparr>,
     co_input = str ''bob'' @ [10], co_directory = example_disk,
     co_turns = [\<lparr>ct_env = example_env, ct_pending = False, ct_poll = Inr (True, False), ct_line = Some None\<rparr>],
     co_cleanup = (\<lambda>_. example_disk), co_shutdown = \<lparr>sd_start = Inl EIO, sd_nonblocking = False, sd_steps = []\<rparr>\<rparr>"

lemma example_connect:
  "\<exists>tr. connect_to_server (co_sockets example_client_os) (co_handshake example_client_os) =
     Some (Inr (), no_connection\<lparr>socket_fd := 5, ssl := Some 0\<rparr>, [], tr)"
  using example_handshake_run by (simp add: example_client_os_def connect_to_server_def)

abbreviation example_client_tls :: "bytes \<Rightarrow> read_answer list \<Rightarrow> bytes \<Rightarrow> write_answer list \<Rightarrow> Tls" where
  "example_client_tls i r out w \<equiv>
     \<lparr>conn = no_connection\<lparr>socket_fd := 5, ssl := Some 0\<rparr>, tls_in = i, tls_reads = r, tls_out = out, tls_writes = w\<rparr>"

lemma example_register:
  "get_username_and_register_in_server [98, 111, 98, 10] (example_client_tls i r [] (WriteOk 99 # WriteOk 99 # w)) =
     Some (Inr (), example_client_tls i r [0, 0, 0, 3, 98, 111, 98] w)"
  by (simp add: get_username_and_register_in_server_def fgets_def const_simps c_string_def isspace_def iscntrl_def sent_def
      send_message_def send_all_def connection_unusable_def no_connection_def be32_def tls_amount_def Let_def)

lemma example_welcome:
  "receive_welcome_message (example_client_tls [0, 0, 0, 2, 104, 105] [ReadOk 9, ReadOk 9] out w) =
     Some (Inr [104, 105], example_client_tls [] [] out w)"
  by (simp add: receive_welcome_message_def receive_message_def receive_prefixed_def recv_all_def recv_loop_ok
      connection_unusable_def no_connection_def tls_amount_def const_simps c_string_def)

lemma example_register_key:
  "\<exists>t n. send_frame (example_client_tls [] [] out [WriteOk 99, WriteOk 99, WriteOk 99]) FRAME_REGISTER_PK (replicate 32 2) =
     Some (Inr n, t)"
proof -
  have "replicate 32 (2 :: byte) = 2 # replicate 31 2" using replicate_Suc [of 31 "2 :: byte"] by simp
  then show ?thesis
    by (simp add: send_frame_def send_all_def connection_unusable_def no_connection_def be32_def tls_amount_def const_simps Let_def)
qed

lemma example_client_run: "\<exists>x. client_main example_client_os example_fs = Some x"
proof -
  let ?t = "example_client_tls [0, 0, 0, 2, 104, 105] [ReadOk 9, ReadOk 9] [] (WriteOk 99 # WriteOk 99 # [WriteOk 99, WriteOk 99, WriteOk 99])"
  let ?c = "fresh_client ?t (replicate 32 2) (replicate 32 3) example_fs"
  obtain t n where k: "send_frame (example_client_tls [] [] [0, 0, 0, 3, 98, 111, 98] [WriteOk 99, WriteOk 99, WriteOk 99])
      FRAME_REGISTER_PK (replicate 32 2) = Some (Inr n, t)" using example_register_key by blast
  obtain f where e: "ensure_download_directory example_disk DOWNLOAD_DIRECTORY example_fs = (Inr (), f)"
    using ensure_working [OF example_disk_simps(1)] by (simp add: DOWNLOAD_DIRECTORY_def)
  define c where "c = ?c\<lparr>active_connection := t, incoming := (incoming ?c)\<lparr>fs := f\<rparr>\<rparr>"
  have st: "client_start [98, 111, 98, 10] example_disk ?c = Some (Inr (), c)"
    using k e by (simp add: client_start_def c_def fresh_client_def example_register example_welcome static_receiver_def)
  obtain t' f' where fresh: "c = fresh_client t' (replicate 32 2) (replicate 32 3) f'" "fresh_nodes f'"
    using started_fresh [OF st example_fs_fresh] by blast
  have on: "connected c" "client_inv 7 (c\<lparr>connected := False\<rparr>)"
    using fresh_client_inv [OF fresh(2)] fresh(1) by (simp_all add: fresh_client_def client_inv_def)
  obtain c2 where c2: "client_cleanup (co_cleanup example_client_os) (c\<lparr>connected := False\<rparr>) = Some c2"
    using cleanup_total [OF on(2)] by blast
  have "shutdown_tls (co_shutdown example_client_os) = Some []" by (simp add: example_client_os_def shutdown_tls_def)
  then obtain x where x: "client_close (co_shutdown example_client_os) (client_exit_code c2) c2 = Some x"
    by (cases "shuts_down True (conn (active_connection c2))") (simp_all add: client_close_def close_connection_def Let_def)
  have o: "co_sigpipe example_client_os" "co_sodium_init example_client_os"
    "co_keypair example_client_os = (replicate 32 2, replicate 32 3)" "co_input example_client_os = [98, 111, 98, 10]"
    "co_directory example_client_os = example_disk"
    "(co_stream example_client_os)\<lparr>conn := no_connection\<lparr>socket_fd := 5, ssl := Some 0\<rparr>\<rparr> = ?t"
    by (simp_all add: example_client_os_def)
  have turns: "co_turns example_client_os = [\<lparr>ct_env = example_env, ct_pending = False, ct_poll = Inr (True, False), ct_line = Some None\<rparr>]"
    by (simp add: example_client_os_def)
  have "client_run example_client_os c = Some x"
    using on(1) c2 x by (simp add: client_run_def turns client_turn_def handle_input_def)
  then have "client_main example_client_os example_fs = Some x"
    using example_connect st by (auto simp: client_main_def client_setup_def Let_def o)
  then show ?thesis by blast
qed

theorem client_exits_clean_witness:
  "\<exists>x. client_main example_client_os example_fs = Some x \<and> ex_closed x = [5]"
proof -
  obtain x where x: "client_main example_client_os example_fs = Some x" using example_client_run by blast
  have "\<forall>fd. sk_socket (co_sockets example_client_os) = Inr fd \<longrightarrow> 0 \<le> fd"
    "\<forall>turn\<in>set (co_turns example_client_os). dk_pid (ce_disk (ct_env turn)) = 7"
    "\<forall>turn\<in>set (co_turns example_client_os). \<forall>line. ct_line turn = Some (Some line) \<longrightarrow> 0 \<notin> set line"
    by (simp_all add: example_client_os_def example_env_def example_disk_simps)
  from client_exits_clean [OF x example_fs_fresh this] x show ?thesis by (auto simp: example_client_os_def)
qed

end
