(* ===== verification/Outgoing_List.thy ===== *)
theory Outgoing_List
  imports Registry_Properties Linked_List
begin

text \<open>
  The queues of outgoing frames as \<open>client_manager.c\<close> keeps them: cells on one heap, and for each
  slot of the registry the pointers \<open>outgoing_head\<close> and \<open>outgoing_tail\<close>. \<open>Client_Manager\<close> models a
  queue by the list of its frames; here the three functions that touch the pointers are
  written with them, on a registry whose list fields are not used, and shown to do the same.
  A function is \<open>None\<close> when it would read through a pointer to a cell that is not allocated.
\<close>

section \<open>Operations\<close>

record FrameHeap =
  fh_cells :: "OutgoingFrame heap"
  fh_next :: nat
  outgoing_head :: "nat \<Rightarrow> nat option"
  outgoing_tail :: "nat \<Rightarrow> nat option"

text \<open>\<open>malloc\<close> of a frame, at an address not in use, and \<open>free\<close>.\<close>

definition new_frame :: "OutgoingFrame \<Rightarrow> FrameHeap \<Rightarrow> nat \<times> FrameHeap" where
  "new_frame f fh =
     (fh_next fh, fh\<lparr>fh_cells := (fh_cells fh)(fh_next fh \<mapsto> \<lparr>cell_data = f, cell_next = None\<rparr>), fh_next := Suc (fh_next fh)\<rparr>)"

definition free_frame :: "nat \<Rightarrow> FrameHeap \<Rightarrow> FrameHeap" where
  "free_frame a fh = fh\<lparr>fh_cells := (fh_cells fh)(a := None)\<rparr>"

text \<open>The heap before the first \<open>malloc\<close>, and what \<open>init_clients\<close> does to the pointers.\<close>

definition no_frames :: FrameHeap where
  "no_frames = \<lparr>fh_cells = Map.empty, fh_next = 0, outgoing_head = \<lambda>_. None, outgoing_tail = \<lambda>_. None\<rparr>"

definition init_clients_linked :: "Registry \<Rightarrow> FrameHeap \<Rightarrow> Registry \<times> FrameHeap" where
  "init_clients_linked reg fh =
     (init_clients reg,
      fh\<lparr>outgoing_head := \<lambda>i. if i < MAX_CLIENTS then None else outgoing_head fh i,
         outgoing_tail := \<lambda>i. if i < MAX_CLIENTS then None else outgoing_tail fh i\<rparr>)"

text \<open>Linking a frame in at the tail of slot \<open>i\<close>.\<close>

definition link_frame :: "nat \<Rightarrow> nat \<Rightarrow> FrameHeap \<Rightarrow> FrameHeap" where
  "link_frame i a fh =
     (let fh1 = (case outgoing_tail fh i of
                   Some t \<Rightarrow> fh\<lparr>fh_cells := set_next t (Some a) (fh_cells fh)\<rparr>
                 | None \<Rightarrow> fh\<lparr>outgoing_head := (outgoing_head fh)(i := Some a)\<rparr>)
      in fh1\<lparr>outgoing_tail := (outgoing_tail fh1)(i := Some a)\<rparr>)"

definition queue_frame_linked ::
  "Registry \<Rightarrow> FrameHeap \<Rightarrow> ClientId \<Rightarrow> FrameType \<Rightarrow> bytes \<Rightarrow> Registry \<times> FrameHeap \<times> unit result" where
  "queue_frame_linked reg fh client_id type payload =
     (if client_id = INVALID_CLIENT_ID \<or> \<not> is_valid_frame_type type then (reg, fh, Inl EINVAL)
      else if FRAME_MAX_SIZE - 1 < length payload then (reg, fh, Inl EMSGSIZE)
      else let (allocated, reg1) = malloc reg
      in if \<not> allocated then (reg1, fh, Inl ENOMEM)
      else let (frame, fh1) = new_frame \<lparr>of_type = type, of_payload = payload\<rparr> fh
      in case find_slot (\<lambda>c. \<not> (\<not> c_active c \<or> \<not> c_ready c \<or> c_id c \<noteq> client_id)) (clients reg1) of
        None \<Rightarrow> (reg1, free_frame frame fh1, Inl ENOENT)
      | Some i \<Rightarrow>
          let c = clients reg1 ! i; (notified, reg2) = eventfd_write (c_wake_fd c) reg1
          in case notified of
               WakeFailed e \<Rightarrow> (reg2, free_frame frame fh1, Inl e)
             | _ \<Rightarrow>
                 if MAX_OUTGOING_FRAMES \<le> c_outgoing_count c
                 then (reg2\<lparr>clients := (clients reg2)[i := c\<lparr>c_outgoing_failed := True, c_ready := False\<rparr>]\<rparr>,
                       free_frame frame fh1, Inl ENOBUFS)
                 else (reg2\<lparr>clients := (clients reg2)[i := c\<lparr>c_outgoing_count := Suc (c_outgoing_count c)\<rparr>]\<rparr>,
                       link_frame i frame fh1, Inr ()))"

text \<open>Taking the first frame out of slot \<open>i\<close>: its address.\<close>

definition unlink_frame :: "nat \<Rightarrow> nat \<Rightarrow> FrameHeap \<Rightarrow> FrameHeap option" where
  "unlink_frame i a fh =
     do { c \<leftarrow> fh_cells fh a;
          let fh1 = fh\<lparr>outgoing_head := (outgoing_head fh)(i := cell_next c)\<rparr>;
              fh2 = (if outgoing_head fh1 i = None then fh1\<lparr>outgoing_tail := (outgoing_tail fh1)(i := None)\<rparr> else fh1)
          in Some (fh2\<lparr>fh_cells := set_next a None (fh_cells fh2)\<rparr>) }"

definition take_frame_linked ::
  "Registry \<Rightarrow> FrameHeap \<Rightarrow> ClientId \<Rightarrow> (Registry \<times> FrameHeap \<times> nat option result) option" where
  "take_frame_linked reg fh client_id =
     (if client_id = INVALID_CLIENT_ID then Some (reg, fh, Inl EINVAL)
      else case find_slot (\<lambda>c. \<not> (\<not> c_active c \<or> c_id c \<noteq> client_id)) (clients reg) of
        None \<Rightarrow> Some (reg, fh, Inl ENOENT)
      | Some i \<Rightarrow>
          let c = clients reg ! i
          in if c_outgoing_failed c then Some (reg, fh, Inl ENOBUFS)
             else case outgoing_head fh i of
                    None \<Rightarrow> Some (reg, fh, Inr None)
                  | Some a \<Rightarrow>
                      do { fh1 \<leftarrow> unlink_frame i a fh;
                           Some (reg\<lparr>clients := (clients reg)[i := c\<lparr>c_outgoing_count := c_outgoing_count c - 1\<rparr>]\<rparr>,
                                 fh1, Inr (Some a)) })"

text \<open>The loop of \<open>remove_client\<close> that frees what was still queued.\<close>

partial_function (option) free_pending :: "nat option \<Rightarrow> FrameHeap \<Rightarrow> FrameHeap option" where
  "free_pending pending fh =
     (if pending = None then Some fh
      else do { c \<leftarrow> fh_cells fh (the pending); free_pending (cell_next c) (free_frame (the pending) fh) })"

definition remove_client_linked ::
  "Registry \<Rightarrow> FrameHeap \<Rightarrow> int \<Rightarrow> (Registry \<times> FrameHeap \<times> (int \<times> Connection) option) option" where
  "remove_client_linked reg fh index =
     (if index < 0 \<or> int MAX_CLIENTS \<le> index then Some (reg, fh, None)
      else let i = nat index; c = clients reg ! i
           in if \<not> c_active c then Some (reg, fh, None)
              else let pending = outgoing_head fh i;
                       fh1 = fh\<lparr>outgoing_head := (outgoing_head fh)(i := None), outgoing_tail := (outgoing_tail fh)(i := None)\<rparr>
                   in do { fh2 \<leftarrow> free_pending pending fh1;
                           Some (reg\<lparr>clients := (clients reg)[i :=
                             c\<lparr>c_wake_fd := -1, c_connection := no_connection, c_username := [], c_active := False,
                               c_ready := False, c_id := INVALID_CLIENT_ID, c_has_public_key := False,
                               c_public_key := replicate CHAT_PUBLIC_KEY_SIZE 0,
                               c_outgoing_count := 0, c_outgoing_failed := False\<rparr>]\<rparr>,
                                 fh2, Some (c_wake_fd c, c_connection c)) })"

section \<open>The heap\<close>

type_synonym queues = "nat \<Rightarrow> (nat \<times> OutgoingFrame) list"

definition addresses :: "(nat \<times> OutgoingFrame) list \<Rightarrow> nat set" where
  "addresses cs = fst ` set cs"

lemma addresses_simps [simp]:
  "addresses [] = {}" "addresses (c # cs) = insert (fst c) (addresses cs)" "addresses (as @ bs) = addresses as \<union> addresses bs"
  by (auto simp: addresses_def)

lemma chain_addresses [simp]:
  "a \<notin> addresses cs \<Longrightarrow> chain (h(a := v)) x cs y \<longleftrightarrow> chain h x cs y"
  "a \<notin> addresses cs \<Longrightarrow> chain (set_next a m h) x cs y \<longleftrightarrow> chain h x cs y"
  by (simp_all add: addresses_def)

text \<open>
  The queues of \<open>n\<close> slots share the heap without sharing a cell, \<open>loose\<close> are the frames that are
  allocated and in no queue, and nothing else is allocated.
\<close>

definition heap_ok :: "nat \<Rightarrow> nat set \<Rightarrow> FrameHeap \<Rightarrow> queues \<Rightarrow> bool" where
  "heap_ok n loose fh css \<longleftrightarrow>
     (\<forall>i<n. chain (fh_cells fh) (outgoing_head fh i) (css i) None \<and> distinct (map fst (css i)) \<and>
        outgoing_tail fh i = (if css i = [] then None else Some (fst (last (css i)))) \<and> addresses (css i) \<inter> loose = {}) \<and>
     (\<forall>i<n. \<forall>j<n. i \<noteq> j \<longrightarrow> addresses (css i) \<inter> addresses (css j) = {}) \<and>
     dom (fh_cells fh) = (\<Union>i<n. addresses (css i)) \<union> loose \<and> (\<forall>a\<in>dom (fh_cells fh). a < fh_next fh)"

lemma heap_okD:
  assumes "heap_ok n loose fh css" "i < n"
  shows "chain (fh_cells fh) (outgoing_head fh i) (css i) None" "distinct (map fst (css i))"
    "outgoing_tail fh i = (if css i = [] then None else Some (fst (last (css i))))" "addresses (css i) \<inter> loose = {}"
  using assms by (auto simp: heap_ok_def)

lemma heap_ok_disjoint:
  "heap_ok n loose fh css \<Longrightarrow> i < n \<Longrightarrow> j < n \<Longrightarrow> i \<noteq> j \<Longrightarrow> a \<in> addresses (css i) \<Longrightarrow> a \<notin> addresses (css j)"
  unfolding heap_ok_def by blast

lemma new_frame_ok:
  assumes "heap_ok n loose fh css" "new_frame f fh = (a, fh')"
  shows "heap_ok n (insert a loose) fh' css" "a \<notin> loose" "fh_cells fh' a = Some \<lparr>cell_data = f, cell_next = None\<rparr>"
proof -
  have b: "\<forall>x\<in>dom (fh_cells fh). x < fh_next fh" using assms(1) by (simp add: heap_ok_def)
  moreover have "a = fh_next fh" using assms(2) by (simp add: new_frame_def)
  ultimately have a: "a \<notin> dom (fh_cells fh)" by blast
  then have n: "\<forall>i<n. a \<notin> addresses (css i)" "a \<notin> loose" using assms(1) by (auto simp: heap_ok_def)
  have fh': "fh_cells fh' = (fh_cells fh)(a \<mapsto> \<lparr>cell_data = f, cell_next = None\<rparr>)" "fh_next fh' = Suc a"
    "outgoing_head fh' = outgoing_head fh" "outgoing_tail fh' = outgoing_tail fh" "a = fh_next fh"
    using assms(2) by (auto simp: new_frame_def)
  have "\<forall>x\<in>dom (fh_cells fh'). x < fh_next fh'" using b fh' by (auto intro: less_SucI)
  then show "heap_ok n (insert a loose) fh' css" "a \<notin> loose" "fh_cells fh' a = Some \<lparr>cell_data = f, cell_next = None\<rparr>"
    using assms(1) n fh'(1,3,4) by (auto simp: heap_ok_def)
qed

lemma free_frame_ok:
  assumes "heap_ok n loose fh css" "a \<in> loose"
  shows "heap_ok n (loose - {a}) (free_frame a fh) css"
proof -
  have "\<forall>i<n. a \<notin> addresses (css i)" using assms by (auto simp: heap_ok_def)
  then show ?thesis using assms by (auto simp: heap_ok_def free_frame_def)
qed

text \<open>Changing the queue of one slot only.\<close>

lemma heap_ok_slot:
  assumes ok: "heap_ok n loose fh css" and i: "i < n"
    and ch: "chain (fh_cells fh') (outgoing_head fh' i) cs None" "distinct (map fst cs)"
      "outgoing_tail fh' i = (if cs = [] then None else Some (fst (last cs)))"
    and addr: "addresses cs \<union> loose' = addresses (css i) \<union> loose" "addresses cs \<inter> loose' = {}"
    and same: "\<And>j. j \<noteq> i \<Longrightarrow> outgoing_head fh' j = outgoing_head fh j" "\<And>j. j \<noteq> i \<Longrightarrow> outgoing_tail fh' j = outgoing_tail fh j"
      "\<And>j. j < n \<Longrightarrow> j \<noteq> i \<Longrightarrow> chain (fh_cells fh') (outgoing_head fh j) (css j) None"
      "dom (fh_cells fh') = dom (fh_cells fh)" "fh_next fh' = fh_next fh"
  shows "heap_ok n loose' fh' (css(i := cs))"
proof -
  have disj: "addresses (css j) \<inter> addresses (css i) = {}" "addresses (css j) \<inter> loose = {}" if "j < n" "j \<noteq> i" for j
    using ok i that by (auto simp: heap_ok_def)
  have other: "addresses (css j) \<inter> addresses cs = {}" "addresses (css j) \<inter> loose' = {}" if "j < n" "j \<noteq> i" for j
    using disj [OF that] addr(1) by blast+
  have "(\<Union>j<n. addresses ((css(i := cs)) j)) = (\<Union>j\<in>{..<n} - {i}. addresses (css j)) \<union> addresses cs"
    "(\<Union>j<n. addresses (css j)) = (\<Union>j\<in>{..<n} - {i}. addresses (css j)) \<union> addresses (css i)" using i by (auto split: if_splits)
  then have "(\<Union>j<n. addresses ((css(i := cs)) j)) \<union> loose' = (\<Union>j<n. addresses (css j)) \<union> loose"
    using addr(1) by (simp only: Un_assoc)
  then have dom: "dom (fh_cells fh') = (\<Union>j<n. addresses ((css(i := cs)) j)) \<union> loose'"
    using ok same(4) by (simp only: heap_ok_def)
  have "(\<forall>j<n. chain (fh_cells fh') (outgoing_head fh' j) ((css(i := cs)) j) None \<and> distinct (map fst ((css(i := cs)) j)) \<and>
      outgoing_tail fh' j = (if (css(i := cs)) j = [] then None else Some (fst (last ((css(i := cs)) j)))) \<and>
      addresses ((css(i := cs)) j) \<inter> loose' = {})"
    using ch addr(2) same(1-3) other(2) heap_okD [OF ok] by simp
  moreover have "\<forall>j<n. \<forall>k<n. j \<noteq> k \<longrightarrow> addresses ((css(i := cs)) j) \<inter> addresses ((css(i := cs)) k) = {}"
    using ok other(1) by (simp add: heap_ok_def Int_commute)
  ultimately show ?thesis using dom ok same(4,5) by (simp add: heap_ok_def)
qed

lemma link_frame_ok:
  assumes ok: "heap_ok n loose fh css" and i: "i < n" and a: "a \<in> loose" "fh_cells fh a = Some \<lparr>cell_data = f, cell_next = None\<rparr>"
  shows "heap_ok n (loose - {a}) (link_frame i a fh) (css(i := css i @ [(a, f)]))"
proof -
  note q = heap_okD [OF ok i]
  have new: "a \<notin> addresses (css i)" using q(4) a(1) by blast
  show ?thesis
  proof (cases "css i = []")
    case True
    show ?thesis
      by (rule heap_ok_slot [OF ok i]) (use True q a heap_okD(1) [OF ok] in \<open>auto simp: link_frame_def Let_def\<close>)
  next
    case False
    then have t: "outgoing_tail fh i = Some (fst (last (css i)))" "fst (last (css i)) \<in> addresses (css i)"
      using q(3) by (auto simp: addresses_def)
    have upd: "(fh_cells fh)(a \<mapsto> \<lparr>cell_data = f, cell_next = None\<rparr>) = fh_cells fh" using a(2) by (simp add: fun_upd_idem)
    have "chain (set_next (fst (last (css i))) (Some a) (fh_cells fh)) (outgoing_head fh i) (css i @ [(a, f)]) None"
      using chain_link [OF q(1,2) _ False, of a f] new by (simp add: upd addresses_def)
    moreover have "fst (last (css i)) \<notin> addresses (css j)" if "j < n" "j \<noteq> i" for j
      using heap_ok_disjoint [OF ok i that(1) _ t(2)] that(2) by blast
    ultimately show ?thesis
      by (intro heap_ok_slot [OF ok i])
         (use False q t new a heap_okD(1) [OF ok] in \<open>auto simp: link_frame_def Let_def addresses_def\<close>)
  qed
qed

lemma unlink_frame_ok:
  assumes ok: "heap_ok n loose fh css" and i: "i < n" and cs: "css i = (a, f) # cs"
  shows "\<exists>fh'. unlink_frame i a fh = Some fh' \<and> heap_ok n (insert a loose) fh' (css(i := cs)) \<and>
    fh_cells fh' a = Some \<lparr>cell_data = f, cell_next = None\<rparr>"
proof -
  note q = heap_okD [OF ok i, unfolded cs]
  obtain m where m: "outgoing_head fh i = Some a" "fh_cells fh a = Some \<lparr>cell_data = f, cell_next = m\<rparr>" "chain (fh_cells fh) m cs None"
    using q(1) by auto
  define fh' where "fh' = the (unlink_frame i a fh)"
  have u: "unlink_frame i a fh = Some fh'" using m by (simp add: unlink_frame_def fh'_def Let_def)
  have a: "a \<notin> addresses cs" using q(2) by (simp add: addresses_def)
  have other: "a \<notin> addresses (css j)" if "j < n" "j \<noteq> i" for j
    using heap_ok_disjoint [OF ok i that(1), of a] that(2) cs by simp
  have fin: "m = None \<longleftrightarrow> cs = []" using m(3) by (cases cs) auto
  have fh': "fh_cells fh' = set_next a None (fh_cells fh)" "outgoing_head fh' = (outgoing_head fh)(i := m)"
    "outgoing_tail fh' = (if m = None then (outgoing_tail fh)(i := None) else outgoing_tail fh)" "fh_next fh' = fh_next fh"
    using m by (auto simp: fh'_def unlink_frame_def Let_def)
  have "heap_ok n (insert a loose) fh' (css(i := cs))"
    by (rule heap_ok_slot [OF ok i]) (use q m(3) a other fin fh' cs heap_okD(1) [OF ok] in auto)
  then show ?thesis using u m(2) fh'(1) by (auto simp: set_next_def)
qed

lemma free_pending_ok:
  assumes "heap_ok n (addresses cs) fh css" "chain (fh_cells fh) p cs None" "distinct (map fst cs)"
  shows "\<exists>fh'. free_pending p fh = Some fh' \<and> heap_ok n {} fh' css"
  using assms
proof (induction cs arbitrary: p fh)
  case Nil
  then show ?case by (subst free_pending.simps) simp
next
  case (Cons c cs)
  obtain m where m: "p = Some (fst c)" "fh_cells fh (fst c) = Some \<lparr>cell_data = snd c, cell_next = m\<rparr>" "chain (fh_cells fh) m cs None"
    using Cons.prems(2) by auto
  have new: "fst c \<notin> addresses cs" using Cons.prems(3) by (simp add: addresses_def)
  have ok: "heap_ok n (addresses cs) (free_frame (fst c) fh) css"
    using free_frame_ok [OF Cons.prems(1), of "fst c"] new by simp
  have ch: "chain (fh_cells (free_frame (fst c) fh)) m cs None" using m(3) new by (simp add: free_frame_def)
  obtain fh' where "free_pending m (free_frame (fst c) fh) = Some fh'" "heap_ok n {} fh' css"
    using Cons.IH [OF ok ch] Cons.prems(3) by auto
  then show ?case using m by (subst free_pending.simps) simp
qed

lemma clear_slot_ok:
  assumes ok: "heap_ok n {} fh css" and i: "i < n"
  shows "heap_ok n (addresses (css i))
    (fh\<lparr>outgoing_head := (outgoing_head fh)(i := None), outgoing_tail := (outgoing_tail fh)(i := None)\<rparr>) (css(i := []))"
  by (rule heap_ok_slot [OF ok i]) (use heap_okD(1) [OF ok] in auto)

section \<open>The refinement\<close>

text \<open>
  A registry with lists and one with pointers: the same but for the list fields, and the lists
  are what the pointers lead to.
\<close>

definition stripped :: "Registry \<Rightarrow> Registry" where
  "stripped reg = reg\<lparr>clients := map (\<lambda>c. c\<lparr>c_outgoing := []\<rparr>) (clients reg)\<rparr>"

definition linked :: "nat set \<Rightarrow> Registry \<Rightarrow> FrameHeap \<Rightarrow> Registry \<Rightarrow> bool" where
  "linked loose lreg fh reg \<longleftrightarrow> lreg = stripped reg \<and>
     (\<exists>css. heap_ok (length (clients reg)) loose fh css \<and>
        (\<forall>i<length (clients reg). map snd (css i) = c_outgoing (clients reg ! i)))"

lemma linkedE:
  assumes "linked loose lreg fh reg"
  obtains css where "lreg = stripped reg" "heap_ok (length (clients reg)) loose fh css"
    "\<And>i. i < length (clients reg) \<Longrightarrow> map snd (css i) = c_outgoing (clients reg ! i)"
  using assms by (auto simp: linked_def)

lemma stripped_simps [simp]:
  "clients (stripped reg) = map (\<lambda>c. c\<lparr>c_outgoing := []\<rparr>) (clients reg)"
  "malloc (stripped reg) = (fst (malloc reg), stripped (snd (malloc reg)))"
  "eventfd_write fd (stripped reg) = (fst (eventfd_write fd reg), stripped (snd (eventfd_write fd reg)))"
  by (auto simp: stripped_def malloc_def eventfd_write_def tick_def split: option.splits)

lemma stripped_update:
  "(stripped reg)\<lparr>clients := cs\<rparr> = reg\<lparr>clients := cs\<rparr>"
  "stripped (reg\<lparr>clients := cs\<rparr>) = reg\<lparr>clients := map (\<lambda>c. c\<lparr>c_outgoing := []\<rparr>) cs\<rparr>"
  by (simp_all add: stripped_def)

lemma outgoing_last [simp]:
  "c\<lparr>c_outgoing := fs, c_outgoing_failed := b, c_ready := d\<rparr> = c\<lparr>c_outgoing_failed := b, c_ready := d, c_outgoing := fs\<rparr>"
  "c\<lparr>c_outgoing := fs, c_outgoing_count := n\<rparr> = c\<lparr>c_outgoing_count := n, c_outgoing := fs\<rparr>"
  by (cases c, simp)+

lemma find_slot_map: "find_slot P (map f xs) = find_slot (\<lambda>x. P (f x)) xs"
  by (induction xs) auto

text \<open>A change of one slot and of the queue it leads to.\<close>

lemma linked_update:
  assumes "heap_ok (length (clients reg)) loose fh (css(i := cs))" "i < length (clients reg)"
    and "\<And>j. j < length (clients reg) \<Longrightarrow> map snd (css j) = c_outgoing (clients reg ! j)"
    and "clients reg' = (clients reg)[i := c]" "map snd cs = c_outgoing c" "lreg = stripped reg'"
  shows "linked loose lreg fh reg'"
  unfolding linked_def using assms by (intro conjI exI [of _ "css(i := cs)"]) (auto simp: nth_list_update)

lemma linked_cong: "linked loose (stripped reg) fh reg \<Longrightarrow> clients reg' = clients reg \<Longrightarrow> linked loose (stripped reg') fh reg'"
  by (simp add: linked_def)

text \<open>A frame that was allocated and then linked in at the end of slot \<open>i\<close>, or freed again.\<close>

lemma linked_push:
  assumes "heap_ok (length (clients reg)) {} fh css" "new_frame f fh = (a, fh1)" "i < length (clients reg)"
    and "\<And>j. j < length (clients reg) \<Longrightarrow> map snd (css j) = c_outgoing (clients reg ! j)"
    and "clients reg' = (clients reg)[i := c]" "c_outgoing c = c_outgoing (clients reg ! i) @ [f]"
  shows "linked {} (stripped reg') (link_frame i a fh1) reg'"
proof -
  note fresh = new_frame_ok [OF assms(1,2)]
  have "heap_ok (length (clients reg)) {} (link_frame i a fh1) (css(i := css i @ [(a, f)]))"
    using link_frame_ok [OF fresh(1) assms(3) _ fresh(3)] fresh(2) by simp
  then show ?thesis by (rule linked_update) (use assms in auto)
qed

lemma linked_discard:
  assumes "heap_ok (length (clients reg)) {} fh css" "new_frame f fh = (a, fh1)"
    and "\<And>j. j < length (clients reg) \<Longrightarrow> map snd (css j) = c_outgoing (clients reg ! j)"
    and "length (clients reg') = length (clients reg)"
      "\<And>j. j < length (clients reg) \<Longrightarrow> c_outgoing (clients reg' ! j) = c_outgoing (clients reg ! j)"
  shows "linked {} (stripped reg') (free_frame a fh1) reg'"
proof -
  note fresh = new_frame_ok [OF assms(1,2)]
  have "heap_ok (length (clients reg)) {} (free_frame a fh1) css" using free_frame_ok [OF fresh(1), of a] fresh(2) by simp
  then show ?thesis unfolding linked_def using assms(3-5) by auto
qed

lemma queue_refines:
  assumes l: "linked {} lreg fh reg" and q: "queue_frame_linked lreg fh client_id type payload = (lreg', fh', r)"
  shows "\<exists>reg'. queue_frame_to_client_id reg client_id type payload = (reg', r) \<and> linked {} lreg' fh' reg'"
proof -
  let ?f = "\<lparr>of_type = type, of_payload = payload\<rparr>"
  obtain css where lreg: "lreg = stripped reg" and ok: "heap_ok (length (clients reg)) {} fh css"
    and css: "\<And>i. i < length (clients reg) \<Longrightarrow> map snd (css i) = c_outgoing (clients reg ! i)" using linkedE [OF l] by metis
  obtain a fh1 where n: "new_frame ?f fh = (a, fh1)" by fastforce
  note discard = linked_discard [OF ok n css]
  obtain okm reg1 where m: "malloc reg = (okm, reg1)" by fastforce
  have m': "clients reg1 = clients reg" using malloc_frame [OF m] by simp
  let ?P = "\<lambda>c. \<not> (\<not> c_active c \<or> \<not> c_ready c \<or> c_id c \<noteq> client_id)"
  show ?thesis
  proof (cases "client_id = 0 \<or> \<not> is_valid_frame_type type \<or> FRAME_MAX_SIZE - 1 < length payload \<or> \<not> okm")
    case True
    have "linked {} (stripped reg1) fh reg1" using linked_cong [of "{}" reg fh reg1] l lreg m' by simp
    then show ?thesis using True q l lreg m by (auto simp: queue_frame_linked_def queue_frame_to_client_id_def split: if_splits)
  next
    case valid: False
    show ?thesis
    proof (cases "find_slot ?P (clients reg)")
      case None
      then show ?thesis using valid q lreg m m' n discard [of reg1]
        by (auto simp: queue_frame_linked_def queue_frame_to_client_id_def find_slot_map)
    next
      case (Some i)
      have i: "i < length (clients reg)" using find_slotD [OF Some] by blast
      let ?c = "clients reg ! i"
      obtain w reg2 where w: "eventfd_write (c_wake_fd ?c) reg1 = (w, reg2)" by fastforce
      have w': "clients reg2 = clients reg" using eventfd_write_frame [OF w] m' by simp
      note eqs = queue_frame_linked_def queue_frame_to_client_id_def find_slot_map
      show ?thesis
      proof (cases "(\<exists>e. w = WakeFailed e) \<or> MAX_OUTGOING_FRAMES \<le> c_outgoing_count ?c")
        case True
        let ?reg = "reg2\<lparr>clients := (clients reg2)[i := ?c\<lparr>c_outgoing_failed := True, c_ready := False\<rparr>]\<rparr>"
        have "linked {} (stripped ?reg) (free_frame a fh1) ?reg" "linked {} (stripped reg2) (free_frame a fh1) reg2"
          by (rule discard; simp add: w' nth_list_update i)+
        then show ?thesis using True valid q lreg m m' n Some i w w'
          by (cases w) (auto simp: eqs Let_def stripped_update map_update)
      next
        case False
        let ?d = "?c\<lparr>c_outgoing := c_outgoing ?c @ [?f], c_outgoing_count := Suc (c_outgoing_count ?c)\<rparr>"
        have "linked {} (stripped (reg2\<lparr>clients := (clients reg2)[i := ?d]\<rparr>)) (link_frame i a fh1) (reg2\<lparr>clients := (clients reg2)[i := ?d]\<rparr>)"
          by (rule linked_push [OF ok n i css, where c = ?d]) (simp_all add: w')
        then show ?thesis using False valid q lreg m m' n Some i w w'
          by (cases w) (auto simp: eqs Let_def stripped_update map_update)
      qed
    qed
  qed
qed

text \<open>A frame that was taken belongs to the caller, who frees it after copying it.\<close>

lemma take_refines:
  assumes l: "linked {} lreg fh reg"
  shows "\<exists>lreg' fh' r reg' s. take_frame_linked lreg fh client_id = Some (lreg', fh', r) \<and>
    take_outgoing_frame reg client_id = (reg', s) \<and>
    (case r of
       Inr (Some a) \<Rightarrow> \<exists>f. s = Inr (Some f) \<and> fh_cells fh' a = Some \<lparr>cell_data = f, cell_next = None\<rparr> \<and>
         linked {a} lreg' fh' reg' \<and> linked {} lreg' (free_frame a fh') reg'
     | Inr None \<Rightarrow> s = Inr None \<and> linked {} lreg' fh' reg'
     | Inl e \<Rightarrow> s = Inl e \<and> linked {} lreg' fh' reg')"
proof -
  let ?P = "\<lambda>c. \<not> (\<not> c_active c \<or> c_id c \<noteq> client_id)"
  obtain css where lreg: "lreg = stripped reg" and ok: "heap_ok (length (clients reg)) {} fh css"
    and css: "\<And>i. i < length (clients reg) \<Longrightarrow> map snd (css i) = c_outgoing (clients reg ! i)" using linkedE [OF l] by metis
  note eqs = take_frame_linked_def take_outgoing_frame_def find_slot_map Let_def
  show ?thesis
  proof (cases "client_id = 0 \<or> find_slot ?P (clients reg) = None")
    case True
    then show ?thesis using l lreg by (auto simp: eqs)
  next
    case False
    then obtain i where P: "find_slot ?P (clients reg) = Some i" by auto
    have i: "i < length (clients reg)" using find_slotD [OF P] by blast
    let ?c = "clients reg ! i"
    show ?thesis
    proof (cases "c_outgoing_failed ?c \<or> css i = []")
      case True
      then have "c_outgoing ?c = [] \<and> outgoing_head fh i = None \<or> c_outgoing_failed ?c"
        using css [OF i] heap_okD(1) [OF ok i] by auto
      then show ?thesis using False P i l lreg by (cases "c_outgoing_failed ?c") (auto simp: eqs)
    next
      case running: False
      then obtain a f cs where cs: "css i = (a, f) # cs" by (cases "css i") auto
      obtain fh' where u: "unlink_frame i a fh = Some fh'" "heap_ok (length (clients reg)) {a} fh' (css(i := cs))"
        "fh_cells fh' a = Some \<lparr>cell_data = f, cell_next = None\<rparr>" using unlink_frame_ok [OF ok i cs] by auto
      let ?reg = "reg\<lparr>clients := (clients reg)[i := ?c\<lparr>c_outgoing := map snd cs, c_outgoing_count := c_outgoing_count ?c - 1\<rparr>]\<rparr>"
      have o: "c_outgoing ?c = f # map snd cs" "outgoing_head fh i = Some a" using css [OF i] heap_okD(1) [OF ok i] cs by auto
      note upd = linked_update [where c = "?c\<lparr>c_outgoing := map snd cs, c_outgoing_count := c_outgoing_count ?c - 1\<rparr>" and cs = cs, OF _ i css]
      have 1: "linked {a} (stripped ?reg) fh' ?reg" by (rule upd [OF u(2)]) simp_all
      have "heap_ok (length (clients reg)) {} (free_frame a fh') (css(i := cs))" using free_frame_ok [OF u(2), of a] by simp
      then have 2: "linked {} (stripped ?reg) (free_frame a fh') ?reg" by (rule upd) simp_all
      have "take_frame_linked lreg fh client_id = Some (stripped ?reg, fh', Inr (Some a))"
        "take_outgoing_frame reg client_id = (?reg, Inr (Some f))"
        using False P i running lreg o u(1) by (auto simp: eqs stripped_update map_update)
      then show ?thesis using 1 2 u(3) by auto
    qed
  qed
qed

lemma remove_refines:
  assumes l: "linked {} lreg fh reg" and len: "length (clients reg) = MAX_CLIENTS"
  shows "\<exists>lreg' fh' r. remove_client_linked lreg fh index = Some (lreg', fh', r) \<and>
    linked {} lreg' fh' (fst (remove_client reg index)) \<and>
    r = map_option (\<lambda>(wake_fd, _, connection). (wake_fd, connection)) (snd (remove_client reg index))"
proof -
  obtain css where lreg: "lreg = stripped reg" and ok: "heap_ok (length (clients reg)) {} fh css"
    and css: "\<And>i. i < length (clients reg) \<Longrightarrow> map snd (css i) = c_outgoing (clients reg ! i)" using linkedE [OF l] by metis
  note eqs = remove_client_linked_def remove_client_def Let_def
  show ?thesis
  proof (cases "index < 0 \<or> int MAX_CLIENTS \<le> index \<or> \<not> c_active (clients reg ! nat index)")
    case True
    then show ?thesis using l lreg len by (auto simp: eqs)
  next
    case False
    let ?i = "nat index" and ?c = "clients reg ! nat index"
    let ?fh = "fh\<lparr>outgoing_head := (outgoing_head fh)(?i := None), outgoing_tail := (outgoing_tail fh)(?i := None)\<rparr>"
    have i: "?i < length (clients reg)" using False len by auto
    note q = heap_okD [OF ok i]
    have ch: "chain (fh_cells ?fh) (outgoing_head fh ?i) (css ?i) None" using q(1) by simp
    obtain fh' where fh': "free_pending (outgoing_head fh ?i) ?fh = Some fh'"
      "heap_ok (length (clients reg)) {} fh' (css(?i := []))"
      using free_pending_ok [OF clear_slot_ok [OF ok i] ch q(2)] by blast
    have "linked {} (stripped (fst (remove_client reg index))) fh' (fst (remove_client reg index))"
      by (rule linked_update [where c = blank_client, OF fh'(2) i css]) (use False in \<open>auto simp: remove_client_eq Let_def\<close>)
    moreover have "remove_client_linked lreg fh index =
        Some (stripped (fst (remove_client reg index)), fh', Some (c_wake_fd ?c, c_connection ?c))"
      using False i lreg fh'(1) by (cases ?c) (auto simp: remove_client_linked_def remove_client_eq Let_def stripped_def map_update blank_client_def)
    moreover have "snd (remove_client reg index) = Some (c_wake_fd ?c, c_outgoing ?c, c_connection ?c)"
      using False by (auto simp: remove_client_eq Let_def)
    ultimately show ?thesis by simp
  qed
qed

section \<open>All runs\<close>

text \<open>The other functions of the registry leave the queues alone.\<close>

lemma linked_same:
  assumes "linked {} (stripped reg) fh reg" "clients reg' = (clients reg)[i := c]" "i < length (clients reg)"
    "c_outgoing c = c_outgoing (clients reg ! i)"
  shows "linked {} (stripped reg') fh reg'"
proof -
  obtain css where ok: "heap_ok (length (clients reg)) {} fh css"
    and css: "\<And>i. i < length (clients reg) \<Longrightarrow> map snd (css i) = c_outgoing (clients reg ! i)"
    using assms(1) by (auto simp: linked_def)
  show ?thesis
    by (rule linked_update [where reg = reg and css = css and i = i and cs = "css i" and c = c]) (use ok css assms in auto)
qed

lemma scan_stripped: "scan_clients name (map (\<lambda>c. c\<lparr>c_outgoing := fs\<rparr>) cs) i free = scan_clients name cs i free"
  by (induction cs arbitrary: i free) auto

lemma eventfd_stripped [simp]: "eventfd (stripped reg) = (fst (eventfd reg), stripped (snd (eventfd reg)))"
  by (auto simp: stripped_def eventfd_def tick_def split: sum.splits)

lemma allocate_stripped [simp]:
  "allocate_client_id (stripped reg) = (fst (allocate_client_id reg), stripped (snd (allocate_client_id reg)))"
  by (simp add: stripped_def allocate_client_id_def Let_def)

lemma outgoing_last_add [simp]:
  "c\<lparr>c_outgoing := fs, c_wake_fd := w, c_outgoing_failed := b, c_connection := k, c_active := x, c_ready := y, c_id := z,
     c_has_public_key := h, c_username := u\<rparr> =
   c\<lparr>c_wake_fd := w, c_outgoing_failed := b, c_connection := k, c_active := x, c_ready := y, c_id := z,
     c_has_public_key := h, c_username := u, c_outgoing := fs\<rparr>"
  "c\<lparr>c_outgoing := fs, c_ready := y\<rparr> = c\<lparr>c_ready := y, c_outgoing := fs\<rparr>"
  "c\<lparr>c_outgoing := fs, c_public_key := p, c_has_public_key := h\<rparr> = c\<lparr>c_public_key := p, c_has_public_key := h, c_outgoing := fs\<rparr>"
  by (cases c, simp)+

lemma add_stripped:
  assumes "add_client reg connection name = (reg', r)"
  shows "add_client (stripped reg) connection name = (stripped reg', r)"
proof -
  obtain w reg1 where w: "eventfd reg = (w, reg1)" by fastforce
  have c: "clients (snd (allocate_client_id reg1)) = clients reg" using eventfd_frame [OF w] by (simp add: allocate_client_id_def Let_def)
  have i: "i < length (clients reg)" if "scan_clients name (clients reg) 0 None = Some (Some i)" for i
    using that find_slotD [of "\<lambda>c. \<not> c_active c" "clients reg" i] by (auto simp: scan_clients_eq split: if_splits)
  show ?thesis
  proof (cases "\<exists>i. scan_clients name (clients reg) 0 None = Some (Some i)")
    case True
    then obtain j where j: "scan_clients name (clients reg) 0 None = Some (Some j)" by blast
    show ?thesis using assms w c j i [OF j]
      by (cases w) (auto simp: add_client_def scan_stripped stripped_update map_update Let_def case_prod_beta split: if_splits)
  next
    case False
    then show ?thesis using assms by (auto simp: add_client_def scan_stripped split: if_splits option.splits)
  qed
qed

lemma activate_stripped:
  "activate_client reg index = (reg', r) \<Longrightarrow> length (clients reg) = MAX_CLIENTS \<Longrightarrow>
   activate_client (stripped reg) index = (stripped reg', r)"
  by (auto simp: activate_client_def Let_def stripped_update map_update split: if_splits)

lemma register_stripped:
  assumes "register_client_public_key reg client_id key = (reg', r)"
  shows "register_client_public_key (stripped reg) client_id key = (stripped reg', r)"
proof (cases "find_slot (\<lambda>c. c_active c \<and> c_ready c \<and> c_id c = client_id) (clients reg)")
  case (Some i)
  have "i < length (clients reg)" using find_slotD [OF Some] by blast
  then show ?thesis using assms Some
    by (auto simp: register_client_public_key_def find_slot_map Let_def stripped_update map_update split: if_splits)
qed (use assms in \<open>auto simp: register_client_public_key_def find_slot_map\<close>)

text \<open>
  The registry with pointers under any interleaving, with the events of \<open>registry_step\<close>: the
  caller of \<open>take_outgoing_frame\<close> reads the frame it was given and frees it.
\<close>

inductive linked_step :: "Registry \<times> FrameHeap \<Rightarrow> registry_event list \<Rightarrow> Registry \<times> FrameHeap \<Rightarrow> bool" where
  add: "add_client reg connection username = (reg', r) \<Longrightarrow> next_client_id reg \<noteq> -1 \<Longrightarrow>
        linked_step (reg, fh) (case r of Inl _ \<Rightarrow> [] | Inr _ \<Rightarrow> [Opened (next_client_id reg)]) (reg', fh)"
| activate: "activate_client reg index = (reg', r) \<Longrightarrow> linked_step (reg, fh) [] (reg', fh)"
| remove: "remove_client_linked reg fh index = Some (reg', fh', r) \<Longrightarrow>
        linked_step (reg, fh) (case r of None \<Rightarrow> [] | Some _ \<Rightarrow> [Closed (get_client_id reg index)]) (reg', fh')"
| register: "register_client_public_key reg client_id key = (reg', r) \<Longrightarrow>
        CHAT_PUBLIC_KEY_SIZE \<le> length key \<Longrightarrow> linked_step (reg, fh) [] (reg', fh)"
| queue: "queue_frame_linked reg fh client_id type payload = (reg', fh', r) \<Longrightarrow>
        linked_step (reg, fh)
          (case r of Inl _ \<Rightarrow> [] | Inr _ \<Rightarrow> [Queued client_id \<lparr>of_type = type, of_payload = payload\<rparr>]) (reg', fh')"
| take: "take_frame_linked reg fh client_id = Some (reg', fh', Inr (Some a)) \<Longrightarrow> fh_cells fh' a = Some c \<Longrightarrow>
        linked_step (reg, fh) [Taken client_id (cell_data c)] (reg', free_frame a fh')"
| idle: "take_frame_linked reg fh client_id = Some (reg', fh', r) \<Longrightarrow> (\<And>a. r \<noteq> Inr (Some a)) \<Longrightarrow>
        linked_step (reg, fh) [] (reg', fh')"

inductive linked_run :: "Registry \<times> FrameHeap \<Rightarrow> registry_event list \<Rightarrow> Registry \<times> FrameHeap \<Rightarrow> bool" where
  stop: "linked_run p [] p"
| step: "linked_run p es q \<Longrightarrow> linked_step q fs q' \<Longrightarrow> linked_run p (es @ fs) q'"

lemma add_refines:
  assumes l: "linked {} (stripped reg) fh reg" and a: "add_client (stripped reg) connection name = (lreg', r)"
  shows "\<exists>reg'. add_client reg connection name = (reg', r) \<and> linked {} lreg' fh reg'"
proof -
  obtain reg' s where r: "add_client reg connection name = (reg', s)" by fastforce
  have "linked {} (stripped reg') fh reg'" using r
  proof (cases rule: add_client_cases)
    case (refused e)
    then show ?thesis using linked_cong [OF l] by blast
  next
    case (added i fd)
    show ?thesis by (rule linked_same [OF l added(8,2)]) simp
  qed
  then show ?thesis using add_stripped [OF r] a r by auto
qed

lemma activate_refines:
  assumes l: "linked {} (stripped reg) fh reg" and len: "length (clients reg) = MAX_CLIENTS"
    and a: "activate_client (stripped reg) index = (lreg', r)"
  shows "\<exists>reg'. activate_client reg index = (reg', r) \<and> linked {} lreg' fh reg'"
proof -
  obtain reg' s where r: "activate_client reg index = (reg', s)" by fastforce
  have "linked {} (stripped reg') fh reg'" using r len
  proof (cases rule: activate_client_cases)
    case activated
    show ?thesis by (rule linked_same [OF l arg_cong [OF activated(4), of clients, simplified] activated(1)]) (use activated in simp)
  qed (use l in simp)
  then show ?thesis using activate_stripped [OF r len] a r by auto
qed

lemma register_refines:
  assumes l: "linked {} (stripped reg) fh reg" and a: "register_client_public_key (stripped reg) client_id key = (lreg', r)"
  shows "\<exists>reg'. register_client_public_key reg client_id key = (reg', r) \<and> linked {} lreg' fh reg'"
proof -
  obtain reg' s where r: "register_client_public_key reg client_id key = (reg', s)" by fastforce
  have "linked {} (stripped reg') fh reg'" using r
  proof (cases rule: register_key_cases)
    case (stored i)
    show ?thesis
      by (rule linked_same [OF l, of _ i "(clients reg ! i)\<lparr>c_public_key := take CHAT_PUBLIC_KEY_SIZE key, c_has_public_key := True\<rparr>"])
         (use stored in simp_all)
  qed (use l in simp)
  then show ?thesis using register_stripped [OF r] a r by auto
qed

lemma linked_take_refines:
  assumes l: "linked {} lreg fh reg" and t: "take_frame_linked lreg fh client_id = Some (lreg', fh', r)"
  shows "\<exists>reg' es. registry_step reg es reg' \<and>
    (case r of
       Inr (Some a) \<Rightarrow> (\<exists>f. fh_cells fh' a = Some \<lparr>cell_data = f, cell_next = None\<rparr> \<and> es = [Taken client_id f]) \<and>
         linked {} lreg' (free_frame a fh') reg'
     | _ \<Rightarrow> es = [] \<and> linked {} lreg' fh' reg')"
proof -
  from take_refines [OF l, of client_id] t obtain reg' s where
    s: "take_outgoing_frame reg client_id = (reg', s)" and
    c: "case r of
       Inr (Some a) \<Rightarrow> \<exists>f. s = Inr (Some f) \<and> fh_cells fh' a = Some \<lparr>cell_data = f, cell_next = None\<rparr> \<and>
         linked {a} lreg' fh' reg' \<and> linked {} lreg' (free_frame a fh') reg'
     | Inr None \<Rightarrow> s = Inr None \<and> linked {} lreg' fh' reg'
     | Inl e \<Rightarrow> s = Inl e \<and> linked {} lreg' fh' reg'" by auto
  from registry_step.take [OF s] c show ?thesis
    by (intro exI [of _ reg'] exI [of _ "case s of Inr (Some f) \<Rightarrow> [Taken client_id f] | _ \<Rightarrow> []"])
       (auto split: sum.splits option.splits)
qed

lemma linked_step_refines:
  assumes "linked_step p es q" "linked {} (fst p) (snd p) reg" and inv: "registry_inv reg"
  shows "\<exists>reg'. registry_step reg es reg' \<and> linked {} (fst q) (snd q) reg'"
proof -
  have s: "fst p = stripped reg" and len: "length (clients reg) = MAX_CLIENTS"
    using assms(2) inv by (simp_all add: linked_def registry_inv_def)
  note l = assms(2) [unfolded s]
  show ?thesis using assms(1)
  proof cases
    case (add lreg connection username lreg' r fh)
    from add_refines [of reg fh connection username lreg' r] l s add obtain reg' where
      "add_client reg connection username = (reg', r)" "linked {} lreg' fh reg'" by auto
    moreover have n: "next_client_id lreg = next_client_id reg" using s add(1) by (simp add: stripped_def)
    ultimately show ?thesis
      using registry_step.add [of reg connection username reg' r] add(2-5) by (intro exI [of _ reg'], cases r) simp_all
  next
    case (activate lreg index lreg' r fh)
    from activate_refines [of reg fh index lreg' r] l s len activate show ?thesis
      by (auto intro: registry_step.activate)
  next
    case (remove lreg fh index lreg' fh' r)
    have "get_client_id lreg index = get_client_id reg index"
      using s remove(1) len by (auto simp: get_client_id_def Let_def)
    then show ?thesis
      using remove_refines [OF assms(2) len, of index] remove registry_step.remove [OF prod.collapse [symmetric], of reg index]
      by (cases "snd (remove_client reg index)") auto
  next
    case (register lreg client_id key lreg' r fh)
    from register_refines [of reg fh client_id key lreg' r] l s register show ?thesis
      by (auto intro: registry_step.register)
  next
    case (queue lreg fh client_id type payload lreg' fh' r)
    from queue_refines [OF assms(2) [unfolded queue(1) fst_conv snd_conv] queue(4)] obtain reg' where
      "queue_frame_to_client_id reg client_id type payload = (reg', r)" "linked {} lreg' fh' reg'" by blast
    then show ?thesis using registry_step.queue [of reg client_id type payload reg' r] queue(2,3) by auto
  next
    case (take lreg fh client_id lreg' fh' a c)
    from linked_take_refines [OF assms(2) [unfolded take(1) fst_conv snd_conv] take(4)] take(2,3,5) show ?thesis by auto
  next
    case (idle lreg fh client_id lreg' fh' r)
    from linked_take_refines [OF assms(2) [unfolded idle(1) fst_conv snd_conv] idle(4)] idle(2,3,5) show ?thesis
      by (cases r) (auto split: option.splits)
  qed
qed

lemma linked_run_refines:
  "linked_run p es q \<Longrightarrow> registry_inv reg \<Longrightarrow> linked {} (fst p) (snd p) reg \<Longrightarrow>
   \<exists>reg'. registry_run reg es reg' \<and> linked {} (fst q) (snd q) reg'"
proof (induction rule: linked_run.induct)
  case (stop p)
  then show ?case using registry_run.stop by blast
next
  case (step p es q fs q')
  then obtain reg1 where r: "registry_run reg es reg1" and l: "linked {} (fst q) (snd q) reg1" by blast
  from linked_step_refines [OF step(2) l registry_run_inv [OF r step(4)]] show ?case
    using registry_run_append [OF r registry_run_single] by blast
qed

lemma heap_ok_card:
  assumes "heap_ok n {} fh css"
  shows "finite (dom (fh_cells fh))" "card (dom (fh_cells fh)) = (\<Sum>i<n. length (css i))"
proof -
  have "dom (fh_cells fh) = (\<Union>i<n. addresses (css i))" using assms by (simp add: heap_ok_def)
  moreover have "card (\<Union>i<n. addresses (css i)) = (\<Sum>i<n. card (addresses (css i)))"
    by (rule card_UN_disjoint) (use assms in \<open>auto simp: heap_ok_def addresses_def\<close>)
  moreover have "card (addresses (css i)) = length (css i)" if "i < n" for i
    using distinct_card [OF heap_okD(2) [OF assms that]] by (simp add: addresses_def)
  ultimately show "finite (dom (fh_cells fh))" "card (dom (fh_cells fh)) = (\<Sum>i<n. length (css i))"
    by (simp_all add: addresses_def)
qed

lemma linked_card:
  assumes l: "linked {} lreg fh reg" and inv: "registry_inv reg"
  shows "finite (dom (fh_cells fh))" "card (dom (fh_cells fh)) = sum_list (map c_outgoing_count (clients lreg))"
proof -
  obtain css where ok: "heap_ok (length (clients reg)) {} fh css"
    and css: "\<And>i. i < length (clients reg) \<Longrightarrow> map snd (css i) = c_outgoing (clients reg ! i)" using linkedE [OF l] by metis
  have "length (css i) = c_outgoing_count (clients reg ! i)" if "i < length (clients reg)" for i
    using arg_cong [OF css [OF that], of length] registry_inv_nth [OF inv that] by (simp add: client_ok_def)
  then have "(\<Sum>i<length (clients reg). length (css i)) = sum_list (map c_outgoing_count (clients lreg))"
    using l by (simp add: linked_def sum_list_sum_nth atLeast0LessThan)
  then show "finite (dom (fh_cells fh))" "card (dom (fh_cells fh)) = sum_list (map c_outgoing_count (clients lreg))"
    using heap_ok_card [OF ok] by simp_all
qed

lemma init_linked:
  "linked {} (fst (init_clients_linked (static_registry w) no_frames)) (snd (init_clients_linked (static_registry w) no_frames))
     (init_clients (static_registry w))"
  by (auto simp: linked_def heap_ok_def init_clients_linked_def no_frames_def stripped_def init_clients_static
      intro!: exI [of _ "\<lambda>_. []"])

text \<open>
  C17. The outgoing queues are linked lists that never go wrong. Under any interleaving of the
  registry's calls, with frames allocated by the producers and freed by the worker that sent
  them or by the removal of the client, the pointers do what the queues of the abstract
  registry do: the same calls have the same results and deliver the same frames. No call
  follows a pointer to a freed frame, the loop that frees a removed client's queue always
  ends, and the frames that are allocated are exactly the ones the counters of the slots
  account for, so none is leaked and none is freed twice. (A run has no login at the last value
  of the 64-bit counter of identifiers.)
\<close>

theorem outgoing_lists_refine:
  assumes run: "linked_run (init_clients_linked (static_registry w) no_frames) es (lreg, fh)"
  shows "(\<exists>reg. registry_run (init_clients (static_registry w)) es reg \<and> linked {} lreg fh reg) \<and>
    (\<forall>client_id. take_frame_linked lreg fh client_id \<noteq> None) \<and> (\<forall>index. remove_client_linked lreg fh index \<noteq> None) \<and>
    finite (dom (fh_cells fh)) \<and> card (dom (fh_cells fh)) = sum_list (map c_outgoing_count (clients lreg))"
proof -
  obtain reg where r: "registry_run (init_clients (static_registry w)) es reg" and l: "linked {} lreg fh reg"
    using linked_run_refines [OF run init_clients_inv init_linked] by auto
  have inv: "registry_inv reg" by (rule registry_run_inv [OF r init_clients_inv])
  then have len: "length (clients reg) = MAX_CLIENTS" by (simp add: registry_inv_def)
  have "take_frame_linked lreg fh client_id \<noteq> None" for client_id using take_refines [OF l, of client_id] by auto
  moreover have "remove_client_linked lreg fh index \<noteq> None" for index using remove_refines [OF l len, of index] by auto
  ultimately show ?thesis using r l linked_card [OF l inv] by blast
qed

text \<open>A client logs in and a frame is queued for it: one cell is allocated.\<close>

lemma example_linked_queue:
  "\<exists>lreg fh. linked_run (init_clients_linked (static_registry example_os) no_frames) [Opened 1, Queued 1 (text_frame [104])] (lreg, fh) \<and>
     sum_list (map c_outgoing_count (clients lreg)) = 1"
proof -
  let ?r1 = "first_registry False [] 1 (\<lambda>_. 0)" and ?r2 = "first_registry True [] 1 (\<lambda>_. 0)"
  let ?q = "queue_frame_linked ?r2 no_frames 1 FRAME_TEXT [104]"
  have i: "init_clients_linked (static_registry example_os) no_frames = (init_clients (static_registry example_os), no_frames)"
    by (simp add: init_clients_linked_def no_frames_def fun_eq_iff)
  note first = first_registry_def first_client_def example_os_def Let_def const_simps
  have q: "snd (snd ?q) = Inr ()" "sum_list (map c_outgoing_count (clients (fst ?q))) = 1"
    by (simp_all add: queue_frame_linked_def malloc_def eventfd_write_def tick_def new_frame_def first sum_list_replicate blank_client_def)
  have "linked_step (init_clients_linked (static_registry example_os) no_frames) [Opened 1] (?r1, no_frames)"
    unfolding i using linked_step.add [OF first_steps(1)] by (simp add: init_clients_static)
  moreover have "linked_step (?r1, no_frames) [] (?r2, no_frames)" by (rule linked_step.activate [OF first_steps(2)])
  moreover have "?q = (fst ?q, fst (snd ?q), Inr ())" using q(1) by (metis prod.collapse)
  then have "linked_step (?r2, no_frames) [Queued 1 (text_frame [104])] (fst ?q, fst (snd ?q))"
    using linked_step.queue [of ?r2 no_frames 1 FRAME_TEXT "[104]" "fst ?q" "fst (snd ?q)" "Inr ()"] by simp
  ultimately have "linked_run (init_clients_linked (static_registry example_os) no_frames)
      ((([] @ [Opened 1]) @ []) @ [Queued 1 (text_frame [104])]) (fst ?q, fst (snd ?q))"
    by (blast intro: linked_run.intros)
  then show ?thesis using q(2) by (intro exI [of _ "fst ?q"] exI [of _ "fst (snd ?q)"]) simp
qed

theorem outgoing_lists_refine_witness:
  "\<exists>lreg fh. linked_run (init_clients_linked (static_registry example_os) no_frames) [Opened 1, Queued 1 (text_frame [104])] (lreg, fh) \<and>
     take_frame_linked lreg fh 1 \<noteq> None \<and> card (dom (fh_cells fh)) = 1"
proof -
  obtain lreg fh where r: "linked_run (init_clients_linked (static_registry example_os) no_frames)
      [Opened 1, Queued 1 (text_frame [104])] (lreg, fh)" and n: "sum_list (map c_outgoing_count (clients lreg)) = 1"
    using example_linked_queue by blast
  from outgoing_lists_refine [OF r] r n show ?thesis by (intro exI [of _ lreg] exI [of _ fh]) simp
qed

end
