(* ===== verification/Spec2Isabelle.thy ===== *)
theory Spec2Isabelle
  imports Server_Session Server_Main Client_Main Outgoing_List
begin

text \<open>
  CipherChat: a chat server and a terminal client in C. Clients log in over TLS, exchange
  broadcasts and end-to-end encrypted private messages, and send each other files that the
  server relays without being able to read them. This development models the server and the
  client and proves what they promise, alone and together.

  \<^bold>\<open>Parts of the program and their theories.\<close>
  \<^item> Wire format. \<open>Common\<close> is \<open>common.c\<close>: a TLS endpoint is a record with the bytes in flight and
    a script of the answers of \<open>SSL_read\<close> and \<open>SSL_write\<close>; messages and frames are length-prefixed.
    \<open>Tls_Output\<close> has the two judgements on sending code (what it may write, and that it completes).
    \<open>File_Protocol\<close> is \<open>file_protocol.c\<close>, \<open>Command_Parser\<close> is \<open>command_parser.c\<close> on its
    NUL-terminated buffer, \<open>Server_Messages\<close> are the templates of \<open>server_messages.c\<close>.
  \<^item> Server. \<open>Client_Manager\<close> is the registry of \<open>client_manager.c\<close> (slots, names, keys, bounded
    outgoing queues, wake-up descriptors), \<open>File_Routes\<close> the table of \<open>server_file_routes.c\<close>, both
    on \<open>Slot_Table\<close>, arrays of slots searched in order; \<open>Outgoing_List\<close> has the outgoing queues with
    their pointers, on the heaps of \<open>Linked_List\<close>. \<open>Server_Files\<close> are the handlers of
    \<open>server_files.c\<close>, \<open>Server_Worker\<close> the connection loop of \<open>server_worker.c\<close>, \<open>Chat_Server\<close> the commands,
    encrypted chat and logout of \<open>server.c\<close>, \<open>Server_Session\<close> its \<open>handle_client\<close>, a thread from the TLS
    handshake to the release of its connection, \<open>Server_Main\<close> its accept loop and signal handler.
  \<^item> Client. \<open>Client\<close> has the handlers and the loop of \<open>client.c\<close>, \<open>Client_Main\<close> its \<open>main\<close> from the first
    library call to the exit status, \<open>Pending_List\<close> its linked list of requests waiting for a public
    key; \<open>File_Sender\<close> is \<open>client_file_sender.c\<close>, \<open>File_Receiver\<close> is
    \<open>client_file_receiver.c\<close> over the file system of \<open>File_System\<close>; \<open>File_Crypto\<close> has the format of
    \<open>client_files.h\<close> and libsodium's box as a parameter.
  \<^item> Sockets and TLS set-up. \<open>Network\<close> is \<open>network.c\<close>: contexts, handshake and shutdown under a deadline.

  \<^bold>\<open>How state and effects are modelled.\<close> Static variables and structs are records that the
  operations take and return; integers keep their width (\<open>u16\<close>, \<open>u32\<close>, \<open>u64\<close>) where the code computes
  on the wire, sizes of buffers are natural numbers. A call that can fail returns \<open>Inl errno\<close> or
  \<open>Inr value\<close>; an access outside a buffer, or a pointer to a released cell, is \<open>None\<close>, and so is a
  call that still blocks because its script has run out. Arrays with checked accesses (\<open>memcpy\<close> and
  \<open>read_bytes\<close> of \<open>Prelude\<close>) are the buffer of the parser, the two arrays of the connection loop, where
  such an access is \<open>Stuck\<close>, and those of \<open>handle_client_frame\<close> and \<open>handle_encrypted_chat\<close>; elsewhere byte
  sequences are lists with the source's length tests. What the operating system, OpenSSL and
  libsodium answer is data: scripts and records of answers over which the theorems quantify.
  The server is concurrent: each critical section of \<open>client_manager.c\<close> and \<open>server_file_routes.c\<close>
  is one operation, \<open>Registry_Steps\<close> and \<open>Server_Steps\<close> give their interleavings as step relations,
  and a turn of the connection loop contains what other threads do between its own actions. The
  steps leave out the login at which the 64-bit counter of identifiers wraps around, since identifiers
  in use could then be issued again; \<open>registry_calls\<close> is the relation without this condition, and it
  agrees with the steps over the first \<open>2 ^ 64 - 3\<close> logins.

  \<^bold>\<open>What is shown.\<close>
  \<^item> Codecs: frames and file frames are read back exactly as written, for every cutting of the
    stream into records; the parser stays in its buffer and agrees with a specification on strings.
  \<^item> Registry: its invariant holds in every reachable state, it refines one FIFO mailbox per
    client, names are unique, keys stable, broadcasts complete (\<open>Registry_Messages\<close>, \<open>Registry_Properties\<close>).
  \<^item> Server: route table and accounting under every interleaving, forwarding of whole transfers
    (\<open>File_Transfer\<close>), authenticity of relayed messages (\<open>Relay\<close>), safety and framing of the
    connection loop (\<open>serves\<close> relates the shared state to the frames the handler was called on), totality of
    the handlers (\<open>Server_Properties\<close>); descriptors (\<open>Server_Main\<close>). A
    client thread closes its connection exactly once, whatever the other threads do meanwhile
    (\<open>Server_Session\<close>, by a rely condition on the others that the server's own operations keep).
  \<^item> Memory: the linked lists of both programs implement queues, no pointer leads to a freed cell,
    and the cells allocated are the ones in a list (\<open>Outgoing_List\<close>, \<open>Pending_List\<close>).
  \<^item> Client: the sender's stream, and that it completes (\<open>File_Sender\<close>); the receiver's invariant,
    confinement to its directory, authenticity of what it saves, clean failures
    (\<open>Receiver_Invariant\<close>, \<open>Receiver_Properties\<close>); requests, keys and secrecy of typed messages
    (\<open>Client_Properties\<close>); the deadline of the handshake (\<open>Network\<close>); every way \<open>main\<close> ends
    (\<open>Client_Main\<close>).
  \<^item> Here: a private message and a file from one client through the server to the other, and the
    agreement of client and server on login names.

  \<^bold>\<open>Interfaces.\<close> \<open>slot_table\<close> (search by key) is interpreted for names, identifiers, route keys,
  outbound numbers and incoming transfers; \<open>frame_codec\<close> for the file frames; \<open>frame_handler\<close>
  for the server's handler under the connection loop, for what it may write, what it keeps and
  whom it spares; \<open>package_queue\<close> for the linked list.

  \<^bold>\<open>Bounds.\<close> Recursion is structural or has a measure, except for the walks over linked lists,
  which are partial and proved to return on well-formed lists. Scripts are finite: a theorem
  that something completes assumes as many answers as bytes, since each call moves at least one.
  Table sizes and limits are those of the source. The receiver's theorems assume a download
  directory path of at most 4000 bytes; the program's is \<open>downloads\<close>.

  \<^bold>\<open>Not modelled.\<close> Diagnostics and prompts, the line editor, when a socket timeout fires (only
  which timeout is set), thread creation as such, a signal that interrupts the signal handler or
  arrives between the last test of \<open>server_fd\<close> and its \<open>close\<close>, the release of memory other than list cells, certificates, and the strength of the
  cryptography: \<open>box_opens\<close> and \<open>box_sized\<close> state what is used of libsodium's documentation. Tests
  and build files are not modelled.
\<close>

section \<open>A private message from client to client\<close>

lemma send_private_chat_Inr:
  assumes "send_private_chat env c peer message nonce rpk = Some (Inr (), t')" and "box_sized (ce_sodium env)"
    and "length nonce = 24" "length (public_key c) = 32"
  obtains box where "box_easy (ce_sodium env) message nonce rpk (private_key c) = Some box"
    "length box = length message + 16" "length message \<le> CHAT_MAX_MESSAGE_SIZE"
    "tls_out t' = tls_out (active_connection c) @
       frame_bytes FRAME_CIPHERTEXT (of_nat (length peer) # peer @ nonce @ public_key c @ box)"
proof -
  from assms(1) obtain box where box: "box_easy (ce_sodium env) message nonce rpk (private_key c) = Some box"
    and sizes: "length peer < USERNAME_SIZE" "length message \<le> CHAT_MAX_MESSAGE_SIZE"
    and s: "sent (send_frame (active_connection c) FRAME_CIPHERTEXT
      (of_nat (length peer) # peer @ nonce @ public_key c @ box)) = Some (Inr (), t')"
    by (auto simp: send_private_chat_def Let_def split: if_splits option.splits)
  have len: "length box = length message + 16" using box_easy_length [OF assms(2) box] .
  have "emits (\<lambda>t. sent (send_frame t FRAME_CIPHERTEXT (of_nat (length peer) # peer @ nonce @ public_key c @ box)))
      (frame_bytes FRAME_CIPHERTEXT (of_nat (length peer) # peer @ nonce @ public_key c @ box))"
    by (rule sent_frame_emits) (use sizes len assms(3,4) in \<open>simp_all add: const_simps\<close>)
  from emitsD [OF this s] that [OF box len sizes(2)] show thesis by (metis take_all order_refl)
qed

lemma drop_prefixed: "drop (1 + length p + k) (x # p @ r) = drop k r"
  by simp

text \<open>The server relays a well-formed ciphertext of a sender whose key is registered.\<close>

lemma ciphertext_relayed:
  assumes room: "has_room s target cl (Suc n)" and names: "username_is_valid peer" "username_is_valid name"
    and t: "find_client_id (registry s) peer = target" and key: "get_client_public_key (registry s) c = Inr key"
    and len: "length nonce = 24" "length key = 32" "16 \<le> length box" "length box \<le> CHAT_MAX_MESSAGE_SIZE + 16"
  obtains s' where "handle_client_frame s c name
      (frame_byte FRAME_CIPHERTEXT # of_nat (length peer) # peer @ nonce @ key @ box) = Some (s', True)"
    "client_of (registry s') = (client_of (registry s))(target \<mapsto> push_frames
       [\<lparr>of_type = FRAME_CIPHERTEXT, of_payload = of_nat (length name) # name @ nonce @ key @ box\<rparr>] cl)"
proof -
  let ?frame = "frame_byte FRAME_CIPHERTEXT # of_nat (length peer) # peer @ nonce @ key @ box"
  have n: "length peer < 32" "length peer \<noteq> 0" "length name < 32" "length name \<noteq> 0"
    using names by (simp_all add: username_is_valid_def const_simps)
  then have u: "unat (of_nat (length peer) :: byte) = length peer" by (simp add: unat_of_nat)
  have cp: "peer_name peer = Some peer"
    using names(1) by (auto simp: peer_name_def username_is_valid_def list_all_iff list_ex_iff)
  have fits: "length (of_nat (length name) # name @ nonce @ key @ box) \<le> FRAME_MAX_SIZE - 1"
    using n len by (simp add: const_simps)
  obtain s' where s': "server_send s target FRAME_CIPHERTEXT (of_nat (length name) # name @ nonce @ key @ box) = (s', Inr ())"
    "client_of (registry s') = (client_of (registry s))(target \<mapsto> push_frames
       [\<lparr>of_type = FRAME_CIPHERTEXT, of_payload = of_nat (length name) # name @ nonce @ key @ box\<rparr>] cl)"
    by (rule server_send_room [OF room _ fits, of FRAME_CIPHERTEXT]) simp_all
  have "take 32 (drop (25 + length peer) (of_nat (length peer) # peer @ nonce @ key @ box)) = key"
    using drop_prefixed [of peer 24 "of_nat (length peer)" "nonce @ key @ box"] len(1,2) by (simp add: add.commute)
  then have "chat_effect s c name ?frame = s'"
    using n len key s'(1) t by (simp add: chat_effect_def FrameType_of_def u cp const_simps Let_def)
  then have "handle_encrypted_chat s c name ?frame = Some s'" by (simp add: handle_encrypted_chat_eq)
  then show thesis using that s'(2) by (simp add: handle_client_frame_def FrameType_of_def read_inside)
qed

lemma private_chat_opened:
  assumes name: "username_is_valid name" and len: "length nonce = 24" "length key = 32" "length box = length message + 16"
      "length message \<le> CHAT_MAX_MESSAGE_SIZE"
    and box: "box_open so box nonce key sk = Some message"
  shows "open_private_chat so sk (of_nat (length name) # name @ nonce @ key @ box) = Inr (name, message)"
proof -
  have n: "length name < 32" "length name \<noteq> 0" "\<not> list_ex (\<lambda>b. isspace b \<or> iscntrl b) name"
    using name by (auto simp: username_is_valid_def const_simps list_all_iff list_ex_iff)
  then have u: "unat (of_nat (length name) :: byte) = length name" by (simp add: unat_of_nat)
  let ?f = "of_nat (length name) # name @ nonce @ key @ box"
  have parts: "take (length name) (drop 1 ?f) = name" "drop (1 + length name) ?f = nonce @ key @ box"
    "drop (1 + length name + CHAT_NONCE_SIZE) ?f = key @ box"
    "drop (1 + length name + CHAT_NONCE_SIZE + CHAT_PUBLIC_KEY_SIZE) ?f = box"
    using len drop_prefixed [of name 24 "of_nat (length name)" "nonce @ key @ box"]
      drop_prefixed [of name 56 "of_nat (length name)" "nonce @ key @ box"]
    by (simp_all add: CHAT_NONCE_SIZE_def CHAT_PUBLIC_KEY_SIZE_def)
  show ?thesis
    unfolding open_private_chat_def Let_def nth_Cons_0 u parts using n len box by (simp add: const_simps)
qed

text \<open>
  C2. A private message arrives, from end to end. What the sending client puts on the wire for
  a message is one frame; the server, in which the sender has registered the key it uses
  and the recipient is logged in with room in its queue, relays it; and the recipient's
  client displays exactly that message under the sender's login name. The box has to open
  for the pair of keys, as libsodium documents.
\<close>

theorem private_message_delivered:
  assumes "send_private_chat env alice peer message nonce bob_key = Some (Inr (), t)"
    and "box_sized (ce_sodium env)"
    and "box_opens (ce_sodium env) (public_key alice, private_key alice) (bob_key, private_key bob)"
    and "length nonce = 24" and "length (public_key alice) = 32"
    and "has_room s target cl 1" and "username_is_valid peer" and "username_is_valid name"
    and "find_client_id (registry s) peer = target"
    and "get_client_public_key (registry s) sender = Inr (public_key alice)"
    and "ce_sodium env' = ce_sodium env"
  shows "\<exists>payload s' f.
    tls_out t = tls_out (active_connection alice) @ frame_bytes FRAME_CIPHERTEXT payload \<and>
    handle_client_frame s sender name (frame_byte FRAME_CIPHERTEXT # payload) = Some (s', True) \<and>
    client_of (registry s') = (client_of (registry s))(target \<mapsto> push_frames [f] cl) \<and>
    handle_server_frame env' (frame_byte (of_type f) # of_payload f) bob =
      Some (display_private_message name message bob)"
proof -
  obtain box where box: "box_easy (ce_sodium env) message nonce bob_key (private_key alice) = Some box"
    "length box = length message + 16" "length message \<le> CHAT_MAX_MESSAGE_SIZE"
    and out: "tls_out t = tls_out (active_connection alice) @
       frame_bytes FRAME_CIPHERTEXT (of_nat (length peer) # peer @ nonce @ public_key alice @ box)"
    by (rule send_private_chat_Inr [OF assms(1,2,4,5)])
  have room: "has_room s target cl (Suc 0)" using assms(6) by simp
  have sizes: "16 \<le> length box" "length box \<le> CHAT_MAX_MESSAGE_SIZE + 16" using box(2,3) by simp_all
  obtain s' where s': "handle_client_frame s sender name
      (frame_byte FRAME_CIPHERTEXT # of_nat (length peer) # peer @ nonce @ public_key alice @ box) = Some (s', True)"
    "client_of (registry s') = (client_of (registry s))(target \<mapsto> push_frames
       [\<lparr>of_type = FRAME_CIPHERTEXT, of_payload = of_nat (length name) # name @ nonce @ public_key alice @ box\<rparr>] cl)"
    by (rule ciphertext_relayed [OF room assms(7-10,4,5) sizes])
  have "box_open (ce_sodium env) box nonce (public_key alice) (private_key bob) = Some message"
    using assms(3,4) box(1) by (simp add: box_opens_def CHAT_NONCE_SIZE_def)
  from private_chat_opened [OF assms(8,4,5) box(2,3) this]
  have "handle_server_frame env' (frame_byte FRAME_CIPHERTEXT # of_nat (length name) # name @ nonce @ public_key alice @ box) bob =
      Some (display_private_message name message bob)"
    using assms(11) by (simp add: handle_server_frame_def FrameType_of_def receive_private_chat_def)
  then show ?thesis using out s' by (intro exI conjI) (assumption+, simp)
qed


section \<open>Logging in\<close>

lemma c_string_prefix: "x \<in> set (c_string s) \<Longrightarrow> takeWhile (\<lambda>b. b \<noteq> x) (c_string s) = takeWhile (\<lambda>b. b \<noteq> x) s"
  by (induction s) (auto simp: c_string_def split: if_splits)

lemma fgets_line:
  assumes "fgets n input = Some buf" "10 \<in> set (c_string buf)"
  shows "\<exists>tail. input = takeWhile (\<lambda>b. b \<noteq> 10) (c_string buf) @ 10 # tail"
proof -
  let ?line = "takeWhile (\<lambda>b. b \<noteq> 10) input"
  have b: "10 \<in> set buf" using assms(2) by (auto simp: c_string_def dest: set_takeWhileD)
  have buf: "buf = take (n - 1) (if length ?line < length input then ?line @ [10] else ?line)"
    using assms(1) by (auto simp: fgets_def Let_def split: if_splits)
  have none: "10 \<notin> set ?line" by (auto dest: set_takeWhileD)
  then have l: "length ?line < length input" using b buf by (auto dest: in_set_takeD split: if_splits)
  have long: "\<not> n - 1 \<le> length ?line" using b buf l none by (auto dest: in_set_takeD)
  then have "buf = ?line @ [10]" using buf l by simp
  then have "takeWhile (\<lambda>b. b \<noteq> 10) buf = ?line" by (auto simp: takeWhile_append dest: set_takeWhileD)
  moreover obtain tail where "input = ?line @ 10 # tail"
  proof -
    have "dropWhile (\<lambda>b. b \<noteq> 10) input \<noteq> []" using l by (metis append_Nil2 less_irrefl takeWhile_dropWhile_id)
    then obtain x tail where x: "dropWhile (\<lambda>b. b \<noteq> 10) input = x # tail" by (cases "dropWhile (\<lambda>b. b \<noteq> 10) input") auto
    then have "x = 10" using hd_dropWhile [of "\<lambda>b. b \<noteq> 10" input] by simp
    then show thesis using that x by (metis takeWhile_dropWhile_id)
  qed
  ultimately show ?thesis unfolding c_string_prefix [OF assms(2)] by metis
qed

text \<open>
  C29. Client and server agree on login names: a name that the client accepts at its prompt is
  the first line of the input, passes the server's own check, and is exactly what the
  server reads into its buffer, whatever follows on the connection.
\<close>

theorem login_name_accepted:
  assumes "get_username_and_register_in_server input t = Some (Inr (), t')" and "tls_out t = []"
    and "tls_usable (conn r)" and "tls_in r = tls_out t' @ rest"
    and "tls_reads r = map ReadOk ks @ rs" and "USERNAME_SIZE + 4 \<le> length ks"
  shows "\<exists>name tail r'. input = name @ 10 # tail \<and> username_is_valid name \<and>
    receive_message r USERNAME_SIZE = Some (Inr name, r') \<and> tls_in r' = rest"
proof -
  from assms(1) obtain buf where buf: "fgets (USERNAME_SIZE + 1) input = Some buf" "10 \<in> set (c_string buf)"
    by (auto simp: get_username_and_register_in_server_def Let_def split: option.splits if_splits)
  define name where "name = takeWhile (\<lambda>b. b \<noteq> 10) (c_string buf)"
  have ok: "username_is_valid name" and s: "sent (send_message t name) = Some (Inr (), t')"
    using assms(1) buf
    by (auto simp: get_username_and_register_in_server_def Let_def name_def username_is_valid_def list_ex_iff list_all_iff
        split: if_splits)
  then have n: "0 < length name" "length name < 32" by (simp_all add: username_is_valid_def const_simps)
  from s n obtain k where "send_parts t [be32 (of_nat (length name)), name] = Some (Inr (), t')"
    unfolding sent_Inr by (auto simp: send_message_def const_simps map_sum_def split: Option.bind_splits sum.splits simp del: send_parts.simps)
  from send_parts_writes [OF this] assms(2) have out: "tls_out t' = be32 (of_nat (length name)) @ name" by auto
  have "\<exists>r'. receive_prefixed r (\<lambda>len. len \<le> MESSAGE_MAX_SIZE \<and> len < USERNAME_SIZE) Inr = Some (Inr name, r') \<and> tls_in r' = rest"
    by (rule receive_prefixed_delivers [OF assms(3,5)]) (use assms(4,6) out n in \<open>simp_all add: const_simps\<close>)
  then show ?thesis
    using ok fgets_line [OF buf] by (auto simp: receive_message_def const_simps name_def)
qed

section \<open>A file from client to client\<close>

lemma send_file_Inr_names:
  assumes "send_file so env n t peer path rpk spk ssk = Some (Inr (), t', n')" "path_basename path = Some name"
  shows "file_protocol_valid_peer_name peer" "file_protocol_valid_filename name"
  using assms by (auto simp: send_file_def split: if_splits)

definition as_frame :: "FrameType \<times> bytes \<Rightarrow> bytes" where
  "as_frame f = frame_byte (fst f) # snd f"

definition queued_frame :: "OutgoingFrame \<Rightarrow> bytes" where
  "queued_frame f = frame_byte (of_type f) # of_payload f"

lemma file_frames_as_frames:
  "map as_frame (file_frames tid peer name enc) =
    (frame_byte FRAME_FILE_BEGIN # begin_payload tid (of_nat (length enc)) peer name) #
    map (chunk_frame tid) (file_chunks enc) @ [end_frame tid]"
  by (simp add: file_frames_def as_frame_def chunk_frame_def end_frame_def comp_def del: frame_byte.simps)

lemma begin_payload_unique:
  assumes "file_protocol_decode_begin (frame_byte FRAME_FILE_BEGIN # payload) =
      Inr \<lparr>fb_transfer_id = tid, fb_file_size = n, fb_peer = peer, fb_filename = name\<rparr>"
    and "file_protocol_valid_peer_name peer" "file_protocol_valid_filename name"
  shows "payload = begin_payload tid n peer name"
  using encode_decode_begin [OF assms(1)] encode_begin_payload [OF assms(2,3)] by (auto simp: encode_begin_def)


lemma transfer_relayed:
  assumes room: "has_room s target cl (length (file_chunks enc) + 2)" and sender: "sender \<noteq> 0" "file_protocol_valid_peer_name me"
    and names: "file_protocol_valid_peer_name peer" "file_protocol_valid_filename name"
    and t: "find_client_id (registry s) peer = target" "target \<noteq> sender"
    and new: "route_map (table s) (sender, tid) = None" "\<not> routes_full (table s)" and small: "length enc < 2 ^ 64"
  obtains s' out where "route_frames s sender me (map as_frame (file_frames tid peer name enc)) =
      (s', replicate (length (file_chunks enc) + 2) (Inr ()))"
    "client_of (registry s') = (client_of (registry s))(target \<mapsto> push_frames
      (map (\<lambda>(type, payload). \<lparr>of_type = type, of_payload = payload\<rparr>) (file_frames out me name enc)) cl)"
proof -
  let ?b = "\<lparr>fb_transfer_id = tid, fb_file_size = of_nat (length enc), fb_peer = peer, fb_filename = name\<rparr>"
  let ?frame = "frame_byte FRAME_FILE_BEGIN # begin_payload tid (of_nat (length enc)) peer name"
  have l: "length ?frame \<le> FRAME_MAX_SIZE" using length_begin_payload [OF names, of tid "of_nat (length enc)"] by simp
  have h: "find_client_id (registry s) (fb_peer ?b) = target" "route_map (table s) (sender, fb_transfer_id ?b) = None"
    using t new by simp_all
  have ok: "list_all chunk_ok (file_chunks enc)"
    using file_chunks_sizes by (auto simp: list_all_iff chunk_ok_def)
  have total: "length (concat (file_chunks enc)) = unat (fb_file_size ?b)" using small by (simp add: unat_of_nat)
  from transfer_forwarded [OF room sender decode_begin_payload [OF names] l h(1) t(2) h(2) new(2) ok total]
  obtain s' out payload where run: "route_frames s sender me (map as_frame (file_frames tid peer name enc)) =
      (s', replicate (length (file_chunks enc) + 2) (Inr ()))"
    and queue: "client_of (registry s') = (client_of (registry s))(target \<mapsto> push_frames
      (\<lparr>of_type = FRAME_FILE_BEGIN, of_payload = payload\<rparr> #
       map (\<lambda>d. \<lparr>of_type = FRAME_FILE_CHUNK, of_payload = write_u32 out @ d\<rparr>) (file_chunks enc) @
       [\<lparr>of_type = FRAME_FILE_END, of_payload = write_u32 out\<rparr>]) cl)"
    and dec: "file_protocol_decode_begin (frame_byte FRAME_FILE_BEGIN # payload) =
      Inr \<lparr>fb_transfer_id = out, fb_file_size = of_nat (length enc), fb_peer = me, fb_filename = name\<rparr>"
    unfolding file_frames_as_frames by auto
  have "payload = begin_payload out (of_nat (length enc)) me name"
    by (rule begin_payload_unique [OF dec sender(2) names(2)])
  then show thesis using that [OF run, of out] queue by (simp add: file_frames_def comp_def)
qed

text \<open>The receiving client reads the frames of its queue, with the answers of the system for each.\<close>

lemma queued_frames:
  "map queued_frame (map (\<lambda>(type, payload). \<lparr>of_type = type, of_payload = payload\<rparr>) frames) = map as_frame frames"
  by (auto simp: queued_frame_def as_frame_def)

lemma zip_file_frames:
  assumes "length ds = length (file_chunks enc)"
  shows "zip (d0 # ds @ [d1]) (map as_frame (file_frames tid peer name enc)) =
    (d0, frame_byte FRAME_FILE_BEGIN # begin_payload tid (of_nat (length enc)) peer name) #
    map (\<lambda>(d, b). (d, frame_byte FRAME_FILE_CHUNK # write_u32 tid @ b)) (zip ds (file_chunks enc)) @
    [(d1, frame_byte FRAME_FILE_END # write_u32 tid)]"
  using assms by (simp add: file_frames_as_frames chunk_frame_def end_frame_def zip_map2 del: frame_byte.simps)

text \<open>
  C1. A file arrives, from end to end. If \<open>send_file\<close> succeeds, what it has put on the wire is
  a list of frames; the server accepts every one of them when it gets them from the sender,
  and queues as many for the recipient; and the recipient's client, given the queued frames
  in order, accepts each, ends with a free table slot, and has a file with the sent name in
  its download directory whose contents are the contents of the source file. The recipient
  must be logged in with room in its queue, the receiving client must be able to start a
  transfer and its file system must work, and the box must open for the pair of keys.
\<close>

theorem file_delivered:
  assumes "send_file so env n t peer path bob_key alice_key alice_secret = Some (Inr (), t', n')"
    and "path_basename path = Some name" and "so_fopen env path = Inr file"
    and "box_easy so (file_plaintext name (sf_data file)) (so_randombytes env) bob_key alice_secret = Some box"
    and "enc = file_envelope alice_key (so_randombytes env) box"
    and "box_sized so" and "box_opens so (alice_key, alice_secret) (bob_key, bob_secret)"
    and "length (so_randombytes env) = 24" and "length alice_key = 32"
    and "has_room s target cl (length (file_chunks enc) + 2)" and "sender \<noteq> 0" and "file_protocol_valid_peer_name me"
    and "find_client_id (registry s) peer = target" and "target \<noteq> sender"
    and "route_map (table s) (sender, fst (create_transfer_id n)) = None" and "\<not> routes_full (table s)"
    and "\<And>tid. can_begin dir pid d0 i receiver tid name" and "length ds = length (file_chunks enc)"
    and "list_all (\<lambda>d. working d \<and> dk_pid d = pid) ds" and "working d1"
  shows "\<exists>frames s' queued receiver' node.
    tls_out t' = tls_out t @ wire frames \<and>
    route_frames s sender me (map as_frame frames) = (s', replicate (length frames) (Inr ())) \<and>
    client_of (registry s') = (client_of (registry s))(target \<mapsto> push_frames queued cl) \<and>
    receive_frames so dir bob_secret (zip (d0 # ds @ [d1]) (map queued_frame queued)) receiver =
      (replicate (length frames) (Inr ()), receiver') \<and>
    incoming_files receiver' = incoming_files receiver \<and>
    names (fs receiver') (dir @ str ''/'' @ name) = Some node \<and> nodes (fs receiver') node = Regular (sf_data file)"
proof -
  let ?tid = "fst (create_transfer_id n)"
  from send_file_writes [OF assms(1)] assms(2-5)
  have out: "tls_out t' = tls_out t @ wire (file_frames ?tid peer name enc)"
    and size: "length (sf_data file) \<le> FILE_PLAINTEXT_MAX_SIZE" by auto
  note names = send_file_Inr_names [OF assms(1,2)]
  have small: "length enc < 2 ^ 64"
    using size valid_name_lengths(2) [OF names(2)] box_easy_length [OF assms(6,4)] assms(8,9)
    by (simp add: assms(5) const_simps)
  obtain s' tid where s': "route_frames s sender me (map as_frame (file_frames ?tid peer name enc)) =
      (s', replicate (length (file_chunks enc) + 2) (Inr ()))"
    and queue: "client_of (registry s') = (client_of (registry s))(target \<mapsto> push_frames
      (map (\<lambda>(type, payload). \<lparr>of_type = type, of_payload = payload\<rparr>) (file_frames tid me name enc)) cl)"
    by (rule transfer_relayed [OF assms(10-12) names assms(13-16) small])
  have open': "box_open so box (so_randombytes env) alice_key bob_secret = Some (file_plaintext name (sf_data file))"
    using assms(4,7,8) by (simp add: box_opens_def CHAT_NONCE_SIZE_def)
  have disks: "\<And>d. d \<in> set ds \<Longrightarrow> working d \<and> dk_pid d = pid" using assms(19) by (simp add: list_all_iff)
  from transfer_received [OF assms(17) assms(12) names(2) assms(9,8) size assms(6) open' assms(5,18) disks assms(20)]
  obtain receiver' node where got:
    "receive_frames so dir bob_secret (zip (d0 # ds @ [d1]) (map as_frame (file_frames tid me name enc))) receiver =
      (replicate (length (file_chunks enc) + 2) (Inr ()), receiver')"
    "incoming_files receiver' = incoming_files receiver"
    "names (fs receiver') (dir @ str ''/'' @ name) = Some node" "nodes (fs receiver') node = Regular (sf_data file)"
    unfolding zip_file_frames [OF assms(18)] by blast
  have len: "length (file_frames ?tid peer name enc) = length (file_chunks enc) + 2" by (simp add: file_frames_def)
  show ?thesis
    by (rule exI [of _ "file_frames ?tid peer name enc"], unfold len, intro exI conjI, rule out, rule s', rule queue,
        unfold queued_frames, rule got, rule got, rule got, rule got)
qed


section \<open>Examples\<close>

definition example_alice :: ChatClient where
  "example_alice = fresh_client example_sender_tls (replicate 32 9) (replicate 32 3) example_fs"

lemma example_alice_simps:
  "active_connection example_alice = example_sender_tls" "public_key example_alice = replicate 32 9"
  by (simp_all add: example_alice_def fresh_client_def)

lemma example_registry_facts:
  "find_client_id (registry example_server) (str ''bob'') = 2"
  "get_client_public_key (registry example_server) 1 = Inr (replicate 32 9)"
  by (simp_all add: find_client_id_def get_client_public_key_def example_server_simps example_simps CHAT_PUBLIC_KEY_SIZE_def)

lemma example_chat_sent:
  "\<exists>t. send_private_chat example_env example_alice (str ''bob'') (str ''hi'') (replicate 24 5) key = Some (Inr (), t)"
proof -
  let ?p = "of_nat (length (str ''bob'')) # str ''bob'' @ replicate 24 5 @ public_key example_alice @
    replicate 16 7 @ map (\<lambda>b. b XOR 90) (str ''hi'')"
  have ws: "tls_writes example_sender_tls = map WriteOk (replicate 300 0) @ []"
    by (simp add: example_sender_tls_simps)
  have fit: "length (frame_bytes FRAME_CIPHERTEXT ?p) \<le> length (replicate 300 (0::nat))"
    by (simp add: frame_bytes_def example_alice_simps)
  have "completes (\<lambda>t. sent (send_frame t FRAME_CIPHERTEXT ?p)) (frame_bytes FRAME_CIPHERTEXT ?p)"
    by (rule sent_frame_completes) (simp_all add: const_simps example_alice_simps)
  from completesD [OF this example_sender_tls_simps(1) ws fit] obtain t where
    "sent (send_frame example_sender_tls FRAME_CIPHERTEXT ?p) = Some (Inr (), t)" by blast
  then show ?thesis
    by (simp add: send_private_chat_def Let_def example_alice_simps example_env_def example_sodium_def const_simps)
qed

theorem private_message_delivered_witness:
  "\<exists>payload s' (f :: OutgoingFrame). handle_client_frame example_server 1 (str ''alice'') (frame_byte FRAME_CIPHERTEXT # payload) = Some (s', True) \<and>
    handle_server_frame example_env (frame_byte (of_type f) # of_payload f) example_chat_client =
      Some (display_private_message (str ''alice'') (str ''hi'') example_chat_client)"
proof -
  obtain t where t: "send_private_chat example_env example_alice (str ''bob'') (str ''hi'') (replicate 24 5) [] = Some (Inr (), t)"
    using example_chat_sent by blast
  have so: "ce_sodium example_env = example_sodium" by (simp add: example_env_def)
  have room: "has_room example_server 2 (example_client 2 (str ''bob'')) 1" by (rule example_room) simp
  have key: "get_client_public_key (registry example_server) 1 = Inr (public_key example_alice)"
    by (simp only: example_registry_facts example_alice_simps)
  have laws: "box_sized (ce_sodium example_env)"
    "box_opens (ce_sodium example_env) (public_key example_alice, private_key example_alice) ([], private_key example_chat_client)"
    "length (replicate 24 (5 :: byte)) = 24" "length (public_key example_alice) = 32"
    by (simp_all add: so example_sodium_laws example_alice_simps)
  from private_message_delivered [OF t laws room example_names(2,1) example_registry_facts(1) key refl] show ?thesis
    by blast
qed

lemma sent_message:
  assumes "0 < length m" "length m \<le> MESSAGE_MAX_SIZE"
  shows "sent (send_message t m) = send_parts t [be32 (of_nat (length m)), m]"
proof -
  have "map_sum id (\<lambda>_. ()) (map_sum id (\<lambda>_. n) q) = q" for n :: nat and q :: "unit result" by (cases q) auto
  then show ?thesis
    using assms by (cases "send_parts t [be32 (of_nat (length m)), m]") (auto simp: send_message_def sent_def simp del: send_parts.simps)
qed

lemma example_login_sent:
  "\<exists>t. get_username_and_register_in_server (str ''bob'' @ [10, 65]) example_sender_tls = Some (Inr (), t)"
proof -
  let ?ps = "[be32 (of_nat (length (str ''bob''))), str ''bob'']"
  have ws: "tls_writes example_sender_tls = map WriteOk (replicate 300 0) @ []"
    and fit: "length (concat ?ps) \<le> length (replicate 300 (0::nat))"
    by (simp_all add: example_sender_tls_simps)
  from completesD [OF send_parts_completes example_sender_tls_simps(1) ws fit] obtain t where
    t: "send_parts example_sender_tls ?ps = Some (Inr (), t)" by blast
  have "sent (send_message example_sender_tls (str ''bob'')) = Some (Inr (), t)"
    using t by (subst sent_message) (simp_all add: const_simps del: send_parts.simps)
  then show ?thesis
    by (simp add: get_username_and_register_in_server_def fgets_def Let_def c_string_def const_simps isspace_def iscntrl_def)
qed

theorem login_name_accepted_witness:
  "\<exists>t r'. get_username_and_register_in_server (str ''bob'' @ [10, 65]) example_sender_tls = Some (Inr (), t) \<and>
     receive_message (example_tls\<lparr>tls_in := tls_out t @ [7], tls_reads := map ReadOk (replicate 40 0)\<rparr>) USERNAME_SIZE =
       Some (Inr (str ''bob''), r') \<and> tls_in r' = [7]"
proof -
  obtain t where t: "get_username_and_register_in_server (str ''bob'' @ [10, 65]) example_sender_tls = Some (Inr (), t)"
    using example_login_sent by blast
  let ?r = "example_tls\<lparr>tls_in := tls_out t @ [7], tls_reads := map ReadOk (replicate 40 0)\<rparr>"
  have r: "tls_usable (conn ?r)" "tls_in ?r = tls_out t @ [7]" "tls_reads ?r = map ReadOk (replicate 40 0) @ []"
    "USERNAME_SIZE + 4 \<le> length (replicate 40 (0 :: nat))"
    by (simp_all add: tls_usable_def connection_unusable_def example_tls_def const_simps)
  from login_name_accepted [OF t example_sender_tls_simps(3) r] obtain name tail r' where
    n: "str ''bob'' @ [10, 65] = name @ 10 # tail" "username_is_valid name"
    and got: "receive_message ?r USERNAME_SIZE = Some (Inr name, r')" "tls_in r' = [7]" by blast
  have "10 \<notin> set name" using n(2) by (auto simp: username_is_valid_def list_all_iff iscntrl_def)
  then have "takeWhile (\<lambda>b. b \<noteq> 10) (str ''bob'' @ [10, 65]) = name"
    unfolding n(1) by (auto simp: takeWhile_tail takeWhile_eq_all_conv)
  then have "name = str ''bob''" by simp
  with t got show ?thesis by blast
qed

theorem file_delivered_witness:
  "\<exists>frames results receiver node.
     receive_frames example_sodium (str ''downloads'') [] frames example_receiver = (results, receiver) \<and>
     set results \<subseteq> {Inr ()} \<and> names (fs receiver) (str ''downloads'' @ str ''/'' @ str ''b.txt'') = Some node \<and> nodes (fs receiver) node = Regular [1, 2, 3]"
proof -
  let ?enc = "file_envelope (replicate 32 2) (so_randombytes example_sender_os) example_box"
  obtain t where t: "send_file example_sodium example_sender_os 1 example_sender_tls (str ''bob'') (str ''a/b.txt'')
     (replicate 32 1) (replicate 32 2) (replicate 32 3) = Some (Inr (), t, 2)" using example_send_file by blast
  have chunks: "file_chunks ?enc = [?enc]" by (rule example_chunks)
  then have room: "has_room example_server 2 (example_client 2 (str ''bob'')) (length (file_chunks ?enc) + 2)"
    using example_room [of "length (file_chunks ?enc) + 2"] by simp
  have alice: "file_protocol_valid_peer_name (str ''alice'')"
    by (simp add: file_protocol_valid_peer_name_def isspace_def iscntrl_def const_simps)
  have h: "length (so_randombytes example_sender_os) = 24" "length (replicate 32 (2 :: byte)) = 32" "(1 :: ClientId) \<noteq> 0"
    "(2 :: ClientId) \<noteq> 1" "route_map (table example_server) (1, fst (create_transfer_id 1)) = None"
    "list_all (\<lambda>d. working d \<and> dk_pid d = 7) [example_disk]"
    by (simp_all add: example_sender_os_def example_server_simps example_disk_simps)
  have one: "length [example_disk] = length (file_chunks ?enc)" unfolding chunks by simp
  note all = file_delivered [OF t example_sender_names(1) example_sender_os_simps(1) example_box_easy refl example_sodium_laws
      h(1,2) room h(3) alice example_registry_facts(1) h(4,5) example_not_full example_can_begin one h(6) example_disk_simps(1)]
  have "sf_data example_source = [1, 2, 3]" by (simp add: example_source_def)
  with all show ?thesis by (metis set_replicate_conv_if empty_subsetI order_refl)
qed

end
